(* ===== verification/Prelude.thy ===== *)
theory Prelude
  imports "HOL-Library.AList" "HOL-Library.Sublist" "HOL-Library.List_Lexorder"
    "HOL-Library.Char_ord"
begin

text \<open>
  Shared vocabulary of the development: Python's exceptions and results, strings, dictionaries
  and sets, with the generic lemmas every component uses.

  \<^item> A Python \<open>str\<close> is a \<^typ>\<open>string\<close> holding the UTF-8 encoding of its
    characters, so \<open>str.encode\<close> is the identity on it; every separator and prefix the
    code works with is ASCII, and an ASCII character never occurs inside the encoding of another
    one, so splitting, searching, slicing and prefix tests at such characters agree.
  \<^item> A \<open>dict\<close> is an association list in insertion order; \<open>d[k] = v\<close> is
    \<^const>\<open>AList.update\<close> (an existing key keeps its place, a new one goes to the end)
    and \<open>del d[k]\<close> is \<^const>\<open>AList.delete\<close>.
  \<^item> A \<open>set\<close> is a list without duplicates. CPython leaves the iteration order of a
    set open; the model picks insertion order, and every property is stated on \<^const>\<open>set\<close>.
  \<^item> A raised exception is \<^const>\<open>Inl\<close>, a returned value \<^const>\<open>Inr\<close>.
\<close>

section \<open>Exceptions and results\<close>

datatype py_error =
    KeyError string
  | ValueError
  | TypeError
  | IndexError
  | StopIteration
  | RuntimeError
  | AttributeError
  | StructError
  | UnicodeDecodeError
  | IncompleteRead
  | BrokenResourceError
  | InvalidTransitionError
  | ProtocolError string
  | XMLRPCError string
  | UninitializedNodeError
  | RemoteFault
  | ConnectionError
  | HttpProtocolError
  | OSError
  | CancelledError

type_synonym 'a result = "py_error + 'a"

definition bind_result :: "'a result \<Rightarrow> ('a \<Rightarrow> 'b result) \<Rightarrow> 'b result" where
  "bind_result m f = (case m of Inl e \<Rightarrow> Inl e | Inr x \<Rightarrow> f x)"

named_theorems result_simps "how results are bound and inspected"

lemma bind_result_Inl [simp, result_simps]: "bind_result (Inl e) f = Inl e"
  by (simp add: bind_result_def)

lemma bind_result_Inr [simp, result_simps]: "bind_result (Inr x) f = f x"
  by (simp add: bind_result_def)

lemma bind_result_eq_Inr [result_simps]:
  "bind_result m f = Inr y \<longleftrightarrow> (\<exists>x. m = Inr x \<and> f x = Inr y)"
  by (cases m) auto

lemma bind_result_eq_Inl [result_simps]:
  "bind_result m f = Inl e \<longleftrightarrow> m = Inl e \<or> (\<exists>x. m = Inr x \<and> f x = Inl e)"
  by (cases m) auto

text \<open>\<open>[f(x) for x in xs]\<close>\<close>

fun traverse :: "('a \<Rightarrow> 'b result) \<Rightarrow> 'a list \<Rightarrow> 'b list result" where
  "traverse f [] = Inr []"
| "traverse f (x # xs) = bind_result (f x) (\<lambda>y. bind_result (traverse f xs) (\<lambda>ys. Inr (y # ys)))"

lemma traverse_cong [fundef_cong]:
  "xs = ys \<Longrightarrow> (\<And>x. x \<in> set ys \<Longrightarrow> f x = g x) \<Longrightarrow> traverse f xs = traverse g ys"
proof (induction xs arbitrary: ys)
  case (Cons x xs)
  then show ?case by (cases ys) auto
qed simp

lemma traverse_all: "(\<And>x. x \<in> set xs \<Longrightarrow> f x = Inr (g x)) \<Longrightarrow> traverse f xs = Inr (map g xs)"
  by (induction xs) simp_all

lemma traverse_map: "traverse f (map g xs) = traverse (\<lambda>x. f (g x)) xs"
  by (induction xs) simp_all

lemma traverse_inverse:
  "traverse f xs = Inr ys \<Longrightarrow> (\<And>x y. x \<in> set xs \<Longrightarrow> f x = Inr y \<Longrightarrow> g y = Inr x) \<Longrightarrow> traverse g ys = Inr xs"
  by (induction xs arbitrary: ys) (auto simp: bind_result_eq_Inr)

text \<open>
  An operation that may change the state before it raises gives the outcome and the state it
  leaves. Sequencing stops at the first exception and keeps the state reached so far.
\<close>

type_synonym ('a, 's) outcome = "'a result \<times> 's"

definition bind_outcome :: "('a, 's) outcome \<Rightarrow> ('a \<Rightarrow> 's \<Rightarrow> ('b, 's) outcome) \<Rightarrow> ('b, 's) outcome" where
  "bind_outcome m f = (case m of (Inl e, s) \<Rightarrow> (Inl e, s) | (Inr x, s) \<Rightarrow> f x s)"

lemma bind_outcome_simps [simp]:
  "bind_outcome (Inl e, s) f = (Inl e, s)"
  "bind_outcome (Inr x, s) f = f x s"
  by (simp_all add: bind_outcome_def)

text \<open>A loop \<open>for x in xs: body\<close> whose body may raise.\<close>

fun for_each :: "('a \<Rightarrow> 's \<Rightarrow> (unit, 's) outcome) \<Rightarrow> 'a list \<Rightarrow> 's \<Rightarrow> (unit, 's) outcome" where
  "for_each body [] s = (Inr (), s)"
| "for_each body (x # xs) s = bind_outcome (body x s) (\<lambda>_ s'. for_each body xs s')"

text \<open>
  When no iteration raises, the loop is a fold; and an invariant of the body that also excludes
  exceptions is an invariant of the loop.
\<close>

lemma for_each_fold:
  assumes "P s" and "\<And>x s. x \<in> set xs \<Longrightarrow> P s \<Longrightarrow> body x s = (Inr (), f x s) \<and> P (f x s)"
  shows "for_each body xs s = (Inr (), fold f xs s) \<and> P (fold f xs s)"
  using assms
proof (induction xs arbitrary: s)
  case (Cons x xs)
  from Cons.prems have b: "body x s = (Inr (), f x s)" and P: "P (f x s)" by simp_all
  from Cons.IH [OF P] Cons.prems(2) b show ?case by simp
qed simp

lemma for_each_append:
  "for_each body (xs @ ys) s = bind_outcome (for_each body xs s) (\<lambda>_. for_each body ys)"
proof (induction xs arbitrary: s)
  case (Cons x xs)
  obtain res s' where "body x s = (res, s')" by fastforce
  with Cons.IH show ?case by (cases res) simp_all
qed simp

lemma for_each_skip:
  "(\<And>x. x \<in> set xs \<Longrightarrow> body x s = (Inr (), s)) \<Longrightarrow> for_each body xs s = (Inr (), s)"
  by (induction xs) simp_all

text \<open>A loop of which one iteration does anything.\<close>

lemma for_each_single:
  assumes "\<And>x. x \<in> set xs \<Longrightarrow> body x s = (Inr (), s)"
    and "\<And>z. z \<in> set zs \<Longrightarrow> body z (snd (body y s)) = (Inr (), snd (body y s))"
  shows "for_each body (xs @ y # zs) s = body y s"
proof -
  obtain res s' where b: "body y s = (res, s')" by fastforce
  have "for_each body zs s' = (Inr (), s')" by (rule for_each_skip) (use assms(2) b in simp)
  with b show ?thesis
    by (cases res) (simp_all add: for_each_append for_each_skip [of xs body s, OF assms(1)])
qed

text \<open>
  What an operation may do to a state, as a relation closed under composition: then a loop of such
  operations is one, whether or not it is cut short by an exception.
\<close>

locale step_contract =
  fixes allowed :: "'s \<Rightarrow> 's \<Rightarrow> bool"
  assumes allowed_refl: "allowed s s"
    and allowed_trans: "allowed s t \<Longrightarrow> allowed t u \<Longrightarrow> allowed s u"
begin

lemma allowed_fold: "(\<And>x s. allowed s (f x s)) \<Longrightarrow> allowed s (fold f xs s)"
proof (induction xs arbitrary: s)
  case (Cons x xs)
  from Cons.prems have "allowed s (f x s)" .
  moreover have "allowed (f x s) (fold f xs (f x s))" by (rule Cons.IH) (rule Cons.prems)
  ultimately show ?case by (auto intro: allowed_trans)
qed (simp add: allowed_refl)

lemma allowed_bind:
  "allowed s (snd m) \<Longrightarrow> (\<And>x s'. allowed s' (snd (f x s'))) \<Longrightarrow> allowed s (snd (bind_outcome m f))"
  by (cases m; cases "fst m") (auto intro: allowed_trans)

lemma allowed_for_each:
  assumes "\<And>x s. allowed s (snd (body x s))"
  shows "allowed s (snd (for_each body xs s))"
proof (induction xs arbitrary: s)
  case (Cons x xs)
  show ?case
    unfolding for_each.simps by (rule allowed_bind) (rule assms Cons.IH)+
qed (simp add: allowed_refl)

end

section \<open>Strings: splitting and joining at a separator\<close>

text \<open>\<open>xs.split(c)\<close> for a one-character separator: always at least one piece.\<close>

fun split_on :: "'a \<Rightarrow> 'a list \<Rightarrow> 'a list list" where
  "split_on c [] = [[]]"
| "split_on c (x # xs) =
     (if x = c then [] # split_on c xs
      else (case split_on c xs of [] \<Rightarrow> [[x]] | y # ys \<Rightarrow> (x # y) # ys))"

text \<open>\<open>sep.join(parts)\<close>.\<close>

fun join_with :: "'a list \<Rightarrow> 'a list list \<Rightarrow> 'a list" where
  "join_with sep [] = []"
| "join_with sep [x] = x"
| "join_with sep (x # y # zs) = x @ sep @ join_with sep (y # zs)"

lemma split_on_not_Nil [simp]: "split_on c xs \<noteq> []"
  by (induction xs) (auto split: list.splits)

lemma split_on_no_sep: "p \<in> set (split_on c xs) \<Longrightarrow> c \<notin> set p"
  by (induction xs arbitrary: p) (auto split: list.splits if_splits)

lemma split_on_id [simp]: "c \<notin> set xs \<Longrightarrow> split_on c xs = [xs]"
  by (induction xs) auto

lemma split_on_append: "split_on c (xs @ c # ys) = split_on c xs @ split_on c ys"
  by (induction xs) (auto split: list.splits)

lemma split_on_sep_Cons [simp]: "split_on c (c # ys) = [] # split_on c ys"
  by simp

lemma join_with_Cons:
  "ps \<noteq> [] \<Longrightarrow> join_with sep (p # ps) = p @ sep @ join_with sep ps"
  by (cases ps) auto

lemma join_with_append:
  "ps \<noteq> [] \<Longrightarrow> qs \<noteq> [] \<Longrightarrow> join_with sep (ps @ qs) = join_with sep ps @ sep @ join_with sep qs"
proof (induction ps)
  case Nil
  then show ?case by simp
next
  case (Cons p ps)
  then show ?case by (cases "ps = []") (simp_all add: join_with_Cons)
qed

lemma split_on_join_with:
  "ps \<noteq> [] \<Longrightarrow> (\<And>p. p \<in> set ps \<Longrightarrow> c \<notin> set p) \<Longrightarrow> split_on c (join_with [c] ps) = ps"
proof (induction ps)
  case Nil
  then show ?case by simp
next
  case (Cons p ps)
  then show ?case
    by (cases "ps = []") (auto simp: join_with_Cons split_on_append)
qed

lemma join_with_split_on: "join_with [c] (split_on c xs) = xs"
proof (induction xs)
  case Nil
  then show ?case by simp
next
  case (Cons x xs)
  obtain y ys where split: "split_on c xs = y # ys"
    using split_on_not_Nil [of c xs] by (cases "split_on c xs") auto
  then have "join_with [c] (y # ys) = xs" using Cons.IH by simp
  with split show ?case by (cases ys) auto
qed

section \<open>Dictionaries\<close>

lemma map_of_update [simp]: "map_of (AList.update k v al) = (map_of al)(k \<mapsto> v)"
  by (simp add: update_conv')

lemma map_of_delete [simp]: "map_of (AList.delete k al) = (map_of al)(k := None)"
  by (simp add: delete_conv')

lemma distinct_keys_update [simp]:
  "distinct (map fst al) \<Longrightarrow> distinct (map fst (AList.update k v al))"
  by (rule distinct_update)

lemma distinct_keys_delete [simp]:
  "distinct (map fst al) \<Longrightarrow> distinct (map fst (AList.delete k al))"
  by (rule distinct_delete)

lemma set_update_subset: "set (AList.update k v al) \<subseteq> insert (k, v) (set al)"
  by (induction al) auto

lemma set_delete_subset: "set (AList.delete k al) \<subseteq> set al"
  by (auto simp: AList.delete_eq)

lemma keys_update [simp]: "fst ` set (AList.update k v al) = insert k (fst ` set al)"
  by (simp add: dom_map_of_conv_image_fst [symmetric])

lemma keys_delete [simp]: "fst ` set (AList.delete k al) = fst ` set al - {k}"
  by (auto simp: dom_map_of_conv_image_fst [symmetric])

text \<open>\<open>d.get(key, empty)\<close> for a dict of sets.\<close>

definition members_at :: "('k \<times> 'a list) list \<Rightarrow> 'k \<Rightarrow> 'a list" where
  "members_at d k = (case map_of d k of None \<Rightarrow> [] | Some xs \<Rightarrow> xs)"

lemma members_at_update [simp]:
  "members_at (AList.update k xs d) k' = (if k' = k then xs else members_at d k')"
  by (simp add: members_at_def)

lemma members_at_delete [simp]:
  "members_at (AList.delete k d) k' = (if k' = k then [] else members_at d k')"
  by (simp add: members_at_def)

lemma members_at_map_filter [simp]:
  "members_at (map (\<lambda>(k, xs). (k, filter P xs)) d) k' = filter P (members_at d k')"
  by (induction d) (auto simp: members_at_def)

lemma map_fst_map_filter [simp]: "map fst (map (\<lambda>(k, xs). (k, filter P xs)) d) = map fst d"
  by (induction d) auto

lemma members_at_not_Nil: "members_at d k \<noteq> [] \<Longrightarrow> k \<in> dom (map_of d)"
  by (auto simp: members_at_def split: option.splits)

lemma members_atD: "x \<in> set (members_at d k) \<Longrightarrow> \<exists>xs. (k, xs) \<in> set d \<and> x \<in> set xs"
  by (cases "map_of d k") (auto simp: members_at_def dest: map_of_SomeD)

section \<open>Sets as lists without duplicates\<close>

definition set_add :: "'a \<Rightarrow> 'a list \<Rightarrow> 'a list" where
  "set_add x xs = (if x \<in> set xs then xs else xs @ [x])"

definition set_discard :: "'a \<Rightarrow> 'a list \<Rightarrow> 'a list" where
  "set_discard x xs = filter (\<lambda>y. y \<noteq> x) xs"

lemma set_set_add [simp]: "set (set_add x xs) = insert x (set xs)"
  by (auto simp: set_add_def)

lemma set_set_discard [simp]: "set (set_discard x xs) = set xs - {x}"
  by (auto simp: set_discard_def)

lemma distinct_set_add [simp]: "distinct xs \<Longrightarrow> distinct (set_add x xs)"
  by (simp add: set_add_def)

lemma distinct_set_discard [simp]: "distinct xs \<Longrightarrow> distinct (set_discard x xs)"
  by (simp add: set_discard_def)

lemma set_add_not_Nil [simp]: "set_add x xs \<noteq> []"
  by (auto simp: set_add_def)

lemma set_discard_eq_Nil: "set_discard x xs = [] \<longleftrightarrow> set xs \<subseteq> {x}"
  by (auto simp: set_discard_def filter_empty_conv)

section \<open>Searching a range\<close>

lemma update_fresh: "k \<notin> fst ` set h \<Longrightarrow> AList.update k v h = h @ [(k, v)]"
  by (induction h) auto

lemma fold_update_fresh:
  "distinct (map fst (h @ kvs)) \<Longrightarrow> fold (\<lambda>(k, v). AList.update k v) kvs h = h @ kvs"
proof (induction kvs arbitrary: h)
  case (Cons kv kvs)
  then have "AList.update (fst kv) (snd kv) h = h @ [kv]" by (intro update_fresh [of "fst kv" h "snd kv", simplified]) auto
  with Cons.IH [of "h @ [kv]"] Cons.prems show ?case by (simp add: case_prod_beta)
qed simp

lemma find_upt_Some:
  assumes "find P [a..<b] = Some i"
  shows "a \<le> i \<and> i < b \<and> P i \<and> (\<forall>j. a \<le> j \<and> j < i \<longrightarrow> \<not> P j)"
proof -
  from assms obtain x where x: "x < b - a" "P (a + x)" "i = a + x" "\<And>y. y < x \<Longrightarrow> \<not> P (a + y)"
    by (auto simp: find_Some_iff)
  have "\<not> P j" if "a \<le> j" "j < i" for j
    using x(4) [of "j - a"] that x(3) by auto
  with x show ?thesis by auto
qed

lemma find_upt_None: "find P [a..<b] = None \<longleftrightarrow> (\<forall>j. a \<le> j \<and> j < b \<longrightarrow> \<not> P j)"
  by (auto simp: find_None_iff)

end
