(* ===== verification/Names.thy ===== *)
theory Names
  imports Prelude
begin

text \<open>
  Graph resource names, \<open>aioros/_utils/_resolve.py\<close>: splitting and joining at slashes,
  name resolution against a node and a namespace, namespace normalisation, and the settings a node
  takes from its command line and environment.

  The regular expressions are written out as functions. \<open>\<dollar>\<close> matches at the end and also
  just before a final newline, as \<open>re\<close> does without \<open>MULTILINE\<close>; \<open>.\<close> matches
  everything but a newline; \<open>\<bar>w\<close> is ASCII where the pattern says so.
  Not modelled: \<open>get_mappings\<close> and \<open>validate_namespace\<close>, whose \<open>\<bar>w\<close>
  ranges over Unicode word characters.
\<close>

section \<open>Splitting and joining\<close>

abbreviation slash :: char where
  "slash \<equiv> CHR ''/''"

definition split :: "string \<Rightarrow> string list" where
  "split key = filter (\<lambda>i. i \<noteq> []) (split_on slash key)"

definition join :: "string list \<Rightarrow> string" where
  "join args = join_with ''/'' (concat (map split args))"

text \<open>A component of a name: what \<open>split\<close> produces.\<close>

definition valid_part :: "string \<Rightarrow> bool" where
  "valid_part p \<longleftrightarrow> p \<noteq> [] \<and> slash \<notin> set p"

abbreviation valid_path :: "string list \<Rightarrow> bool" where
  "valid_path ps \<equiv> \<forall>p\<in>set ps. valid_part p"

named_theorems path_simps "evaluation of split and join on structured names"

lemma split_Nil [simp, path_simps]: "split [] = []"
  by (simp add: split_def)

lemma split_slash_Cons [simp, path_simps]: "split (slash # xs) = split xs"
  by (simp add: split_def)

lemma split_slash_append [path_simps]: "split (xs @ slash # ys) = split xs @ split ys"
  by (simp add: split_def split_on_append)

lemma split_valid_part [simp, path_simps]: "valid_part p \<Longrightarrow> split p = [p]"
  by (simp add: split_def valid_part_def)

lemma valid_path_split: "valid_path (split key)"
  by (auto simp: split_def valid_part_def dest: split_on_no_sep)

lemma valid_part_in_split: "p \<in> set (split key) \<Longrightarrow> valid_part p"
  using valid_path_split by blast

lemma split_join_with_concat: "split (join_with ''/'' ps) = concat (map split ps)"
proof (induction ps)
  case (Cons p ps)
  then show ?case by (cases "ps = []") (simp_all add: join_with_Cons split_slash_append)
qed simp

lemma split_join_with [path_simps]: "valid_path ps \<Longrightarrow> split (join_with ''/'' ps) = ps"
proof (cases "ps = []")
  case False
  assume "valid_path ps"
  with False show ?thesis
    by (auto simp: split_def split_on_join_with valid_part_def filter_id_conv)
qed simp

lemma valid_path_splits: "valid_path (concat (map split args))"
  using valid_part_in_split by auto

lemma split_join: "split (join args) = concat (map split args)"
  unfolding join_def by (rule split_join_with [OF valid_path_splits])

lemma split_join_split [simp]: "split (join [key]) = split key"
  by (simp add: split_join)

lemma join_join [simp]: "join [join args] = join args"
  using split_join [of args] by (simp add: join_def)

lemma concat_map_split_valid: "valid_path ps \<Longrightarrow> concat (map split ps) = ps"
  by (induction ps) auto

lemma join_valid_path: "valid_path ps \<Longrightarrow> join ps = join_with ''/'' ps"
  by (simp add: join_def concat_map_split_valid)

text \<open>
  A joined name is empty or starts with a character of its first component, never with a slash.
\<close>

lemma join_with_valid_not_slash:
  assumes "valid_path ps" shows "\<not> prefix ''/'' (join_with ''/'' ps)"
proof (cases ps)
  case (Cons p qs)
  with assms obtain c cs where "p = c # cs" "c \<noteq> slash"
    by (cases p) (auto simp: valid_part_def)
  with Cons show ?thesis by (cases qs) auto
qed simp

lemma join_not_slash: "\<not> prefix ''/'' (join args)"
  unfolding join_def by (rule join_with_valid_not_slash) (auto dest: valid_part_in_split)

lemma join_with_eq_Nil: "valid_path ps \<Longrightarrow> join_with ''/'' ps = [] \<longleftrightarrow> ps = []"
  using split_join_with by fastforce

section \<open>Resolution\<close>

definition ascii_alpha :: "char \<Rightarrow> bool" where
  "ascii_alpha c \<longleftrightarrow>
     (CHR ''a'' \<le> c \<and> c \<le> CHR ''z'') \<or> (CHR ''A'' \<le> c \<and> c \<le> CHR ''Z'')"

definition ascii_word :: "char \<Rightarrow> bool" where
  "ascii_word c \<longleftrightarrow> ascii_alpha c \<or> (CHR ''0'' \<le> c \<and> c \<le> CHR ''9'') \<or> c = CHR ''_''"

text \<open>What is before the end \<open>\<dollar>\<close> matches at, when a final newline is left over.\<close>

definition strip_final_newline :: "string \<Rightarrow> string" where
  "strip_final_newline s =
     (if s \<noteq> [] \<and> last s = CHR 0x0A then butlast s else s)"

text \<open>\<open>VALID_NAME.match(part) is not None\<close>.\<close>

definition valid_name :: "string \<Rightarrow> bool" where
  "valid_name part =
     (case strip_final_newline part of
        [] \<Rightarrow> False
      | c # cs \<Rightarrow> ascii_alpha c \<and> list_all ascii_word cs)"

text \<open>\<open>_resolve_name\<close>.\<close>

definition resolve_name_raw :: "string \<Rightarrow> string \<Rightarrow> string \<Rightarrow> string" where
  "resolve_name_raw name node_name namespace =
     (if name = [] then namespace
      else let canonical_name = join [name] in
        if prefix ''/'' name then ''/'' @ canonical_name
        else if prefix ''~'' canonical_name
             then ''/'' @ join [namespace, node_name, drop 1 canonical_name]
             else ''/'' @ join [namespace, canonical_name])"

definition resolve_name :: "string \<Rightarrow> string \<Rightarrow> string \<Rightarrow> string result" where
  "resolve_name name node_name namespace =
     (let resolved = resolve_name_raw name node_name namespace in
      if list_all (\<lambda>part. part = [] \<or> valid_name part) (split_on slash resolved)
      then Inr resolved
      else Inl ValueError)"

lemma resolve_name_eq_Inr:
  "resolve_name name node namespace = Inr r \<longleftrightarrow>
     r = resolve_name_raw name node namespace \<and> (\<forall>p\<in>set (split r). valid_name p)"
  by (auto simp: resolve_name_def Let_def list_all_iff split_def)

text \<open>
  Canonical global names: one leading slash, then non-empty components with one slash between
  each two.
\<close>

definition canonical :: "string \<Rightarrow> bool" where
  "canonical r \<longleftrightarrow> r = ''/'' @ join [r]"

lemma canonical_slash_join: "canonical (''/'' @ join args)"
proof -
  have "split (''/'' @ join args) = concat (map split args)"
    by (simp add: split_join)
  then show ?thesis by (simp add: canonical_def join_def)
qed

lemma resolve_name_raw_canonical:
  "name \<noteq> [] \<Longrightarrow> canonical (resolve_name_raw name node namespace)"
  by (auto simp: resolve_name_raw_def Let_def canonical_slash_join [simplified])

lemma canonical_absolute: "canonical r \<Longrightarrow> prefix ''/'' r"
  by (metis canonical_def prefixI)

lemma resolve_name_raw_of_canonical: "canonical r \<Longrightarrow> resolve_name_raw r node namespace = r"
proof -
  assume c: "canonical r"
  from canonical_absolute [OF c] have "resolve_name_raw r node namespace = ''/'' @ join [r]"
    by (auto simp: resolve_name_raw_def)
  with c show ?thesis by (simp add: canonical_def)
qed

text \<open>
  A resolved name is canonical and made of valid components only.
\<close>

lemma resolve_name_canonical:
  "resolve_name name node namespace = Inr r \<Longrightarrow> name \<noteq> [] \<Longrightarrow>
     canonical r \<and> (\<forall>p\<in>set (split r). valid_name p)"
  by (simp add: resolve_name_eq_Inr resolve_name_raw_canonical)

lemma resolve_name_idem:
  "resolve_name name node namespace = Inr r \<Longrightarrow> name \<noteq> [] \<Longrightarrow>
     resolve_name r node' namespace' = Inr r"
  by (simp add: resolve_name_eq_Inr resolve_name_raw_canonical resolve_name_raw_of_canonical)

text \<open>Where each form of name ends up, as a path.\<close>

lemma split_resolve_absolute:
  "prefix ''/'' name \<Longrightarrow> split (resolve_name_raw name node namespace) = split name"
  by (auto simp: resolve_name_raw_def Let_def split_join)

lemma split_resolve_private:
  "split (resolve_name_raw (CHR ''~'' # key) node namespace) =
     split namespace @ split node @ split key"
proof -
  obtain p ps where sp: "split_on slash key = p # ps"
    using split_on_not_Nil [of slash key] by (cases "split_on slash key") auto
  then have s: "split (CHR ''~'' # key) = (CHR ''~'' # p) # filter (\<lambda>i. i \<noteq> []) ps"
    by (simp add: split_def)
  have vp: "valid_path (filter (\<lambda>i. i \<noteq> []) ps)"
    using sp split_on_no_sep [of _ slash key] by (auto simp: valid_part_def)
  have "join [CHR ''~'' # key] = CHR ''~'' # join_with ''/'' (p # filter (\<lambda>i. i \<noteq> []) ps)"
    unfolding join_def using s by (cases "filter (\<lambda>i. i \<noteq> []) ps") simp_all
  moreover have "split (join_with ''/'' (p # filter (\<lambda>i. i \<noteq> []) ps)) = split key"
  proof (cases "p = []")
    case True
    then show ?thesis using sp vp split_join_with [OF vp]
      by (cases "filter (\<lambda>i. i \<noteq> []) ps") (simp_all add: split_def)
  next
    case False
    then have "valid_path (p # filter (\<lambda>i. i \<noteq> []) ps)"
      using vp sp split_on_no_sep [of p slash key] by (auto simp: valid_part_def)
    from split_join_with [OF this] False show ?thesis using sp by (simp add: split_def)
  qed
  ultimately show ?thesis
    by (simp add: resolve_name_raw_def Let_def split_join)
qed

lemma split_resolve_relative:
  assumes "name \<noteq> []" "\<not> prefix ''/'' name" "\<not> prefix ''~'' name"
  shows "split (resolve_name_raw name node namespace) = split namespace @ split name"
proof -
  from assms obtain c cs where n: "name = c # cs" "c \<noteq> slash" "c \<noteq> CHR ''~''"
    by (cases name) auto
  obtain p ps where "split_on slash cs = p # ps"
    using split_on_not_Nil [of slash cs] by (cases "split_on slash cs") auto
  with n have s: "split name = (c # p) # filter (\<lambda>i. i \<noteq> []) ps"
    by (simp add: split_def)
  then have "\<not> prefix ''~'' (join [name])"
    unfolding join_def using n by (cases "filter (\<lambda>i. i \<noteq> []) ps") simp_all
  with assms show ?thesis
    by (simp add: resolve_name_raw_def Let_def split_join)
qed

section \<open>Namespaces\<close>

definition normalize_namespace :: "string \<Rightarrow> string result" where
  "normalize_namespace namespace =
     (if prefix ''~'' namespace then Inl ValueError
      else
        let ns = (if prefix ''/'' namespace then namespace else ''/'' @ namespace) in
        Inr (if suffix ''/'' ns then ns else ns @ ''/''))"

lemma normalize_namespace_ends:
  "normalize_namespace ns = Inr r \<Longrightarrow> prefix ''/'' r \<and> suffix ''/'' r"
proof -
  assume r: "normalize_namespace ns = Inr r"
  let ?ns = "if prefix ''/'' ns then ns else ''/'' @ ns"
  have abs: "prefix ''/'' ?ns" by simp
  from r have "r = (if suffix ''/'' ?ns then ?ns else ?ns @ ''/'')"
    by (simp add: normalize_namespace_def Let_def split: if_splits)
  with abs show ?thesis
    by (cases "suffix ''/'' ?ns") (auto intro: prefix_prefix suffixI)
qed

lemma normalize_namespace_fixed:
  "prefix ''/'' r \<Longrightarrow> suffix ''/'' r \<Longrightarrow> normalize_namespace r = Inr r"
  by (auto simp: normalize_namespace_def Let_def prefix_def)

lemma normalize_namespace_idem:
  "normalize_namespace ns = Inr r \<Longrightarrow> normalize_namespace r = Inr r"
  using normalize_namespace_ends normalize_namespace_fixed by blast

lemma split_normalize_namespace:
  "normalize_namespace ns = Inr r \<Longrightarrow> split r = split ns"
  using split_slash_append [of _ "[]"]
  by (auto simp: normalize_namespace_def Let_def split: if_splits)

text \<open>
  The key of a parameter subscription: \<open>normalize_namespace(join(key))\<close>. For a path it is
  the string with a slash before, between and after the components.
\<close>

definition abs_path :: "string list \<Rightarrow> string" where
  "abs_path ps = concat (map (\<lambda>p. slash # p) ps)"

definition ns_key :: "string list \<Rightarrow> string" where
  "ns_key ps = abs_path ps @ ''/''"

lemma abs_path_simps [simp]:
  "abs_path [] = []"
  "abs_path (p # ps) = slash # p @ abs_path ps"
  "abs_path (ps @ qs) = abs_path ps @ abs_path qs"
  by (simp_all add: abs_path_def)

lemma slash_join_with: "ps \<noteq> [] \<Longrightarrow> slash # join_with ''/'' ps = abs_path ps"
proof (induction ps)
  case (Cons p ps)
  then show ?case by (cases "ps = []") (simp_all add: join_with_Cons)
qed simp

lemma split_abs_path [path_simps]: "valid_path ps \<Longrightarrow> split (abs_path ps) = ps"
  by (cases "ps = []") (auto simp: slash_join_with [symmetric] path_simps)

lemma split_ns_key [path_simps]: "valid_path ps \<Longrightarrow> split (ns_key ps) = ps"
  using split_slash_append [of "abs_path ps" "[]"] by (simp add: ns_key_def path_simps)

lemma canonical_abs_path: "valid_path ps \<Longrightarrow> ps \<noteq> [] \<Longrightarrow> canonical (abs_path ps)"
  by (simp add: canonical_def join_def path_simps slash_join_with)

lemma canonical_eq_abs_path: "canonical key \<Longrightarrow> split key \<noteq> [] \<Longrightarrow> key = abs_path (split key)"
  by (simp add: canonical_def join_def slash_join_with)

lemma suffix_single_iff: "suffix [c] xs \<longleftrightarrow> xs \<noteq> [] \<and> last xs = c"
  by (cases xs rule: rev_cases) (auto simp: suffix_def)

lemma suffix_slash_valid: "valid_path ps \<Longrightarrow> ps \<noteq> [] \<Longrightarrow> \<not> suffix ''/'' (join_with ''/'' ps)"
proof (induction ps)
  case (Cons p ps)
  show ?case
  proof (cases "ps = []")
    case True
    from Cons.prems have "p \<noteq> []" "slash \<notin> set p" by (auto simp: valid_part_def)
    then have "last p \<noteq> slash" using last_in_set by metis
    with True show ?thesis by (simp add: suffix_single_iff)
  next
    case False
    with Cons have "\<not> suffix ''/'' (join_with ''/'' ps)" "join_with ''/'' ps \<noteq> []"
      using join_with_eq_Nil [of ps] by auto
    then show ?thesis using False
      by (simp add: join_with_Cons suffix_single_iff)
  qed
qed simp

lemma normalize_join:
  "\<not> prefix ''~'' (join [key]) \<Longrightarrow> normalize_namespace (join [key]) = Inr (ns_key (split key))"
proof -
  assume tilde: "\<not> prefix ''~'' (join [key])"
  have eq: "join [key] = join_with ''/'' (split key)" by (simp add: join_def)
  have v: "valid_path (split key)" by (rule valid_path_split)
  have noslash: "\<not> prefix ''/'' (join [key])" by (rule join_not_slash)
  show ?thesis
  proof (cases "split key = []")
    case True
    then show ?thesis using eq by (simp add: normalize_namespace_def ns_key_def suffix_def)
  next
    case False
    have "\<not> suffix ''/'' (slash # join_with ''/'' (split key))"
      using suffix_slash_valid [OF v False] join_with_eq_Nil [OF v] False
      by (auto simp: suffix_Cons)
    with False show ?thesis using tilde noslash eq
      by (simp add: normalize_namespace_def Let_def ns_key_def slash_join_with)
  qed
qed

text \<open>
  The test \<open>param_key.startswith(key)\<close> on normalised keys is the ancestor test on paths.
\<close>

lemma prefix_slash_word:
  assumes "slash \<notin> set p" "slash \<notin> set q"
    and "prefix (p @ slash # xs) (q @ slash # ys)"
  shows "p = q \<and> prefix xs ys"
proof -
  from assms(3) obtain zs where eq: "q @ slash # ys = p @ slash # xs @ zs"
    by (auto simp: prefix_def)
  have "split_on slash (q @ slash # ys) = q # split_on slash ys"
    using assms(2) by (simp add: split_on_append)
  moreover have "split_on slash (p @ slash # xs @ zs) = p # split_on slash (xs @ zs)"
    using assms(1) by (simp add: split_on_append)
  ultimately have "q = p" using eq by simp
  with eq show ?thesis by simp
qed

lemma prefix_ns_key:
  "valid_path ps \<Longrightarrow> valid_path qs \<Longrightarrow> prefix (ns_key ps) (ns_key qs) \<longleftrightarrow> prefix ps qs"
proof (induction ps arbitrary: qs)
  case Nil
  then show ?case by (cases qs) (auto simp: ns_key_def)
next
  case (Cons p ps)
  show ?case
  proof (cases qs)
    case Nil
    with Cons.prems show ?thesis by (auto simp: ns_key_def valid_part_def)
  next
    case (Cons q qs')
    have p: "slash \<notin> set p" and q: "slash \<notin> set q"
      using Cons.prems \<open>qs = q # qs'\<close> by (auto simp: valid_part_def)
    have step: "ns_key (r # rs) = slash # r @ ns_key rs" for r rs
      by (simp add: ns_key_def)
    have head: "\<exists>zs. ns_key rs = slash # zs" for rs
      by (cases rs) (auto simp: ns_key_def)
    obtain xs ys where xs: "ns_key ps = slash # xs" and ys: "ns_key qs' = slash # ys"
      using head by metis
    have IH: "prefix (ns_key ps) (ns_key qs') \<longleftrightarrow> prefix ps qs'"
      using Cons.IH [of qs'] Cons.prems \<open>qs = q # qs'\<close> by simp
    show ?thesis
      using prefix_slash_word [OF p q, of xs ys] IH \<open>qs = q # qs'\<close>
      by (auto simp: step xs ys)
  qed
qed

section \<open>Settings from the command line and the environment\<close>

text \<open>
  \<open>_matches("^" + head + "(?P<x>.+)$")\<close> on one argument: the text after a fixed head, when it
  is not empty and has no newline but possibly a final one.
\<close>

definition match_after :: "string \<Rightarrow> string \<Rightarrow> string option" where
  "match_after head arg =
     (if prefix head arg then
        let body = strip_final_newline (drop (length head) arg) in
        if body \<noteq> [] \<and> CHR 0x0A \<notin> set body then Some body else None
      else None)"

text \<open>The first argument of \<open>sys.argv\<close> that matches.\<close>

fun first_match :: "(string \<Rightarrow> string option) \<Rightarrow> string list \<Rightarrow> string option" where
  "first_match f [] = None"
| "first_match f (arg # args) = (case f arg of None \<Rightarrow> first_match f args | Some m \<Rightarrow> Some m)"

type_synonym environ = "string \<Rightarrow> string option"

definition get_remapped_name :: "string list \<Rightarrow> string option" where
  "get_remapped_name argv = first_match (match_after ''__name:='') argv"

definition get_master_uri :: "string list \<Rightarrow> environ \<Rightarrow> string" where
  "get_master_uri argv env =
     (case first_match (match_after ''__master:='') argv of
        Some m \<Rightarrow> m
      | None \<Rightarrow>
          (case env ''ROS_MASTER_URI'' of
             Some uri \<Rightarrow> uri
           | None \<Rightarrow> ''http://localhost:11311''))"

definition get_namespace :: "string list \<Rightarrow> environ \<Rightarrow> string" where
  "get_namespace argv env =
     (case first_match (match_after ''__ns:='') argv of
        Some ns \<Rightarrow> ns
      | None \<Rightarrow> (case env ''ROS_NAMESPACE'' of Some ns \<Rightarrow> ns | None \<Rightarrow> ''/''))"

text \<open>The two heads of \<open>__(ip|hostname):=\<close> cannot both match one argument.\<close>

definition match_address :: "string \<Rightarrow> string option" where
  "match_address arg =
     (case match_after ''__ip:='' arg of
        Some a \<Rightarrow> Some a
      | None \<Rightarrow> match_after ''__hostname:='' arg)"

definition get_local_address :: "string list \<Rightarrow> environ \<Rightarrow> string" where
  "get_local_address argv env =
     (case first_match match_address argv of
        Some a \<Rightarrow> a
      | None \<Rightarrow>
          (case env ''ROS_HOSTNAME'' of
             Some (c # h) \<Rightarrow> c # h
           | _ \<Rightarrow>
               (case env ''ROS_IP'' of
                  Some (c # a) \<Rightarrow> c # a
                | _ \<Rightarrow> if env ''ROS_IPV6'' = Some ''on'' then ''::'' else ''0.0.0.0'')))"

text \<open>An address is never empty, whatever the arguments and the environment hold.\<close>

lemma match_after_not_Nil: "match_after head arg = Some m \<Longrightarrow> m \<noteq> [] \<and> CHR 0x0A \<notin> set m"
  by (auto simp: match_after_def Let_def split: if_splits)

lemma first_match_Some:
  "first_match f args = Some m \<Longrightarrow> \<exists>i < length args. f (args ! i) = Some m \<and> (\<forall>j<i. f (args ! j) = None)"
proof (induction args)
  case (Cons arg args)
  show ?case
  proof (cases "f arg")
    case None
    with Cons obtain i where "i < length args" "f (args ! i) = Some m" "\<forall>j<i. f (args ! j) = None"
      by auto
    with None show ?thesis
      by (intro exI [of _ "Suc i"]) (auto simp: less_Suc_eq_0_disj)
  next
    case (Some m')
    with Cons.prems show ?thesis by auto
  qed
qed simp

lemma get_local_address_not_Nil: "get_local_address argv env \<noteq> []"
proof -
  have "first_match match_address argv = Some m \<Longrightarrow> m \<noteq> []" for m
    by (auto dest!: first_match_Some simp: match_address_def split: option.splits
        dest: match_after_not_Nil)
  then show ?thesis
    by (auto simp: get_local_address_def split: option.splits list.splits)
qed

section \<open>What resolution and normalisation give\<close>

text \<open>C36: A resolved name is absolute and canonical, each of its components is a valid name, it
  resolves to itself from anywhere, and its components are those of the given name below the root,
  below the node or below the namespace, as its first character says.\<close>

theorem resolved_name:
  assumes "resolve_name name node namespace = Inr r" and "name \<noteq> []"
  shows "canonical r \<and> (\<forall>p\<in>set (split r). valid_name p) \<and>
    resolve_name r node' namespace' = Inr r \<and>
    split r =
      (if prefix ''/'' name then split name
       else if prefix ''~'' name then split namespace @ split node @ split (tl name)
       else split namespace @ split name)"
proof -
  have r: "r = resolve_name_raw name node namespace" using assms(1) by (simp add: resolve_name_eq_Inr)
  have "split r = split namespace @ split node @ split (tl name)" if "prefix ''~'' name"
    using that split_resolve_private [of "tl name" node namespace] r by (auto simp: prefix_def)
  then show ?thesis
    using resolve_name_canonical [OF assms] resolve_name_idem [OF assms]
      split_resolve_absolute [of name node namespace] split_resolve_relative [of name node namespace] r assms(2)
    by (auto simp: prefix_def)
qed

theorem resolved_name_witness: "split ''/robot/node/gain'' = [''robot'', ''node'', ''gain'']"
proof -
  have n: "resolve_name ''~gain'' ''node'' ''/robot/'' = Inr ''/robot/node/gain''"
    by (simp add: resolve_name_def resolve_name_raw_def join_def split_def valid_name_def
        strip_final_newline_def ascii_alpha_def ascii_word_def Let_def)
  from resolved_name [OF n] show ?thesis by (simp add: split_def)
qed

text \<open>A normalised namespace starts and ends with a slash, has the components of the given one,
  and normalising it again changes nothing; a private name is refused.\<close>

theorem normalized_namespace:
  "(case normalize_namespace ns of
      Inl e \<Rightarrow> prefix ''~'' ns \<and> e = ValueError
    | Inr r \<Rightarrow> prefix ''/'' r \<and> suffix ''/'' r \<and> split r = split ns \<and> normalize_namespace r = Inr r)"
proof (cases "normalize_namespace ns")
  case (Inl e)
  then show ?thesis by (auto simp: normalize_namespace_def Let_def split: if_splits)
next
  case (Inr r)
  with normalize_namespace_ends [OF Inr] split_normalize_namespace [OF Inr] normalize_namespace_idem [OF Inr]
  show ?thesis by simp
qed

end
