(* ===== verification/Values.thy ===== *)
theory Values
  imports Names "HOL-Library.Word"
begin

text \<open>
  The values that travel over XML-RPC and fill the parameter tree: \<open>XmlRpcTypes\<close> of
  \<open>aioros/xmlrpc/_protocol/_common.py\<close>. A float is kept as its \<open>repr\<close>, which
  determines it; a \<open>datetime\<close> as year, month, day, hour, minute, second. A dict is an
  association list in insertion order. Paths into nested dicts and their laws are what the
  parameter caches of the master and of a node are built on.
\<close>

type_synonym bytes = "8 word list"

datatype pyval =
    PNone
  | PBool bool
  | PInt int
  | PFloat string
  | PStr string
  | PBytes bytes
  | PBinary bytes
  | PDateTime "nat list"
  | PList "pyval list"
  | PDict "(string \<times> pyval) list"

type_synonym params = "(string \<times> pyval) list"

text \<open>\<open>isinstance(value, dict)\<close>\<close>

fun is_dict :: "pyval \<Rightarrow> bool" where
  "is_dict (PDict d) = True"
| "is_dict _ = False"

lemma is_dict_iff: "is_dict v \<longleftrightarrow> (\<exists>d. v = PDict d)"
  by (cases v) auto

section \<open>Values at a path\<close>

primrec val_at :: "pyval \<Rightarrow> string list \<Rightarrow> pyval option" where
  "val_at v [] = Some v"
| "val_at v (k # ks) =
     (case v of
        PDict d \<Rightarrow> (case map_of d k of None \<Rightarrow> None | Some u \<Rightarrow> val_at u ks)
      | _ \<Rightarrow> None)"

lemma val_at_append: "val_at v (xs @ ys) = Option.bind (val_at v xs) (\<lambda>u. val_at u ys)"
  by (induction xs arbitrary: v) (auto split: pyval.splits option.splits)

lemma val_at_leaf [simp]: "\<not> is_dict v \<Longrightarrow> val_at v (k # ks) = None"
  by (cases v) auto

lemma val_at_PDict_Nil [simp]: "val_at (PDict []) (k # ks) = None"
  by simp

text \<open>
  \<open>params[k1][k2]...[kn] = value\<close>, where a missing or non-dict intermediate value is replaced
  by a fresh dict.
\<close>

definition sub_dict :: "params \<Rightarrow> string \<Rightarrow> params" where
  "sub_dict params ns = (case map_of params ns of Some (PDict d) \<Rightarrow> d | _ \<Rightarrow> [])"

fun set_path :: "params \<Rightarrow> string list \<Rightarrow> pyval \<Rightarrow> params" where
  "set_path params [] value = params"
| "set_path params [k] value = AList.update k value params"
| "set_path params (ns # k # ks) value =
     AList.update ns (PDict (set_path (sub_dict params ns) (k # ks) value)) params"

lemma set_path_Cons:
  "ks \<noteq> [] \<Longrightarrow> set_path params (ns # ks) value =
     AList.update ns (PDict (set_path (sub_dict params ns) ks value)) params"
  by (cases ks) auto

lemma val_at_sub_dict:
  "val_at (PDict (sub_dict d k)) (q # qs) = val_at (PDict d) (k # q # qs)"
  by (auto simp: sub_dict_def split: option.splits pyval.splits)

lemma val_at_set_path:
  "ks \<noteq> [] \<Longrightarrow> val_at (PDict (set_path d ks v)) (ks @ qs) = val_at v qs"
proof (induction ks arbitrary: d)
  case (Cons k ks)
  then show ?case by (cases "ks = []") (auto simp: set_path_Cons)
qed simp

lemma val_at_set_path_other:
  "\<not> prefix ks qs \<Longrightarrow> \<not> prefix qs ks \<Longrightarrow>
     val_at (PDict (set_path d ks v)) qs = val_at (PDict d) qs"
proof (induction ks arbitrary: d qs)
  case (Cons k ks)
  then obtain q qs' where qs: "qs = q # qs'" by (cases qs) auto
  show ?case
  proof (cases "q = k \<and> ks \<noteq> []")
    case True
    with Cons.prems qs have "\<not> prefix ks qs'" "\<not> prefix qs' ks" by auto
    moreover from this obtain r rs where "qs' = r # rs" by (cases qs') auto
    ultimately have "val_at (PDict (set_path (sub_dict d k) ks v)) (r # rs) =
        val_at (PDict (sub_dict d k)) (r # rs)"
      using Cons.IH [of qs' "sub_dict d k"] by simp
    with True qs \<open>qs' = r # rs\<close> val_at_sub_dict [of d k r rs] show ?thesis
      by (simp add: set_path_Cons del: val_at.simps(2)) simp
  next
    case False
    with Cons.prems qs show ?thesis
      by (cases "ks = []") (auto simp: set_path_Cons)
  qed
qed simp

lemma val_at_set_path_above:
  "qs \<noteq> [] \<Longrightarrow> is_dict (the (val_at (PDict (set_path d (ps @ qs) v)) ps))
     \<and> val_at (PDict (set_path d (ps @ qs) v)) ps \<noteq> None"
  by (induction ps arbitrary: d) (auto simp: set_path_Cons)

text \<open>What a write leaves at a path on its way, and that writing twice is writing once.\<close>

definition dict_of :: "pyval option \<Rightarrow> params" where
  "dict_of v = (case v of Some (PDict d) \<Rightarrow> d | _ \<Rightarrow> [])"

lemma sub_dict_dict_of: "sub_dict d k = dict_of (val_at (PDict d) [k])"
  by (simp add: sub_dict_def dict_of_def split: option.splits)

lemma dict_of_PDict [simp]: "dict_of (Some (PDict d)) = d"
  by (simp add: dict_of_def)

lemma dict_of_val_at_Nil: "dict_of (val_at (PDict d) []) = d"
  by (simp add: dict_of_def)

lemma dict_of_val_at_sub:
  "dict_of (val_at (PDict (sub_dict d k)) ks) = dict_of (val_at (PDict d) (k # ks))"
  by (cases ks) (simp_all add: sub_dict_def dict_of_def split: option.splits pyval.splits)

lemma val_at_set_path_on_way:
  "qs \<noteq> [] \<Longrightarrow> val_at (PDict (set_path d (ps @ qs) v)) ps =
     Some (PDict (set_path (dict_of (val_at (PDict d) ps)) qs v))"
proof (induction ps arbitrary: d)
  case (Cons k ps)
  have "val_at (PDict (set_path d ((k # ps) @ qs) v)) (k # ps) =
      val_at (PDict (set_path (sub_dict d k) (ps @ qs) v)) ps"
    using Cons.prems by (simp add: set_path_Cons)
  with Cons show ?case by (simp add: dict_of_val_at_sub del: val_at.simps(2))
qed simp

lemma update_update [simp]: "AList.update k x (AList.update k y d) = AList.update k x d"
  by (induction d) auto

lemma set_path_idem: "set_path (set_path d qs v) qs v = set_path d qs v"
proof (induction qs arbitrary: d)
  case (Cons q qs)
  show ?case
  proof (cases "qs = []")
    case False
    have "sub_dict (AList.update q (PDict e) d) q = e" for e by (simp add: sub_dict_def)
    with Cons.IH False show ?thesis by (simp add: set_path_Cons)
  qed simp
qed simp

text \<open>Well-formed values: the keys of a dict are distinct name components.\<close>

fun wf_val :: "pyval \<Rightarrow> bool" where
  "wf_val (PDict d) \<longleftrightarrow>
     distinct (map fst d) \<and> (\<forall>kv\<in>set d. valid_part (fst kv) \<and> wf_val (snd kv))"
| "wf_val _ \<longleftrightarrow> True"

abbreviation wf_params :: "params \<Rightarrow> bool" where
  "wf_params d \<equiv> wf_val (PDict d)"

declare wf_val.simps(1) [simp del]

lemma wf_paramsI:
  "distinct (map fst d) \<Longrightarrow> (\<And>k v. (k, v) \<in> set d \<Longrightarrow> valid_part k \<and> wf_val v) \<Longrightarrow> wf_params d"
  by (auto simp: wf_val.simps(1))

lemma wf_params_Nil [simp]: "wf_params []"
  by (rule wf_paramsI) auto

lemma wf_paramsD:
  "wf_params d \<Longrightarrow> distinct (map fst d)"
  "wf_params d \<Longrightarrow> (k, v) \<in> set d \<Longrightarrow> valid_part k"
  "wf_params d \<Longrightarrow> (k, v) \<in> set d \<Longrightarrow> wf_val v"
  by (fastforce simp: wf_val.simps(1))+

lemma wf_sub_dict: "wf_params d \<Longrightarrow> wf_params (sub_dict d k)"
  by (auto simp: sub_dict_def split: option.splits pyval.splits dest: map_of_SomeD wf_paramsD(3))

lemma wf_update:
  "wf_params d \<Longrightarrow> valid_part k \<Longrightarrow> wf_val v \<Longrightarrow> wf_params (AList.update k v d)"
proof (rule wf_paramsI)
  assume a: "wf_params d" "valid_part k" "wf_val v"
  then show "distinct (map fst (AList.update k v d))"
    by (intro distinct_update) (rule wf_paramsD)
  fix k' v' assume "(k', v') \<in> set (AList.update k v d)"
  then have "(k', v') = (k, v) \<or> (k', v') \<in> set d"
    using set_update_subset by fastforce
  with a show "valid_part k' \<and> wf_val v'" by (auto dest: wf_paramsD)
qed

lemma wf_delete: "wf_params d \<Longrightarrow> wf_params (AList.delete k d)"
proof (rule wf_paramsI)
  assume a: "wf_params d"
  then show "distinct (map fst (AList.delete k d))"
    by (intro distinct_delete) (rule wf_paramsD)
  fix k' v' assume "(k', v') \<in> set (AList.delete k d)"
  then have "(k', v') \<in> set d" using set_delete_subset by fastforce
  with a show "valid_part k' \<and> wf_val v'" by (auto dest: wf_paramsD)
qed

lemma wf_set_path:
  "wf_params d \<Longrightarrow> valid_path ks \<Longrightarrow> wf_val v \<Longrightarrow> wf_params (set_path d ks v)"
  by (induction d ks v rule: set_path.induct) (auto intro: wf_update wf_sub_dict)

lemma wf_val_at: "wf_val v \<Longrightarrow> val_at v ks = Some u \<Longrightarrow> wf_val u"
  by (induction ks arbitrary: v)
    (auto split: pyval.splits option.splits dest: map_of_SomeD wf_paramsD(3))

lemma valid_path_val_at: "wf_val v \<Longrightarrow> val_at v ks = Some u \<Longrightarrow> valid_path ks"
proof (induction ks arbitrary: v)
  case (Cons k ks)
  then obtain d u' where d: "v = PDict d" "map_of d k = Some u'" "val_at u' ks = Some u"
    by (auto split: pyval.splits option.splits)
  then have "(k, u') \<in> set d" by (simp add: map_of_SomeD)
  with Cons d show ?case by (auto dest: wf_paramsD)
qed simp

end
