(* ===== verification/Master_Params.thy ===== *)
theory Master_Params
  imports Values "HOL-Library.Multiset"
begin

text \<open>
  The parameter tree of the master, class \<open>ParamCache\<close> of
  \<open>aioros/master/_param_cache.py\<close>. Its only field \<open>_params\<close> is the root dict, a
  \<^typ>\<open>params\<close>; every method takes it and returns the new one or the exception raised.
  No method changes the tree before it raises.
\<close>

section \<open>Operations\<close>

text \<open>The loop of \<open>__getitem__\<close>; the first argument is the key a \<open>KeyError\<close> reports.\<close>

fun get_path :: "string \<Rightarrow> pyval \<Rightarrow> string list \<Rightarrow> pyval result" where
  "get_path key value [] = Inr value"
| "get_path key (PDict d) (namespace # rest) =
     (case map_of d namespace of
        None \<Rightarrow> Inl (KeyError namespace)
      | Some value \<Rightarrow> get_path key value rest)"
| "get_path key _ (namespace # rest) = Inl (KeyError key)"

definition getitem :: "params \<Rightarrow> string \<Rightarrow> pyval result" where
  "getitem params key = get_path key (PDict params) (split key)"

definition contains :: "params \<Rightarrow> string \<Rightarrow> bool" where
  "contains params key = (case getitem params key of Inl _ \<Rightarrow> False | Inr _ \<Rightarrow> True)"

definition setitem :: "params \<Rightarrow> string \<Rightarrow> pyval \<Rightarrow> params result" where
  "setitem params key value =
     (if key = ''/'' then (case value of PDict d \<Rightarrow> Inr d | _ \<Rightarrow> Inl ValueError)
      else
        let splitted = split key in
        if splitted = [] then Inl IndexError else Inr (set_path params splitted value))"

text \<open>\<open>del value[k]\<close>: the dict that is left, to be put where \<open>value\<close> was.\<close>

definition del_subkey :: "pyval \<Rightarrow> string \<Rightarrow> params result" where
  "del_subkey value k =
     (case value of
        PDict d \<Rightarrow>
          (case map_of d k of
             None \<Rightarrow> Inl (KeyError k)
           | Some _ \<Rightarrow> Inr (AList.delete k d))
      | _ \<Rightarrow> Inl TypeError)"

definition put_dict :: "params \<Rightarrow> string list \<Rightarrow> params \<Rightarrow> params" where
  "put_dict params path d = (if path = [] then d else set_path params path (PDict d))"

definition delitem :: "params \<Rightarrow> string \<Rightarrow> params result" where
  "delitem params key =
     (let splitted = split key in
      if splitted = [] then Inl IndexError
      else
        let namespace = ''/'' @ join_with ''/'' (butlast splitted); subkey = last splitted in
        bind_result (getitem params namespace) (\<lambda>value.
          bind_result (del_subkey value subkey) (\<lambda>d.
            Inr (put_dict params (butlast splitted) d))))"

text \<open>
  \<open>keys\<close>: depth first over a worklist. \<open>extendleft\<close> puts the sorted items of a dict at
  the front one after the other, so they end up there in reverse order.
\<close>

definition sorted_items :: "params \<Rightarrow> (string \<times> pyval) list" where
  "sorted_items d = sort_key fst d"

definition worklist_size :: "(string \<times> pyval) list \<Rightarrow> nat" where
  "worklist_size wl = sum_list (map (\<lambda>kv. Suc (size (snd kv))) wl)"

function keys_loop :: "(string \<times> pyval) list \<Rightarrow> string list" where
  "keys_loop [] = []"
| "keys_loop ((key, value) # worklist) =
     (case value of
        PDict d \<Rightarrow>
          keys_loop (rev (map (\<lambda>(k, v). (key @ ''/'' @ k, v)) (sorted_items d)) @ worklist)
      | _ \<Rightarrow> (''/'' @ key) # keys_loop worklist)"
  by pat_completeness auto

lemma worklist_size_simps [simp]:
  "worklist_size [] = 0"
  "worklist_size (kv # wl) = Suc (size (snd kv)) + worklist_size wl"
  "worklist_size (xs @ ys) = worklist_size xs + worklist_size ys"
  by (simp_all add: worklist_size_def)

lemma worklist_size_mset: "mset xs = mset ys \<Longrightarrow> worklist_size xs = worklist_size ys"
  unfolding worklist_size_def by (simp flip: sum_mset_sum_list)

lemma worklist_size_rename:
  "worklist_size (map (\<lambda>(k, v). (f k, v)) d) = worklist_size d"
  by (induction d) auto

lemma worklist_size_dict:
  "worklist_size (rev (map (\<lambda>(k, v). (f k, v)) (sorted_items d))) < Suc (size (PDict d))"
proof -
  have "worklist_size (rev (map (\<lambda>(k, v). (f k, v)) (sorted_items d))) =
      worklist_size (map (\<lambda>(k, v). (f k, v)) (sorted_items d))"
    by (rule worklist_size_mset) simp
  also have "\<dots> = worklist_size d"
    unfolding worklist_size_rename by (rule worklist_size_mset) (simp add: sorted_items_def)
  also have "\<dots> < Suc (size (PDict d))"
    by (induction d) auto
  finally show ?thesis .
qed

termination keys_loop
  by (relation "measure worklist_size") (use worklist_size_dict in \<open>auto simp: less_SucI\<close>)

definition keys :: "params \<Rightarrow> string list" where
  "keys params = keys_loop (sorted_items params)"

text \<open>
  \<open>search\<close>: \<open>None\<close> of Python is \<^const>\<open>None\<close>. \<open>next\<close> on a key without
  components raises \<open>StopIteration\<close>.
\<close>

fun search_loop :: "params \<Rightarrow> string list \<Rightarrow> string \<Rightarrow> string \<Rightarrow> nat list \<Rightarrow> string option" where
  "search_loop params splitted key key_ns [] = None"
| "search_loop params splitted key key_ns (i # is) =
     (let upto = take (length splitted - i) splitted in
      if contains params (''/'' @ join_with ''/'' (upto @ [key_ns]))
      then Some (''/'' @ join_with ''/'' (upto @ [key]))
      else search_loop params splitted key key_ns is)"

definition search :: "params \<Rightarrow> string \<Rightarrow> string \<Rightarrow> (string option) result" where
  "search params key namespace =
     (if prefix ''/'' key then Inr (if contains params key then Some key else None)
      else
        case split key of
          [] \<Rightarrow> Inl StopIteration
        | key_ns # _ \<Rightarrow>
            Inr (if contains params (namespace @ ''/'' @ key_ns)
                 then Some (namespace @ ''/'' @ key)
                 else
                   let splitted = split namespace in
                   search_loop params splitted key key_ns [1..<length splitted + 1]))"

section \<open>Reading\<close>

lemma get_path_eq_Inr: "get_path key v ks = Inr u \<longleftrightarrow> val_at v ks = Some u"
  by (induction key v ks rule: get_path.induct) (auto split: option.splits)

lemma get_path_eq_Inl: "get_path key v ks = Inl e \<Longrightarrow> \<exists>k. e = KeyError k"
  by (induction key v ks rule: get_path.induct) (auto split: option.splits)

lemma getitem_eq_Inr: "getitem params key = Inr u \<longleftrightarrow> val_at (PDict params) (split key) = Some u"
  by (simp add: getitem_def get_path_eq_Inr)

lemma getitem_eq_Inl: "getitem params key = Inl e \<Longrightarrow> \<exists>k. e = KeyError k"
  unfolding getitem_def by (rule get_path_eq_Inl)

lemma contains_iff: "contains params key \<longleftrightarrow> val_at (PDict params) (split key) \<noteq> None"
  using getitem_eq_Inr [of params key]
  by (cases "getitem params key") (auto simp: contains_def)

lemma contains_getitem: "contains params key \<longleftrightarrow> (\<exists>v. getitem params key = Inr v)"
  by (auto simp: contains_def split: sum.splits)

section \<open>Writing\<close>

lemma setitem_eq_Inr:
  "setitem params key value = Inr params' \<longleftrightarrow>
     (key = ''/'' \<and> value = PDict params') \<or>
     (key \<noteq> ''/'' \<and> split key \<noteq> [] \<and> params' = set_path params (split key) value)"
  by (auto simp: setitem_def Let_def split: pyval.splits)

lemma setitem_eq_Inl:
  "setitem params key value = Inl e \<longleftrightarrow>
     (key = ''/'' \<and> \<not> is_dict value \<and> e = ValueError) \<or>
     (key \<noteq> ''/'' \<and> split key = [] \<and> e = IndexError)"
  by (auto simp: setitem_def Let_def split: pyval.splits)

lemma split_single_slash [simp]: "split ''/'' = []"
  by (simp add: split_def)

lemma setitem_val_at:
  assumes "setitem params key value = Inr params'"
  shows "val_at (PDict params') (split key @ qs) = val_at value qs"
  using assms by (auto simp: setitem_eq_Inr val_at_set_path)

lemma setitem_other:
  assumes "setitem params key value = Inr params'"
    and "\<not> prefix (split key) qs" "\<not> prefix qs (split key)"
  shows "val_at (PDict params') qs = val_at (PDict params) qs"
  using assms by (auto simp: setitem_eq_Inr val_at_set_path_other)

lemma setitem_above:
  assumes "setitem params key value = Inr params'" and "strict_prefix qs (split key)"
  shows "\<exists>d. val_at (PDict params') qs = Some (PDict d)"
proof -
  from assms(2) obtain rs where rs: "split key = qs @ rs" "rs \<noteq> []"
    by (auto simp: strict_prefix_def prefix_def)
  with assms(1) have "params' = set_path params (qs @ rs) value"
    by (auto simp: setitem_eq_Inr)
  with val_at_set_path_above [OF rs(2), of params qs "value"] show ?thesis
    by (auto simp: is_dict_iff)
qed

lemma setitem_wf:
  assumes "setitem params key value = Inr params'" "wf_params params" "wf_val value"
  shows "wf_params params'"
  using assms by (auto simp: setitem_eq_Inr intro: wf_set_path dest: valid_part_in_split)

section \<open>Deleting\<close>

lemma del_subkey_eq_Inr:
  "del_subkey v k = Inr d' \<longleftrightarrow> (\<exists>d. v = PDict d \<and> k \<in> dom (map_of d) \<and> d' = AList.delete k d)"
  by (cases v) (auto simp: del_subkey_def split: option.splits)

lemma del_subkey_eq_TypeError: "del_subkey v k = Inl TypeError \<longleftrightarrow> \<not> is_dict v"
  by (cases v) (auto simp: del_subkey_def split: option.splits)

lemma del_subkey_eq_Inl: "del_subkey v k = Inl e \<Longrightarrow> e = TypeError \<or> e = KeyError k"
  by (cases v) (auto simp: del_subkey_def split: option.splits)

lemma split_parent:
  "split key = ps @ [k] \<Longrightarrow> split (''/'' @ join_with ''/'' ps) = ps"
proof -
  assume "split key = ps @ [k]"
  then have "valid_path ps" using valid_path_split [of key] by simp
  then show ?thesis by (simp add: path_simps)
qed

lemma getitem_parent:
  "split key = ps @ [k] \<Longrightarrow>
     getitem params (''/'' @ join_with ''/'' ps) = Inr u \<longleftrightarrow> val_at (PDict params) ps = Some u"
  using split_parent [of key] by (simp add: getitem_eq_Inr)

lemma delitem_unfold:
  assumes "split key = ps @ [k]"
  shows "delitem params key =
    bind_result (getitem params (''/'' @ join_with ''/'' ps)) (\<lambda>value.
      bind_result (del_subkey value k) (\<lambda>d. Inr (put_dict params ps d)))"
  by (simp add: delitem_def Let_def assms)

lemma delitem_eq_Inr:
  assumes k: "split key = ps @ [k]"
  shows "delitem params key = Inr params' \<longleftrightarrow>
    (\<exists>d. val_at (PDict params) ps = Some (PDict d) \<and> k \<in> dom (map_of d) \<and>
       params' = put_dict params ps (AList.delete k d))"
  unfolding delitem_unfold [OF k] bind_result_eq_Inr getitem_parent [OF k] del_subkey_eq_Inr
  by auto

text \<open>
  Deleting succeeds exactly on the keys the tree contains; a child of a leaf raises
  \<open>TypeError\<close>, every other missing key \<open>KeyError\<close>.
\<close>

lemma split_snoc: "split key \<noteq> [] \<Longrightarrow> \<exists>ps k. split key = ps @ [k]"
  by (cases "split key" rule: rev_cases) auto

lemma delitem_succeeds_iff:
  assumes "split key \<noteq> []"
  shows "(\<exists>params'. delitem params key = Inr params') \<longleftrightarrow> contains params key"
proof -
  obtain ps k where k: "split key = ps @ [k]"
    using split_snoc [OF assms] by blast
  show ?thesis
    unfolding delitem_eq_Inr [OF k] contains_iff k val_at_append
    by (cases "val_at (PDict params) ps") (auto split: pyval.splits option.splits)
qed

lemma delitem_TypeError_iff:
  assumes k: "split key = ps @ [k]"
  shows "delitem params key = Inl TypeError \<longleftrightarrow>
    (\<exists>v. val_at (PDict params) ps = Some v \<and> \<not> is_dict v)"
proof -
  have "getitem params q \<noteq> Inl TypeError" for q
    using getitem_eq_Inl [of params q TypeError] by auto
  then show ?thesis
    unfolding delitem_unfold [OF k] bind_result_eq_Inl getitem_parent [OF k]
      del_subkey_eq_TypeError by auto
qed

lemma delitem_eq_Inl:
  assumes "delitem params key = Inl e" "split key \<noteq> []"
  shows "e = TypeError \<or> (\<exists>k. e = KeyError k)"
proof -
  obtain ps k where k: "split key = ps @ [k]"
    using split_snoc [OF assms(2)] by blast
  from assms(1) show ?thesis
    unfolding delitem_unfold [OF k] bind_result_eq_Inl
    by (auto dest: getitem_eq_Inl del_subkey_eq_Inl)
qed

lemma val_at_put_dict: "val_at (PDict (put_dict params ps d)) (ps @ qs) = val_at (PDict d) qs"
  by (simp add: put_dict_def val_at_set_path)

lemma val_at_put_dict_other:
  "\<not> prefix ps qs \<Longrightarrow> \<not> prefix qs ps \<Longrightarrow>
     val_at (PDict (put_dict params ps d)) qs = val_at (PDict params) qs"
  by (cases "ps = []") (simp_all add: put_dict_def val_at_set_path_other)

lemma delitem_val_at:
  assumes "delitem params key = Inr params'"
  shows "val_at (PDict params') (split key @ qs) = None"
    and "\<not> prefix (split key) others \<Longrightarrow> \<not> prefix others (split key) \<Longrightarrow>
      val_at (PDict params') others = val_at (PDict params) others"
proof -
  have "split key \<noteq> []" using assms by (auto simp: delitem_def)
  then obtain ps k where k: "split key = ps @ [k]"
    using split_snoc by blast
  from assms obtain d where d: "val_at (PDict params) ps = Some (PDict d)"
    and p': "params' = put_dict params ps (AList.delete k d)"
    unfolding delitem_eq_Inr [OF k] by blast
  from val_at_put_dict [of params ps _ "k # qs"]
  show "val_at (PDict params') (split key @ qs) = None"
    by (simp add: k p')
  assume others: "\<not> prefix (split key) others" "\<not> prefix others (split key)"
  show "val_at (PDict params') others = val_at (PDict params) others"
  proof (cases "prefix ps others")
    case True
    then obtain rs where rs: "others = ps @ rs" by (auto simp: prefix_def)
    with others k obtain r rs' where "rs = r # rs'" "r \<noteq> k" by (cases rs) auto
    with val_at_put_dict [of params ps _ rs] rs d p' show ?thesis by (simp add: val_at_append)
  next
    case False
    moreover have "\<not> prefix others ps" using others(2) k by (auto intro: prefix_prefix)
    ultimately show ?thesis using p' by (simp add: val_at_put_dict_other)
  qed
qed

lemma delitem_wf:
  assumes "delitem params key = Inr params'" "wf_params params"
  shows "wf_params params'"
proof -
  have "split key \<noteq> []" using assms by (auto simp: delitem_def)
  then obtain ps k where k: "split key = ps @ [k]"
    using split_snoc by blast
  have "valid_path ps" using valid_path_split [of key] by (auto simp: k)
  with assms show ?thesis
    unfolding delitem_eq_Inr [OF k]
    by (auto simp: put_dict_def intro!: wf_delete wf_set_path dest: wf_val_at)
qed

section \<open>Listing\<close>

text \<open>
  The reference listing: all paths to values that are not dicts, in dict order. The worklist
  lists the same names, in another order.
\<close>

fun leaves :: "pyval \<Rightarrow> string list list" where
  "leaves (PDict d) = concat (map (\<lambda>kv. map ((#) (fst kv)) (leaves (snd kv))) d)"
| "leaves _ = [[]]"

lemma leaves_not_dict [simp]: "\<not> is_dict v \<Longrightarrow> leaves v = [[]]"
  by (cases v) auto

lemma val_at_not_dict: "\<not> is_dict v \<Longrightarrow> val_at v qs = (if qs = [] then Some v else None)"
  by (cases qs; cases v) auto

lemma set_leaves:
  "wf_val v \<Longrightarrow> qs \<in> set (leaves v) \<longleftrightarrow> (\<exists>u. val_at v qs = Some u \<and> \<not> is_dict u)"
proof (induction v arbitrary: qs rule: leaves.induct)
  case (1 d)
  show ?case
  proof (cases qs)
    case (Cons q qs')
    have "qs \<in> set (leaves (PDict d)) \<longleftrightarrow> (\<exists>v. (q, v) \<in> set d \<and> qs' \<in> set (leaves v))"
      using Cons by force
    also have "\<dots> \<longleftrightarrow> (\<exists>v u. map_of d q = Some v \<and> val_at v qs' = Some u \<and> \<not> is_dict u)"
      using "1.IH" wf_paramsD [OF "1.prems"] by fastforce
    finally show ?thesis using Cons by (auto split: option.splits)
  qed auto
qed (simp_all add: val_at_not_dict split: if_splits)

lemma distinct_leaves: "wf_val v \<Longrightarrow> distinct (leaves v)"
proof (induction v rule: leaves.induct)
  case (1 d)
  have IH: "distinct (leaves v)" if "(k, v) \<in> set d" for k v
    using "1.IH" [of "(k, v)"] wf_paramsD(3) [OF "1.prems"] that by simp
  have "distinct (map fst d)" by (rule wf_paramsD(1) [OF "1.prems"])
  then show ?case using IH
  proof (induction d)
    case (Cons kv d)
    then show ?case
      by (cases kv) (force simp: distinct_map)
  qed simp
qed simp_all

definition leaf_names :: "string \<times> pyval \<Rightarrow> string list" where
  "leaf_names kv = map (\<lambda>qs. ''/'' @ fst kv @ abs_path qs) (leaves (snd kv))"

lemma mset_concat_map_cong:
  "mset xs = mset ys \<Longrightarrow> mset (concat (map f xs)) = mset (concat (map f ys))"
  by (simp add: mset_concat flip: sum_mset_sum_list)

lemma leaf_names_dict:
  "concat (map (\<lambda>kv. leaf_names (key @ ''/'' @ fst kv, snd kv)) d) = leaf_names (key, PDict d)"
  by (induction d) (auto simp: leaf_names_def)

lemma mset_keys_loop: "mset (keys_loop wl) = mset (concat (map leaf_names wl))"
proof (induction wl rule: keys_loop.induct)
  case (2 key "value" wl)
  show ?case
  proof (cases "is_dict value")
    case True
    then obtain d where d: "value = PDict d" by (auto simp: is_dict_iff)
    let ?f = "\<lambda>(k, v). (key @ ''/'' @ k, v)"
    have "mset (concat (map leaf_names (rev (map ?f (sorted_items d))))) =
        mset (concat (map leaf_names (map ?f d)))"
      by (rule mset_concat_map_cong) (simp add: sorted_items_def)
    also have "map leaf_names (map ?f d) = map (\<lambda>kv. leaf_names (key @ ''/'' @ fst kv, snd kv)) d"
      by (simp add: case_prod_unfold)
    finally have "mset (concat (map leaf_names (rev (map ?f (sorted_items d))))) =
        mset (leaf_names (key, PDict d))"
      by (simp only: leaf_names_dict)
    then show ?thesis using "2.IH" d by simp
  next
    case False
    then have "keys_loop ((key, value) # wl) = (''/'' @ key) # keys_loop wl"
      and "leaf_names (key, value) = [''/'' @ key]"
      by (cases "value"; simp add: leaf_names_def)+
    moreover have "mset (keys_loop wl) = mset (concat (map leaf_names wl))"
      using "2.IH" False by (cases "value") auto
    ultimately show ?thesis by simp
  qed
qed simp

lemma mset_keys: "mset (keys params) = mset (map abs_path (leaves (PDict params)))"
proof -
  have "mset (keys params) = mset (concat (map leaf_names params))"
    unfolding keys_def mset_keys_loop
    by (rule mset_concat_map_cong) (simp add: sorted_items_def)
  also have "concat (map leaf_names params) = map abs_path (leaves (PDict params))"
    by (induction params) (auto simp: leaf_names_def)
  finally show ?thesis .
qed

lemma inj_abs_path: "inj_on abs_path {ps. valid_path ps}"
  by (rule inj_on_inverseI [where g = split]) (simp add: split_abs_path)

lemma valid_path_leaves: "wf_val v \<Longrightarrow> qs \<in> set (leaves v) \<Longrightarrow> valid_path qs"
  using set_leaves valid_path_val_at by blast

lemma distinct_keys:
  assumes "wf_params params" shows "distinct (keys params)"
proof -
  have "inj_on abs_path (set (leaves (PDict params)))"
    by (rule inj_on_subset [OF inj_abs_path]) (use valid_path_leaves assms in blast)
  then have "distinct (map abs_path (leaves (PDict params)))"
    using distinct_leaves [OF assms] by (simp add: distinct_map)
  then show ?thesis by (rule iffD2 [OF mset_eq_imp_distinct_iff [OF mset_keys]])
qed

lemma set_keys:
  assumes "wf_params params"
  shows "key \<in> set (keys params) \<longleftrightarrow>
    canonical key \<and> (\<exists>v. getitem params key = Inr v \<and> \<not> is_dict v)"
proof -
  have mem: "key \<in> set (keys params) \<longleftrightarrow> (\<exists>qs\<in>set (leaves (PDict params)). key = abs_path qs)"
    using mset_eq_setD [OF mset_keys [of params]] by (auto simp del: leaves.simps)
  show ?thesis
  proof
    assume "key \<in> set (keys params)"
    then obtain qs v where q: "key = abs_path qs" "val_at (PDict params) qs = Some v" "\<not> is_dict v"
      using mem set_leaves [OF assms] by blast
    moreover from q have "qs \<noteq> []" by auto
    moreover have "valid_path qs" by (rule valid_path_val_at [OF assms q(2)])
    ultimately show "canonical key \<and> (\<exists>v. getitem params key = Inr v \<and> \<not> is_dict v)"
      by (simp add: getitem_eq_Inr split_abs_path canonical_abs_path)
  next
    assume c: "canonical key \<and> (\<exists>v. getitem params key = Inr v \<and> \<not> is_dict v)"
    then obtain v where v: "val_at (PDict params) (split key) = Some v" "\<not> is_dict v"
      by (auto simp: getitem_eq_Inr)
    then have "split key \<noteq> []" by auto
    with c have "key = abs_path (split key)" by (simp add: canonical_eq_abs_path)
    moreover have "split key \<in> set (leaves (PDict params))"
      using set_leaves [OF assms] v by blast
    ultimately show "key \<in> set (keys params)" using mem by blast
  qed
qed

section \<open>Searching\<close>

lemma search_loop_find:
  "search_loop params ns key k is =
     map_option (\<lambda>i. ''/'' @ join_with ''/'' (take (length ns - i) ns @ [key]))
       (find (\<lambda>i. contains params (''/'' @ join_with ''/'' (take (length ns - i) ns @ [k]))) is)"
  by (induction "is") (auto simp: Let_def)

lemma valid_path_take: "valid_path ns \<Longrightarrow> valid_path (take n ns)"
  by (auto dest: in_set_takeD)

lemma contains_candidate:
  "valid_path ns \<Longrightarrow> valid_part k \<Longrightarrow>
     contains params (slash # join_with ''/'' (take n ns @ [k])) \<longleftrightarrow>
     val_at (PDict params) (take n ns @ [k]) \<noteq> None"
  using split_join_with [of "take n ns @ [k]"] valid_path_take [of ns n]
  by (auto simp: contains_iff)

text \<open>
  What \<open>search\<close> returns: the key placed in the nearest enclosing namespace that holds its
  first component, \<open>None\<close> when no namespace does.
\<close>

definition holds_at :: "params \<Rightarrow> string list \<Rightarrow> string \<Rightarrow> nat \<Rightarrow> bool" where
  "holds_at params ns k n \<longleftrightarrow> val_at (PDict params) (take n ns @ [k]) \<noteq> None"

lemma search_relative_None:
  assumes "\<not> prefix ''/'' key" "split key = k # ks" "search params key namespace = Inr None"
  shows "\<forall>n\<le>length (split namespace). \<not> holds_at params (split namespace) k n"
proof (intro allI impI notI)
  let ?ns = "split namespace"
  have v: "valid_path ?ns" "valid_part k"
    using valid_path_split [of namespace] valid_path_split [of key] assms(2) by auto
  fix n assume n: "n \<le> length ?ns" "holds_at params ?ns k n"
  from assms have no: "\<not> contains params (namespace @ ''/'' @ k)"
    and loop: "search_loop params ?ns key k [1..<length ?ns + 1] = None"
    by (auto simp: search_def Let_def split: if_splits)
  from no v have "n \<noteq> length ?ns" using n
    by (auto simp: contains_iff holds_at_def split_slash_append)
  with n have i: "1 \<le> length ?ns - n" "length ?ns - n < length ?ns + 1" by auto
  have "\<forall>j. 1 \<le> j \<and> j < length ?ns + 1 \<longrightarrow> \<not> holds_at params ?ns k (length ?ns - j)"
    using loop v
    by (simp add: search_loop_find find_upt_None contains_candidate holds_at_def del: upt_Suc)
  with i have "\<not> holds_at params ?ns k (length ?ns - (length ?ns - n))" by blast
  with n show False by simp
qed

lemma search_relative_Some:
  assumes "\<not> prefix ''/'' key" "split key = k # ks" "search params key namespace = Inr (Some found)"
  shows "\<exists>n\<le>length (split namespace).
    split found = take n (split namespace) @ split key \<and>
    holds_at params (split namespace) k n \<and>
    (\<forall>m. n < m \<and> m \<le> length (split namespace) \<longrightarrow> \<not> holds_at params (split namespace) k m)"
proof -
  let ?ns = "split namespace"
  have v: "valid_path ?ns" "valid_part k"
    using valid_path_split [of namespace] valid_path_split [of key] assms(2) by auto
  have full: "contains params (namespace @ ''/'' @ k) \<longleftrightarrow> holds_at params ?ns k (length ?ns)"
    using v by (simp add: contains_iff holds_at_def split_slash_append)
  show ?thesis
  proof (cases "holds_at params ?ns k (length ?ns)")
    case True
    with assms full have "found = namespace @ ''/'' @ key" by (auto simp: search_def)
    with True show ?thesis by (intro exI [of _ "length ?ns"]) (auto simp: split_slash_append)
  next
    case False
    with assms full obtain i where
      i: "find (\<lambda>i. contains params (''/'' @ join_with ''/'' (take (length ?ns - i) ?ns @ [k])))
            [1..<length ?ns + 1] = Some i"
      and found: "found = ''/'' @ join_with ''/'' (take (length ?ns - i) ?ns @ [key])"
      by (auto simp: search_def Let_def search_loop_find simp del: upt_Suc)
    from find_upt_Some [OF i] v have range: "1 \<le> i" "i \<le> length ?ns"
      and hit: "holds_at params ?ns k (length ?ns - i)"
      and miss: "\<And>j. 1 \<le> j \<Longrightarrow> j < i \<Longrightarrow> \<not> holds_at params ?ns k (length ?ns - j)"
      by (auto simp: contains_candidate holds_at_def)
    let ?n = "length ?ns - i"
    have "\<not> holds_at params ?ns k m" if "?n < m" "m \<le> length ?ns" for m
      using miss [of "length ?ns - m"] that False by (cases "m = length ?ns") auto
    moreover have "split found = take ?n ?ns @ split key"
      using concat_map_split_valid [OF valid_path_take [OF v(1), of ?n]]
      by (simp only: found append_Cons append_Nil split_slash_Cons split_join_with_concat
          map_append list.map concat_append concat.simps append_Nil2)
    moreover have "?n \<le> length ?ns" by simp
    ultimately show ?thesis using hit by blast
  qed
qed

end
