(* ===== verification/Master_Registry.thy ===== *)
theory Master_Registry
  imports Values
begin

text \<open>
  The registry of the master, \<open>aioros/master/_registry.py\<close>: who provides which service,
  publishes or subscribes which topic and follows which parameter, and the queue of calls the
  master still has to make to each node.

  A \<open>Node\<close> object is reachable from \<open>Registry.nodes\<close> and from its own \<open>serve\<close>
  task only. Its memory stream is the list of queued \<^emph>\<open>tasks\<close>. A node dropped from
  \<open>nodes\<close> is kept in \<open>retired\<close>, for its \<open>serve\<close> task goes on until the stream is
  closed and empty. A queued value is the one at the time of queueing.
\<close>

section \<open>State\<close>

record registration =
  caller_id :: string
  reg_api :: string

datatype task =
    PublisherUpdate string "string list"
  | ParamUpdate string pyval
  | Shutdown string

record mnode =
  node_api :: string
  node_services :: "string list"
  node_publications :: "string list"
  node_subscriptions :: "string list"
  node_param_subscriptions :: "string list"
  node_outbox :: "task list"
  node_closed :: bool

definition new_node :: "string \<Rightarrow> mnode" where
  "new_node caller_api =
     \<lparr>node_api = caller_api, node_services = [], node_publications = [], node_subscriptions = [],
      node_param_subscriptions = [], node_outbox = [], node_closed = False\<rparr>"

definition has_any_registration :: "mnode \<Rightarrow> bool" where
  "has_any_registration n \<longleftrightarrow>
     node_services n \<noteq> [] \<or> node_publications n \<noteq> [] \<or> node_subscriptions n \<noteq> [] \<or>
     node_param_subscriptions n \<noteq> []"

definition send_task :: "task \<Rightarrow> mnode \<Rightarrow> mnode" where
  "send_task t n = n\<lparr>node_outbox := node_outbox n @ [t]\<rparr>"

definition node_publisher_update :: "string \<Rightarrow> string list \<Rightarrow> mnode \<Rightarrow> mnode" where
  "node_publisher_update topic publishers = send_task (PublisherUpdate topic publishers)"

definition node_param_update :: "string \<Rightarrow> pyval \<Rightarrow> mnode \<Rightarrow> mnode" where
  "node_param_update key value = send_task (ParamUpdate key value)"

definition node_shutdown :: "string \<Rightarrow> mnode \<Rightarrow> mnode" where
  "node_shutdown msg = send_task (Shutdown msg)"

text \<open>
  \<open>Node.serve\<close>: the queued calls in order, each with the outcome of its remote call. A
  connection timeout is ignored, every other exception ends the task. The result is the calls
  that were made and how the loop ended.
\<close>

datatype call_outcome = CallReturned | CallConnectTimeout | CallRaised py_error

fun serve :: "call_outcome list \<Rightarrow> task list \<Rightarrow> task list \<times> unit result" where
  "serve (outcome # outcomes) (t # ts) =
     (case outcome of
        CallRaised e \<Rightarrow> ([t], Inl e)
      | _ \<Rightarrow> (let (called, end) = serve outcomes ts in (t # called, end)))"
| "serve _ _ = ([], Inr ())"

record registry =
  services :: "(string \<times> registration) list"
  publications :: "(string \<times> registration list) list"
  subscriptions :: "(string \<times> registration list) list"
  param_subscribers :: "(string \<times> registration list) list"
  topic_types :: "(string \<times> string) list"
  nodes :: "string \<Rightarrow> mnode option"
  retired :: "mnode list"

definition empty_registry :: registry where
  "empty_registry =
     \<lparr>services = [], publications = [], subscriptions = [], param_subscribers = [],
      topic_types = [], nodes = Map.empty, retired = []\<rparr>"

text \<open>\<open>if node := self.nodes.get(caller_id): f(node)\<close>\<close>

definition modify_node :: "string \<Rightarrow> (mnode \<Rightarrow> mnode) \<Rightarrow> registry \<Rightarrow> registry" where
  "modify_node c f r =
     (case nodes r c of None \<Rightarrow> r | Some n \<Rightarrow> r\<lparr>nodes := (nodes r)(c \<mapsto> f n)\<rparr>)"

section \<open>Notification of subscribers\<close>

definition update_subscribers :: "string \<Rightarrow> registry \<Rightarrow> registry" where
  "update_subscribers topic r =
     (let publishers = map reg_api (members_at (publications r) topic) in
      fold (\<lambda>reg. modify_node (caller_id reg) (node_publisher_update topic publishers))
        (members_at (subscriptions r) topic) r)"

section \<open>Nodes\<close>

text \<open>\<open>_unregister_all\<close>: one registration of the publication loop, then the whole.\<close>

definition drop_publisher :: "string \<Rightarrow> string \<Rightarrow> registration \<Rightarrow> registry \<Rightarrow> registry" where
  "drop_publisher c topic reg r =
     (if caller_id reg = c then
        update_subscribers topic
          (r\<lparr>publications :=
               AList.update topic (set_discard reg (members_at (publications r) topic))
                 (publications r)\<rparr>)
      else r)"

definition unregister_all :: "string \<Rightarrow> registry \<Rightarrow> registry" where
  "unregister_all c r =
     (let r1 = r\<lparr>services := filter (\<lambda>(service, reg). caller_id reg \<noteq> c) (services r)\<rparr>;
          r2 = fold (\<lambda>(topic, registrations). fold (drop_publisher c topic) registrations)
                 (publications r1) r1
      in r2\<lparr>subscriptions :=
              map (\<lambda>(topic, registrations). (topic, filter (\<lambda>reg. caller_id reg \<noteq> c) registrations))
                (subscriptions r2)\<rparr>)"

definition fresh_node :: "string \<Rightarrow> string \<Rightarrow> registry \<Rightarrow> registry" where
  "fresh_node c caller_api r = r\<lparr>nodes := (nodes r)(c \<mapsto> new_node caller_api)\<rparr>"

definition register_node :: "string \<Rightarrow> string \<Rightarrow> registry \<Rightarrow> registry" where
  "register_node c caller_api r =
     (case nodes r c of
        Some n \<Rightarrow>
          if node_api n = caller_api then r
          else
            let r1 = modify_node c (node_shutdown ''new node registered with same name'') r;
                r2 = unregister_all c r1
            in fresh_node c caller_api
                 (r2\<lparr>retired := retired r2 @ (case nodes r2 c of None \<Rightarrow> [] | Some old \<Rightarrow> [old])\<rparr>)
      | None \<Rightarrow> fresh_node c caller_api r)"

definition check_node :: "string \<Rightarrow> registry \<Rightarrow> registry" where
  "check_node c r =
     (case nodes r c of
        Some n \<Rightarrow>
          if has_any_registration n then r
          else r\<lparr>nodes := (nodes r)(c := None), retired := retired r @ [n\<lparr>node_closed := True\<rparr>]\<rparr>
      | None \<Rightarrow> r)"

definition register_topic :: "string \<Rightarrow> string \<Rightarrow> registry \<Rightarrow> registry" where
  "register_topic topic topic_type r =
     (if topic_type \<noteq> ''*'' \<and> topic \<notin> dom (map_of (topic_types r))
      then r\<lparr>topic_types := AList.update topic topic_type (topic_types r)\<rparr> else r)"

definition check_topic :: "string \<Rightarrow> registry \<Rightarrow> registry" where
  "check_topic topic r =
     (if topic \<notin> dom (map_of (publications r)) \<and> topic \<notin> dom (map_of (subscriptions r))
      then r\<lparr>topic_types := AList.delete topic (topic_types r)\<rparr> else r)"

section \<open>Services, subscribers, publishers\<close>

definition register_service :: "string \<Rightarrow> string \<Rightarrow> string \<Rightarrow> string \<Rightarrow> registry \<Rightarrow> registry" where
  "register_service name c caller_api service_api r =
     (let r1 = register_node c caller_api r;
          r2 = modify_node c (\<lambda>n. n\<lparr>node_services := set_add name (node_services n)\<rparr>) r1
      in r2\<lparr>services := AList.update name \<lparr>caller_id = c, reg_api = service_api\<rparr> (services r2)\<rparr>)"

definition unregister_service :: "string \<Rightarrow> string \<Rightarrow> registry \<Rightarrow> registry" where
  "unregister_service service c r =
     check_node c
       (modify_node c (\<lambda>n. n\<lparr>node_services := set_discard service (node_services n)\<rparr>)
         (r\<lparr>services := AList.delete service (services r)\<rparr>))"

text \<open>\<open>d[k].add(x)\<close> on a \<open>defaultdict(set)\<close>, and removal that drops an emptied entry.\<close>

definition add_member :: "'k \<Rightarrow> 'a \<Rightarrow> ('k \<times> 'a list) list \<Rightarrow> ('k \<times> 'a list) list" where
  "add_member k x d = AList.update k (set_add x (members_at d k)) d"

definition discard_member :: "'k \<Rightarrow> 'a \<Rightarrow> ('k \<times> 'a list) list \<Rightarrow> ('k \<times> 'a list) list" where
  "discard_member k x d =
     (case map_of d k of
        None \<Rightarrow> d
      | Some xs \<Rightarrow>
          if set_discard x xs = [] then AList.delete k d else AList.update k (set_discard x xs) d)"

definition register_subscriber :: "string \<Rightarrow> string \<Rightarrow> string \<Rightarrow> string \<Rightarrow> registry \<Rightarrow> registry" where
  "register_subscriber topic topic_type c caller_api r =
     (let r1 = register_node c caller_api (register_topic topic topic_type r);
          r2 = modify_node c (\<lambda>n. n\<lparr>node_subscriptions := set_add topic (node_subscriptions n)\<rparr>) r1
      in r2\<lparr>subscriptions :=
              add_member topic \<lparr>caller_id = c, reg_api = caller_api\<rparr> (subscriptions r2)\<rparr>)"

definition unregister_subscriber :: "string \<Rightarrow> string \<Rightarrow> string \<Rightarrow> registry \<Rightarrow> registry" where
  "unregister_subscriber topic c caller_api r =
     check_topic topic
       (check_node c
         (modify_node c (\<lambda>n. n\<lparr>node_subscriptions := set_discard topic (node_subscriptions n)\<rparr>)
           (r\<lparr>subscriptions :=
                discard_member topic \<lparr>caller_id = c, reg_api = caller_api\<rparr> (subscriptions r)\<rparr>)))"

definition register_publisher :: "string \<Rightarrow> string \<Rightarrow> string \<Rightarrow> string \<Rightarrow> registry \<Rightarrow> registry" where
  "register_publisher topic topic_type c caller_api r =
     (let r1 = register_node c caller_api (register_topic topic topic_type r);
          r2 = modify_node c (\<lambda>n. n\<lparr>node_publications := set_add topic (node_publications n)\<rparr>) r1
      in update_subscribers topic
           (r2\<lparr>publications :=
                add_member topic \<lparr>caller_id = c, reg_api = caller_api\<rparr> (publications r2)\<rparr>))"

definition unregister_publisher :: "string \<Rightarrow> string \<Rightarrow> string \<Rightarrow> registry \<Rightarrow> registry" where
  "unregister_publisher topic c caller_api r =
     update_subscribers topic
       (check_topic topic
         (check_node c
           (modify_node c (\<lambda>n. n\<lparr>node_publications := set_discard topic (node_publications n)\<rparr>)
             (r\<lparr>publications :=
                  discard_member topic \<lparr>caller_id = c, reg_api = caller_api\<rparr> (publications r)\<rparr>))))"

section \<open>Parameters\<close>

definition register_param_subscriber ::
    "string \<Rightarrow> string \<Rightarrow> string \<Rightarrow> registry \<Rightarrow> (unit, registry) outcome" where
  "register_param_subscriber key c caller_api r =
     (case normalize_namespace (join [key]) of
        Inl e \<Rightarrow> (Inl e, r)
      | Inr key' \<Rightarrow>
          let r1 = register_node c caller_api r;
              r2 = modify_node c
                (\<lambda>n. n\<lparr>node_param_subscriptions := set_add key' (node_param_subscriptions n)\<rparr>) r1
          in (Inr (), r2\<lparr>param_subscribers :=
                add_member key' \<lparr>caller_id = c, reg_api = caller_api\<rparr> (param_subscribers r2)\<rparr>))"

definition unregister_param_subscriber ::
    "string \<Rightarrow> string \<Rightarrow> string \<Rightarrow> registry \<Rightarrow> (unit, registry) outcome" where
  "unregister_param_subscriber key c caller_api r =
     (case normalize_namespace (join [key]) of
        Inl e \<Rightarrow> (Inl e, r)
      | Inr key' \<Rightarrow>
          (Inr (),
           check_node c
             (modify_node c
               (\<lambda>n. n\<lparr>node_param_subscriptions := set_discard key' (node_param_subscriptions n)\<rparr>)
               (r\<lparr>param_subscribers :=
                    discard_member key' \<lparr>caller_id = c, reg_api = caller_api\<rparr>
                      (param_subscribers r)\<rparr>))))"

text \<open>\<open>compute_all_keys\<close>: the normalised keys of everything below a dict.\<close>

fun compute_all_keys :: "string \<Rightarrow> params \<Rightarrow> string list" where
  "compute_all_keys key [] = []"
| "compute_all_keys key ((k, v) # rest) =
     (let key' = key @ k @ ''/'' in
      key' # (case v of PDict d \<Rightarrow> compute_all_keys key' d | _ \<Rightarrow> []) @ compute_all_keys key rest)"

text \<open>\<open>param_dict = param_dict[ns]\<close> along a path.\<close>

fun index_path :: "pyval \<Rightarrow> string list \<Rightarrow> pyval result" where
  "index_path v [] = Inr v"
| "index_path (PDict d) (ns # path) =
     (case map_of d ns of None \<Rightarrow> Inl (KeyError ns) | Some v \<Rightarrow> index_path v path)"
| "index_path _ (ns # path) = Inl TypeError"

text \<open>\<open>self.nodes[registration.caller_id].param_update(key, value)\<close>\<close>

definition send_param_update ::
    "string \<Rightarrow> pyval \<Rightarrow> registration \<Rightarrow> registry \<Rightarrow> (unit, registry) outcome" where
  "send_param_update key value reg r =
     (case nodes r (caller_id reg) of
        None \<Rightarrow> (Inl (KeyError (caller_id reg)), r)
      | Some n \<Rightarrow> (Inr (), modify_node (caller_id reg) (node_param_update key value) r))"

text \<open>
  The two loops of \<open>on_param_update\<close>. The first is over the subscribed keys: a subscriber of
  the updated key or of a namespace around it gets the update itself; one of a key below it that
  the new dict does not have gets an empty dict.
\<close>

definition related_update ::
    "string \<Rightarrow> pyval \<Rightarrow> string list option \<Rightarrow> string \<Rightarrow> (string \<times> pyval) option" where
  "related_update param_key param_value all_keys key =
     (if prefix key param_key then Some (param_key, param_value)
      else if (case all_keys of None \<Rightarrow> False
               | Some ks \<Rightarrow> prefix param_key key \<and> key \<notin> set ks)
      then Some (key, PDict [])
      else None)"

definition notify_related ::
    "string \<Rightarrow> pyval \<Rightarrow> string list option \<Rightarrow> string \<Rightarrow> string \<times> registration list
       \<Rightarrow> registry \<Rightarrow> (unit, registry) outcome" where
  "notify_related param_key param_value all_keys ignore entry r =
     (case related_update param_key param_value all_keys (fst entry) of
        None \<Rightarrow> (Inr (), r)
      | Some (key, value) \<Rightarrow>
          for_each (send_param_update (butlast key) value)
            (filter (\<lambda>reg. caller_id reg \<noteq> ignore) (snd entry)) r)"

text \<open>The second is over the keys of the new dict that are subscribed.\<close>

definition notify_below ::
    "string \<Rightarrow> pyval \<Rightarrow> string \<Rightarrow> registry \<Rightarrow> (unit, registry) outcome" where
  "notify_below param_key param_value key r =
     (case map_of (param_subscribers r) key of
        None \<Rightarrow> (Inr (), r)
      | Some regs \<Rightarrow>
          (case index_path param_value (split (drop (length param_key) key)) of
             Inl e \<Rightarrow> (Inl e, r)
           | Inr value \<Rightarrow> for_each (send_param_update (butlast key) value) regs r))"

definition all_keys_of :: "string \<Rightarrow> pyval \<Rightarrow> string list option" where
  "all_keys_of param_key param_value =
     (case param_value of
        PDict d \<Rightarrow> Some (remdups (compute_all_keys param_key d))
      | _ \<Rightarrow> None)"

definition on_param_update ::
    "string \<Rightarrow> pyval \<Rightarrow> string \<Rightarrow> registry \<Rightarrow> (unit, registry) outcome" where
  "on_param_update param_key param_value caller_id_to_ignore r =
     (if param_subscribers r = [] then (Inr (), r)
      else
        case normalize_namespace (join [param_key]) of
          Inl e \<Rightarrow> (Inl e, r)
        | Inr param_key' \<Rightarrow>
            let all_keys = all_keys_of param_key' param_value in
            bind_outcome
              (for_each (notify_related param_key' param_value all_keys caller_id_to_ignore)
                (param_subscribers r) r)
              (\<lambda>_ r'.
                case all_keys of
                  None \<Rightarrow> (Inr (), r')
                | Some keys \<Rightarrow> for_each (notify_below param_key' param_value) keys r'))"

section \<open>Queued calls as deliveries\<close>

text \<open>
  Everything the registry sends goes to the queues of the nodes in \<open>nodes\<close>:
  \<open>deliver f\<close> appends the calls \<open>f c\<close> to the queue of each node \<open>c\<close>. Every
  notification is a delivery, and deliveries compose.
\<close>

definition extend_outbox :: "task list \<Rightarrow> mnode \<Rightarrow> mnode" where
  "extend_outbox ts n = n\<lparr>node_outbox := node_outbox n @ ts\<rparr>"

definition deliver :: "(string \<Rightarrow> task list) \<Rightarrow> registry \<Rightarrow> registry" where
  "deliver f r = r\<lparr>nodes := (\<lambda>c. map_option (extend_outbox (f c)) (nodes r c))\<rparr>"

named_theorems registry_simps "how registry operations act on the fields of a registry"

lemma extend_outbox_sel [registry_simps]:
  "node_api (extend_outbox ts n) = node_api n"
  "node_services (extend_outbox ts n) = node_services n"
  "node_publications (extend_outbox ts n) = node_publications n"
  "node_subscriptions (extend_outbox ts n) = node_subscriptions n"
  "node_param_subscriptions (extend_outbox ts n) = node_param_subscriptions n"
  "node_closed (extend_outbox ts n) = node_closed n"
  "node_outbox (extend_outbox ts n) = node_outbox n @ ts"
  by (simp_all add: extend_outbox_def)

lemma extend_outbox_Nil [simp]: "extend_outbox [] n = n"
  by (simp add: extend_outbox_def)

lemma map_option_extend_Nil [simp]: "map_option (extend_outbox []) x = x"
  by (cases x) auto

lemma extend_outbox_append: "extend_outbox ts (extend_outbox us n) = extend_outbox (us @ ts) n"
  by (simp add: extend_outbox_def)

lemma has_any_extend_outbox [registry_simps]:
  "has_any_registration (extend_outbox ts n) = has_any_registration n"
  by (simp add: has_any_registration_def registry_simps)

lemma deliver_sel [registry_simps]:
  "services (deliver f r) = services r"
  "publications (deliver f r) = publications r"
  "subscriptions (deliver f r) = subscriptions r"
  "param_subscribers (deliver f r) = param_subscribers r"
  "topic_types (deliver f r) = topic_types r"
  "retired (deliver f r) = retired r"
  "nodes (deliver f r) c = map_option (extend_outbox (f c)) (nodes r c)"
  by (simp_all add: deliver_def)

lemma dom_deliver [registry_simps]: "dom (nodes (deliver f r)) = dom (nodes r)"
  by (auto simp: registry_simps)

lemma deliver_nothing [simp]: "deliver (\<lambda>_. []) r = r"
  by (simp add: deliver_def)

lemma deliver_deliver: "deliver f (deliver g r) = deliver (\<lambda>c. g c @ f c) r"
  by (simp add: deliver_def option.map_comp o_def extend_outbox_append)

lemma send_task_extend: "send_task t n = extend_outbox [t] n"
  by (simp add: send_task_def extend_outbox_def)

lemma modify_node_send:
  "modify_node c (send_task t) r = deliver (\<lambda>c'. if c' = c then [t] else []) r"
  by (cases "nodes r c")
    (auto simp: modify_node_def deliver_def send_task_extend intro!: registry.equality ext)

lemma fold_modify_node_send:
  "fold (\<lambda>reg. modify_node (caller_id reg) (send_task t)) regs r =
     deliver (\<lambda>c. replicate (length (filter (\<lambda>reg. caller_id reg = c) regs)) t) r"
  by (induction regs arbitrary: r)
    (auto simp: modify_node_send deliver_deliver intro!: arg_cong [of _ _ "\<lambda>f. deliver f _"] ext)

text \<open>The message for the subscribers of a topic, once per registration.\<close>

abbreviation publisher_apis :: "registry \<Rightarrow> string \<Rightarrow> string list" where
  "publisher_apis r topic \<equiv> map reg_api (members_at (publications r) topic)"

lemma update_subscribers_deliver:
  "update_subscribers topic r =
     deliver (\<lambda>c. replicate (length (filter (\<lambda>reg. caller_id reg = c) (members_at (subscriptions r) topic)))
       (PublisherUpdate topic (publisher_apis r topic))) r"
  by (simp add: update_subscribers_def node_publisher_update_def Let_def fold_modify_node_send)

lemma update_subscribers_sel [registry_simps]:
  "services (update_subscribers topic r) = services r"
  "publications (update_subscribers topic r) = publications r"
  "subscriptions (update_subscribers topic r) = subscriptions r"
  "param_subscribers (update_subscribers topic r) = param_subscribers r"
  "topic_types (update_subscribers topic r) = topic_types r"
  "retired (update_subscribers topic r) = retired r"
  "dom (nodes (update_subscribers topic r)) = dom (nodes r)"
  by (simp_all add: update_subscribers_deliver registry_simps)

lemma nodes_update_subscribers [registry_simps]:
  "nodes (update_subscribers topic r) c =
     map_option (extend_outbox (replicate
       (length (filter (\<lambda>reg. caller_id reg = c) (members_at (subscriptions r) topic)))
       (PublisherUpdate topic (publisher_apis r topic)))) (nodes r c)"
  by (simp add: update_subscribers_deliver registry_simps)

lemma modify_node_sel [registry_simps]:
  "services (modify_node c f r) = services r"
  "publications (modify_node c f r) = publications r"
  "subscriptions (modify_node c f r) = subscriptions r"
  "param_subscribers (modify_node c f r) = param_subscribers r"
  "topic_types (modify_node c f r) = topic_types r"
  "retired (modify_node c f r) = retired r"
  "nodes (modify_node c f r) c' = (if c' = c then map_option f (nodes r c) else nodes r c')"
  by (auto simp: modify_node_def split: option.splits)

lemma check_node_sel [registry_simps]:
  "services (check_node c r) = services r"
  "publications (check_node c r) = publications r"
  "subscriptions (check_node c r) = subscriptions r"
  "param_subscribers (check_node c r) = param_subscribers r"
  "topic_types (check_node c r) = topic_types r"
  "nodes (check_node c r) c' =
     (if c' = c then (case nodes r c of None \<Rightarrow> None
        | Some n \<Rightarrow> if has_any_registration n then Some n else None) else nodes r c')"
  by (auto simp: check_node_def split: option.splits)

lemma register_topic_sel [registry_simps]:
  "services (register_topic t ty r) = services r"
  "publications (register_topic t ty r) = publications r"
  "subscriptions (register_topic t ty r) = subscriptions r"
  "param_subscribers (register_topic t ty r) = param_subscribers r"
  "retired (register_topic t ty r) = retired r"
  "nodes (register_topic t ty r) = nodes r"
  by (auto simp: register_topic_def)

lemma check_topic_sel [registry_simps]:
  "services (check_topic t r) = services r"
  "publications (check_topic t r) = publications r"
  "subscriptions (check_topic t r) = subscriptions r"
  "param_subscribers (check_topic t r) = param_subscribers r"
  "retired (check_topic t r) = retired r"
  "nodes (check_topic t r) = nodes r"
  by (auto simp: check_topic_def)

lemma members_at_add_member [simp]:
  "members_at (add_member k x d) k' = (if k' = k then set_add x (members_at d k) else members_at d k')"
  by (simp add: add_member_def)

lemma members_at_discard_member [simp]:
  "members_at (discard_member k x d) k' =
     (if k' = k then set_discard x (members_at d k) else members_at d k')"
  by (auto simp: discard_member_def members_at_def set_discard_def split: option.splits)

lemma distinct_keys_add_member [simp]:
  "distinct (map fst d) \<Longrightarrow> distinct (map fst (add_member k x d))"
  by (simp add: add_member_def distinct_update)

lemma distinct_keys_discard_member [simp]:
  "distinct (map fst d) \<Longrightarrow> distinct (map fst (discard_member k x d))"
  by (simp add: discard_member_def distinct_update distinct_delete split: option.splits)

section \<open>Re-registration under another address\<close>

text \<open>
  \<open>unregister_all\<close> removes the caller from services, publications and subscriptions, and leaves
  the parameter subscriptions alone.
\<close>

lemma drop_publisher_sel [registry_simps]:
  "services (drop_publisher c topic reg r) = services r"
  "subscriptions (drop_publisher c topic reg r) = subscriptions r"
  "param_subscribers (drop_publisher c topic reg r) = param_subscribers r"
  "topic_types (drop_publisher c topic reg r) = topic_types r"
  "retired (drop_publisher c topic reg r) = retired r"
  "dom (nodes (drop_publisher c topic reg r)) = dom (nodes r)"
  by (auto simp: drop_publisher_def registry_simps)

lemma members_at_drop_publisher:
  "members_at (publications (drop_publisher c topic reg r)) t =
     (if t = topic \<and> caller_id reg = c then set_discard reg (members_at (publications r) t)
      else members_at (publications r) t)"
  by (auto simp: drop_publisher_def registry_simps)

text \<open>Two registries whose nodes differ in their queues only, by calls added.\<close>

definition same_nodes :: "registry \<Rightarrow> registry \<Rightarrow> bool" where
  "same_nodes r r' \<longleftrightarrow> (\<exists>f. \<forall>c. nodes r' c = map_option (extend_outbox (f c)) (nodes r c))"

lemma same_nodes_refl [simp]: "same_nodes r r"
  unfolding same_nodes_def by (rule exI [of _ "\<lambda>_. []"]) simp

lemma same_nodes_trans: "same_nodes r r' \<Longrightarrow> same_nodes r' r'' \<Longrightarrow> same_nodes r r''"
  unfolding same_nodes_def
proof (elim exE)
  fix f g
  assume "\<forall>c. nodes r' c = map_option (extend_outbox (f c)) (nodes r c)"
    and "\<forall>c. nodes r'' c = map_option (extend_outbox (g c)) (nodes r' c)"
  then show "\<exists>h. \<forall>c. nodes r'' c = map_option (extend_outbox (h c)) (nodes r c)"
    by (intro exI [of _ "\<lambda>c. f c @ g c"])
      (simp add: option.map_comp o_def extend_outbox_append)
qed

lemma same_nodes_deliver: "same_nodes r (deliver f r)"
  by (auto simp: same_nodes_def registry_simps)

lemma same_nodes_cong: "nodes r = nodes s \<Longrightarrow> same_nodes s t \<Longrightarrow> same_nodes r t"
  by (simp add: same_nodes_def)

lemma same_nodes_drop_publisher: "same_nodes r (drop_publisher c topic reg r)"
proof (cases "caller_id reg = c")
  case True
  then show ?thesis
    unfolding drop_publisher_def update_subscribers_deliver
    by (auto intro: same_nodes_cong [OF _ same_nodes_deliver])
next
  case False
  then show ?thesis by (simp add: drop_publisher_def)
qed

abbreviation drop_topic :: "string \<Rightarrow> string \<times> registration list \<Rightarrow> registry \<Rightarrow> registry" where
  "drop_topic c \<equiv> (\<lambda>(topic, registrations). fold (drop_publisher c topic) registrations)"

lemma fold_drop_publisher:
  "services (fold (drop_publisher c topic) regs r) = services r"
  "subscriptions (fold (drop_publisher c topic) regs r) = subscriptions r"
  "param_subscribers (fold (drop_publisher c topic) regs r) = param_subscribers r"
  "topic_types (fold (drop_publisher c topic) regs r) = topic_types r"
  "retired (fold (drop_publisher c topic) regs r) = retired r"
  "same_nodes r (fold (drop_publisher c topic) regs r)"
  "members_at (publications (fold (drop_publisher c topic) regs r)) t =
     filter (\<lambda>reg. \<not> (t = topic \<and> caller_id reg = c \<and> reg \<in> set regs)) (members_at (publications r) t)"
  "distinct (map fst (publications r)) \<Longrightarrow>
     distinct (map fst (publications (fold (drop_publisher c topic) regs r)))"
proof (induction regs arbitrary: r)
  case (Cons reg regs)
  {
    case 6
    show ?case
      using same_nodes_trans [OF same_nodes_drop_publisher Cons.IH(6)] by simp
  next
    case 7
    show ?case
      by (auto simp: Cons.IH members_at_drop_publisher set_discard_def intro!: filter_cong)
  next
    case 8
    then show ?case
      using Cons.IH(8) by (simp add: drop_publisher_def registry_simps distinct_update)
  }
qed (simp_all add: registry_simps)

lemma fold_drop_topic:
  "services (fold (drop_topic c) entries r) = services r"
  "subscriptions (fold (drop_topic c) entries r) = subscriptions r"
  "param_subscribers (fold (drop_topic c) entries r) = param_subscribers r"
  "topic_types (fold (drop_topic c) entries r) = topic_types r"
  "retired (fold (drop_topic c) entries r) = retired r"
  "same_nodes r (fold (drop_topic c) entries r)"
  "members_at (publications (fold (drop_topic c) entries r)) t =
     filter (\<lambda>reg. \<not> (caller_id reg = c \<and> (\<exists>regs. (t, regs) \<in> set entries \<and> reg \<in> set regs)))
       (members_at (publications r) t)"
  "distinct (map fst (publications r)) \<Longrightarrow>
     distinct (map fst (publications (fold (drop_topic c) entries r)))"
proof (induction entries arbitrary: r)
  case (Cons entry entries)
  obtain topic regs where e: "entry = (topic, regs)" by (cases entry)
  {
    case 6
    show ?case
      using same_nodes_trans [OF fold_drop_publisher(6) Cons.IH(6)] e by simp
  next
    case 7
    show ?case
      by (auto simp: e Cons.IH fold_drop_publisher intro!: filter_cong)
  next
    case 8
    then show ?case
      using Cons.IH(8) fold_drop_publisher(8) e by simp
  }
qed (simp_all add: fold_drop_publisher split: prod.splits)

lemma unregister_all_sel [registry_simps]:
  "services (unregister_all c r) = filter (\<lambda>(service, reg). caller_id reg \<noteq> c) (services r)"
  "param_subscribers (unregister_all c r) = param_subscribers r"
  "topic_types (unregister_all c r) = topic_types r"
  "retired (unregister_all c r) = retired r"
  "members_at (publications (unregister_all c r)) t =
     filter (\<lambda>reg. caller_id reg \<noteq> c) (members_at (publications r) t)"
  "members_at (subscriptions (unregister_all c r)) t =
     filter (\<lambda>reg. caller_id reg \<noteq> c) (members_at (subscriptions r) t)"
  "map fst (subscriptions (unregister_all c r)) = map fst (subscriptions r)"
proof -
  have "\<exists>regs. (t, regs) \<in> set (publications r) \<and> reg \<in> set regs"
    if "reg \<in> set (members_at (publications r) t)" for reg
    using that by (rule members_atD)
  then show "members_at (publications (unregister_all c r)) t =
      filter (\<lambda>reg. caller_id reg \<noteq> c) (members_at (publications r) t)"
    by (auto simp: unregister_all_def Let_def fold_drop_topic intro!: filter_cong)
  show "members_at (subscriptions (unregister_all c r)) t =
      filter (\<lambda>reg. caller_id reg \<noteq> c) (members_at (subscriptions r) t)"
    by (simp add: unregister_all_def Let_def fold_drop_topic)
  show "map fst (subscriptions (unregister_all c r)) = map fst (subscriptions r)"
    by (simp add: unregister_all_def Let_def fold_drop_topic del: map_map)
qed (simp_all add: unregister_all_def Let_def fold_drop_topic)

lemma same_nodes_unregister_all: "same_nodes r (unregister_all c r)"
proof -
  let ?r1 = "r\<lparr>services := filter (\<lambda>(service, reg). caller_id reg \<noteq> c) (services r)\<rparr>"
  have "nodes (unregister_all c r) = nodes (fold (drop_topic c) (publications ?r1) ?r1)"
    by (simp add: unregister_all_def Let_def)
  moreover have "same_nodes ?r1 (fold (drop_topic c) (publications ?r1) ?r1)"
    by (rule fold_drop_topic(6))
  ultimately show ?thesis by (simp add: same_nodes_def)
qed

lemma distinct_unregister_all:
  "distinct (map fst (publications r)) \<Longrightarrow> distinct (map fst (publications (unregister_all c r)))"
  by (simp add: unregister_all_def Let_def fold_drop_topic)

end
