(* ===== verification/Registry_Invariants.thy ===== *)
theory Registry_Invariants
  imports Master_Registry
begin

text \<open>
  What the registry of the master keeps true between its dictionaries and its nodes, and that
  every operation preserves it.

  \<open>core_inv\<close>: publications and subscriptions agree with the nodes' own lists, with current
  addresses; every service belongs to a known node; every node has a registration and an open
  queue. It survives any sequence of calls in which nobody unregisters under an address that is
  not its own, re-registration under a new address included.
\<close>

section \<open>The registry invariant\<close>

text \<open>
  \<open>mirrored ns field d\<close>: the dict of registrations and the nodes' own lists say the same, and
  every registration carries the current address of its node.
\<close>

definition mirrored ::
    "(string \<Rightarrow> mnode option) \<Rightarrow> (mnode \<Rightarrow> string list) \<Rightarrow> (string \<times> registration list) list \<Rightarrow> bool" where
  "mirrored ns field d \<longleftrightarrow>
     (\<forall>t reg. reg \<in> set (members_at d t) \<longleftrightarrow>
        (\<exists>n. ns (caller_id reg) = Some n \<and> node_api n = reg_api reg \<and> t \<in> set (field n)))"

definition services_known :: "registry \<Rightarrow> bool" where
  "services_known r \<longleftrightarrow>
     (\<forall>name reg. map_of (services r) name = Some reg \<longrightarrow>
        (case nodes r (caller_id reg) of None \<Rightarrow> False | Some n \<Rightarrow> name \<in> set (node_services n)))"

definition base_inv :: "registry \<Rightarrow> bool" where
  "base_inv r \<longleftrightarrow>
     mirrored (nodes r) node_publications (publications r) \<and>
     mirrored (nodes r) node_subscriptions (subscriptions r) \<and>
     services_known r \<and>
     distinct (map fst (services r)) \<and>
     distinct (map fst (publications r)) \<and> distinct (map fst (subscriptions r)) \<and>
     (\<forall>c. pred_option (\<lambda>n. \<not> node_closed n) (nodes r c))"

text \<open>The invariant proper: every node known to the master is registered for something.\<close>

definition core_inv :: "registry \<Rightarrow> bool" where
  "core_inv r \<longleftrightarrow> base_inv r \<and> (\<forall>c. pred_option has_any_registration (nodes r c))"

lemma services_knownI:
  "(\<And>name reg. map_of (services r) name = Some reg \<Longrightarrow>
      \<exists>n. nodes r (caller_id reg) = Some n \<and> name \<in> set (node_services n)) \<Longrightarrow> services_known r"
  unfolding services_known_def by fastforce

lemma services_knownD:
  "services_known r \<Longrightarrow> map_of (services r) name = Some reg \<Longrightarrow>
     \<exists>n. nodes r (caller_id reg) = Some n \<and> name \<in> set (node_services n)"
  unfolding services_known_def by (fastforce split: option.splits)

lemma mirroredI:
  "(\<And>t reg. reg \<in> set (members_at d t) \<longleftrightarrow>
      (\<exists>n. ns (caller_id reg) = Some n \<and> node_api n = reg_api reg \<and> t \<in> set (field n))) \<Longrightarrow>
     mirrored ns field d"
  by (simp add: mirrored_def)

lemma mirroredD:
  "mirrored ns field d \<Longrightarrow> reg \<in> set (members_at d t) \<longleftrightarrow>
     (\<exists>n. ns (caller_id reg) = Some n \<and> node_api n = reg_api reg \<and> t \<in> set (field n))"
  by (simp add: mirrored_def)

text \<open>What matters of a node for \<open>mirrored\<close> is its address and its list.\<close>

lemma mirrored_cong:
  assumes "mirrored ns field d"
    and "\<And>c. map_option (\<lambda>n. (node_api n, set (field n))) (ns' c) =
               map_option (\<lambda>n. (node_api n, set (field n))) (ns c)"
  shows "mirrored ns' field d"
proof (rule mirroredI)
  fix t and reg :: registration
  from assms(2) [of "caller_id reg"]
  have "(\<exists>n. ns' (caller_id reg) = Some n \<and> node_api n = reg_api reg \<and> t \<in> set (field n)) \<longleftrightarrow>
      (\<exists>n. ns (caller_id reg) = Some n \<and> node_api n = reg_api reg \<and> t \<in> set (field n))"
    by (auto simp: map_option_case split: option.splits)
  then show "reg \<in> set (members_at d t) \<longleftrightarrow>
      (\<exists>n. ns' (caller_id reg) = Some n \<and> node_api n = reg_api reg \<and> t \<in> set (field n))"
    using mirroredD [OF assms(1)] by simp
qed

lemma mirrored_add:
  assumes "mirrored ns field d" "ns c = Some n" "node_api n = a"
    and "\<And>c'. c' \<noteq> c \<Longrightarrow> ns' c' = ns c'"
    and "ns' c = Some n'" "node_api n' = a" "set (field n') = insert t (set (field n))"
  shows "mirrored ns' field (add_member t \<lparr>caller_id = c, reg_api = a\<rparr> d)"
proof (rule mirroredI)
  fix t' and reg :: registration
  show "reg \<in> set (members_at (add_member t \<lparr>caller_id = c, reg_api = a\<rparr> d) t') \<longleftrightarrow>
      (\<exists>n. ns' (caller_id reg) = Some n \<and> node_api n = reg_api reg \<and> t' \<in> set (field n))"
  proof (cases "caller_id reg = c")
    case True
    with assms mirroredD [OF assms(1), of reg t'] show ?thesis by (cases reg) auto
  next
    case False
    with assms(4) mirroredD [OF assms(1), of reg t'] show ?thesis by (cases reg) auto
  qed
qed

lemma mirrored_discard:
  assumes "mirrored ns field d" "\<And>n. ns c = Some n \<Longrightarrow> node_api n = a"
    and "\<And>c'. c' \<noteq> c \<Longrightarrow> ns' c' = ns c'"
    and "map_option (\<lambda>n. (node_api n, set (field n))) (ns' c) =
           map_option (\<lambda>n. (node_api n, set (field n) - {t})) (ns c) \<or>
         ns' c = None \<and> (\<forall>n. ns c = Some n \<longrightarrow> set (field n) \<subseteq> {t})"
  shows "mirrored ns' field (discard_member t \<lparr>caller_id = c, reg_api = a\<rparr> d)"
proof (rule mirroredI)
  fix t' and reg :: registration
  show "reg \<in> set (members_at (discard_member t \<lparr>caller_id = c, reg_api = a\<rparr> d) t') \<longleftrightarrow>
      (\<exists>n. ns' (caller_id reg) = Some n \<and> node_api n = reg_api reg \<and> t' \<in> set (field n))"
  proof (cases "caller_id reg = c")
    case True
    with assms(2-4) mirroredD [OF assms(1), of reg t'] show ?thesis
      by (cases reg; cases "ns c"; cases "ns' c") auto
  next
    case False
    with assms(3) mirroredD [OF assms(1), of reg t'] show ?thesis by (cases reg) auto
  qed
qed

lemma mirrored_replace:
  assumes "mirrored ns field d"
    and "\<And>t. members_at d' t = filter (\<lambda>reg. caller_id reg \<noteq> c) (members_at d t)"
    and "\<And>c'. c' \<noteq> c \<Longrightarrow> map_option (\<lambda>n. (node_api n, set (field n))) (ns' c') =
               map_option (\<lambda>n. (node_api n, set (field n))) (ns c')"
    and "ns' c = Some n" "field n = []"
  shows "mirrored ns' field d'"
proof (rule mirroredI)
  fix t and reg :: registration
  show "reg \<in> set (members_at d' t) \<longleftrightarrow>
      (\<exists>n. ns' (caller_id reg) = Some n \<and> node_api n = reg_api reg \<and> t \<in> set (field n))"
  proof (cases "caller_id reg = c")
    case True
    with assms(2,4,5) show ?thesis by auto
  next
    case False
    with assms(2) have "reg \<in> set (members_at d' t) \<longleftrightarrow> reg \<in> set (members_at d t)" by simp
    also have "\<dots> \<longleftrightarrow> (\<exists>n. ns' (caller_id reg) = Some n \<and> node_api n = reg_api reg \<and> t \<in> set (field n))"
      using mirroredD [OF assms(1), of reg t] assms(3) [OF False]
      by (auto simp: map_option_case split: option.splits)
    finally show ?thesis .
  qed
qed

text \<open>\<open>register_node\<close>: afterwards the caller has a node with the given address.\<close>

lemma new_node_sel [registry_simps]:
  "node_api (new_node a) = a" "node_services (new_node a) = []"
  "node_publications (new_node a) = []" "node_subscriptions (new_node a) = []"
  "node_param_subscriptions (new_node a) = []" "node_outbox (new_node a) = []"
  "\<not> node_closed (new_node a)"
  by (simp_all add: new_node_def)

lemma fresh_node_sel [registry_simps]:
  "services (fresh_node c a r) = services r"
  "publications (fresh_node c a r) = publications r"
  "subscriptions (fresh_node c a r) = subscriptions r"
  "param_subscribers (fresh_node c a r) = param_subscribers r"
  "topic_types (fresh_node c a r) = topic_types r"
  "retired (fresh_node c a r) = retired r"
  "nodes (fresh_node c a r) c' = (if c' = c then Some (new_node a) else nodes r c')"
  by (simp_all add: fresh_node_def)

lemma register_node_cases:
  obtains (same) n where "nodes r c = Some n" "node_api n = a" "register_node c a r = r"
  | (fresh) "nodes r c = None" "register_node c a r = fresh_node c a r"
  | (replaced) n old where "nodes r c = Some n" "node_api n \<noteq> a"
      "nodes (unregister_all c (modify_node c (node_shutdown ''new node registered with same name'') r)) c
         = Some old"
      "register_node c a r = fresh_node c a
         ((unregister_all c (modify_node c (node_shutdown ''new node registered with same name'') r))
            \<lparr>retired := retired r @ [old]\<rparr>)"
proof (cases "nodes r c")
  case (Some n)
  show thesis
  proof (cases "node_api n = a")
    case False
    let ?r1 = "modify_node c (node_shutdown ''new node registered with same name'') r"
    obtain f where "\<And>c'. nodes (unregister_all c ?r1) c' = map_option (extend_outbox (f c')) (nodes ?r1 c')"
      using same_nodes_unregister_all [of ?r1 c] unfolding same_nodes_def by blast
    with Some obtain old where old: "nodes (unregister_all c ?r1) c = Some old"
      by (auto simp: registry_simps)
    with replaced [OF Some False old] show thesis using Some False
      by (simp add: register_node_def Let_def registry_simps)
  qed (use Some same in \<open>simp add: register_node_def\<close>)
qed (use fresh in \<open>simp add: register_node_def\<close>)


lemma register_node_post: "\<exists>n. nodes (register_node c a r) c = Some n \<and> node_api n = a"
  by (cases rule: register_node_cases [where r = r and c = c and a = a]) (auto simp: registry_simps)

lemma same_nodes_at: "same_nodes r r' \<Longrightarrow> \<exists>ts. nodes r' c = map_option (extend_outbox ts) (nodes r c)"
  by (auto simp: same_nodes_def)

lemma register_node_others:
  "c' \<noteq> c \<Longrightarrow> \<exists>ts. nodes (register_node c a r) c' = map_option (extend_outbox ts) (nodes r c')"
proof (cases rule: register_node_cases [where r = r and c = c and a = a])
  case same
  then show ?thesis by (auto intro: exI [of _ "[]"])
next
  case fresh
  assume "c' \<noteq> c"
  with fresh show ?thesis by (auto simp: registry_simps intro: exI [of _ "[]"])
next
  case replaced
  assume "c' \<noteq> c"
  with replaced(4) show ?thesis
    using same_nodes_at [OF same_nodes_unregister_all [where c = c and
        r = "modify_node c (node_shutdown ''new node registered with same name'') r"], of c']
    by (simp add: registry_simps)
qed

lemma map_option_extend_view [simp]:
  "map_option (\<lambda>n. (node_api n, set (field n))) (map_option (extend_outbox ts) x) =
     map_option (\<lambda>n. (node_api n, set (field n))) x"
  if "\<And>n. field (extend_outbox ts n) = field n"
  using that by (cases x) (auto simp: registry_simps)

lemma services_known_cong:
  assumes "services_known r" "set (services r') \<subseteq> set (services r)"
    and "distinct (map fst (services r))"
    and "\<And>reg name n. (name, reg) \<in> set (services r') \<Longrightarrow> nodes r (caller_id reg) = Some n \<Longrightarrow>
      name \<in> set (node_services n) \<Longrightarrow>
      \<exists>n'. nodes r' (caller_id reg) = Some n' \<and> name \<in> set (node_services n')"
  shows "services_known r'"
proof (rule services_knownI)
  fix name reg assume "map_of (services r') name = Some reg"
  then have m: "(name, reg) \<in> set (services r')" by (rule map_of_SomeD)
  with assms(2,3) have "map_of (services r) name = Some reg" by auto
  from services_knownD [OF assms(1) this] assms(4) [OF m]
  show "\<exists>n. nodes r' (caller_id reg) = Some n \<and> name \<in> set (node_services n)" by blast
qed

text \<open>The same services, and the same lists of services in the nodes.\<close>

lemma services_known_same:
  assumes "services_known r" "services r' = services r"
    and "\<And>c n. nodes r c = Some n \<Longrightarrow>
      \<exists>n'. nodes r' c = Some n' \<and> set (node_services n) \<subseteq> set (node_services n')"
  shows "services_known r'"
proof (rule services_knownI)
  fix name reg assume "map_of (services r') name = Some reg"
  with assms(2) have "map_of (services r) name = Some reg" by simp
  from services_knownD [OF assms(1) this] assms(3)
  show "\<exists>n. nodes r' (caller_id reg) = Some n \<and> name \<in> set (node_services n)" by blast
qed

lemma base_inv_register_node:
  assumes "base_inv r" shows "base_inv (register_node c a r)"
proof (cases rule: register_node_cases [where r = r and c = c and a = a])
  case (same n)
  with assms show ?thesis by simp
next
  case fresh
  have view: "mirrored (nodes (fresh_node c a r)) field d"
    if "mirrored (nodes r) field d" "field (new_node a) = []" for field d
  proof (rule mirrored_replace [OF that(1), where c = c])
    show "members_at d t = filter (\<lambda>reg. caller_id reg \<noteq> c) (members_at d t)" for t
      by (rule filter_True [symmetric]) (use fresh(1) in \<open>auto simp: mirroredD [OF that(1)]\<close>)
  qed (use that in \<open>auto simp: registry_simps\<close>)
  have "services_known (fresh_node c a r)"
    by (rule services_known_same [of r]) (use assms fresh(1) in \<open>auto simp: base_inv_def registry_simps\<close>)
  moreover have "pred_option (\<lambda>n. \<not> node_closed n) (nodes (fresh_node c a r) c')" for c'
    using assms by (simp add: base_inv_def registry_simps)
  ultimately show ?thesis
    using assms unfolding fresh(2) base_inv_def by (simp add: registry_simps view)
next
  case (replaced n old)
  let ?m = "modify_node c (node_shutdown ''new node registered with same name'') r"
  let ?r' = "register_node c a r"
  obtain f where f: "\<And>c'. nodes (unregister_all c ?m) c' = map_option (extend_outbox (f c')) (nodes ?m c')"
    using same_nodes_unregister_all [of ?m c] unfolding same_nodes_def by blast
  have nodes': "nodes ?r' c' = (if c' = c then Some (new_node a)
      else map_option (extend_outbox (f c')) (nodes r c'))" for c'
    using f [of c'] by (simp add: replaced(4) registry_simps)
  have view: "mirrored (nodes ?r') field d'"
    if "mirrored (nodes r) field d" "field (new_node a) = []"
      "\<And>t. members_at d' t = filter (\<lambda>reg. caller_id reg \<noteq> c) (members_at d t)"
      "\<And>ts n. field (extend_outbox ts n) = field n" for field d d'
    by (rule mirrored_replace [OF that(1,3)])
      (use that(2,4) in \<open>auto simp: nodes'\<close>)
  have inv: "mirrored (nodes r) node_publications (publications r)"
    "mirrored (nodes r) node_subscriptions (subscriptions r)" "services_known r"
    "distinct (map fst (services r))" "distinct (map fst (publications r))"
    "distinct (map fst (subscriptions r))" "\<And>c. pred_option (\<lambda>n. \<not> node_closed n) (nodes r c)"
    using assms by (auto simp: base_inv_def)
  have serv: "services ?r' = filter (\<lambda>(service, reg). caller_id reg \<noteq> c) (services r)"
    by (simp add: replaced(4) registry_simps)
  have "services_known ?r'"
    by (rule services_known_cong [OF inv(3)])
      (use inv(4) in \<open>auto simp: serv nodes' registry_simps\<close>)
  moreover have "mirrored (nodes ?r') node_publications (publications ?r')"
    by (rule view [OF inv(1)]) (simp_all add: replaced(4) registry_simps)
  moreover have "mirrored (nodes ?r') node_subscriptions (subscriptions ?r')"
    by (rule view [OF inv(2)]) (simp_all add: replaced(4) registry_simps)
  moreover have "distinct (map fst (services ?r'))"
    unfolding serv using inv(4) by (simp add: distinct_map_filter)
  moreover have "distinct (map fst (publications ?r'))" "distinct (map fst (subscriptions ?r'))"
    using inv(5,6) distinct_unregister_all [of ?m c] by (simp_all add: replaced(4) registry_simps)
  moreover have "pred_option (\<lambda>n. \<not> node_closed n) (nodes ?r' c')" for c'
    using inv(7) [of c'] by (simp add: nodes' registry_simps option.pred_map o_def)
  ultimately show ?thesis by (simp add: base_inv_def)
qed


section \<open>Operations keep the invariant\<close>

text \<open>The steps the operations are made of.\<close>

lemma base_inv_deliver [simp]: "base_inv (deliver f r) \<longleftrightarrow> base_inv r"
proof -
  have "mirrored (nodes (deliver f r)) field d \<longleftrightarrow> mirrored (nodes r) field d"
    if "\<And>ts n. field (extend_outbox ts n) = field n" for field d
    by (rule iffI; erule mirrored_cong) (use that in \<open>simp_all add: registry_simps\<close>)
  moreover have "services_known (deliver f r) \<longleftrightarrow> services_known r"
    by (rule iffI; erule services_known_same) (auto simp: registry_simps)
  ultimately show ?thesis by (simp add: base_inv_def registry_simps option.pred_map o_def)
qed

lemma core_inv_deliver [simp]: "core_inv (deliver f r) \<longleftrightarrow> core_inv r"
  by (simp add: core_inv_def registry_simps option.pred_map o_def)

lemma core_inv_update_subscribers [simp]: "core_inv (update_subscribers topic r) \<longleftrightarrow> core_inv r"
  by (simp add: update_subscribers_deliver)

lemma core_inv_topic [simp]:
  "core_inv (register_topic t ty r) \<longleftrightarrow> core_inv r"
  "core_inv (check_topic t r) \<longleftrightarrow> core_inv r"
  by (simp_all add: core_inv_def base_inv_def services_known_def registry_simps)

definition others_registered :: "string \<Rightarrow> registry \<Rightarrow> bool" where
  "others_registered c r \<longleftrightarrow>
     (\<forall>c'. c' \<noteq> c \<longrightarrow> pred_option has_any_registration (nodes r c'))"

lemma core_inv_others: "core_inv r \<Longrightarrow> others_registered c r"
  by (simp add: core_inv_def others_registered_def)

lemma core_invI:
  assumes "base_inv r" "others_registered c r" "nodes r c = Some n" "has_any_registration n"
  shows "core_inv r"
  unfolding core_inv_def
proof (intro conjI allI)
  show "pred_option has_any_registration (nodes r c')" for c'
    using assms by (cases "c' = c") (simp_all add: others_registered_def)
qed (rule assms)

lemma others_register_node: "core_inv r \<Longrightarrow> others_registered c (register_node c a r)"
  unfolding others_registered_def
proof (intro allI impI)
  fix c' assume r: "core_inv r" and c': "c' \<noteq> c"
  obtain ts where "nodes (register_node c a r) c' = map_option (extend_outbox ts) (nodes r c')"
    using register_node_others [OF c'] by blast
  with r show "pred_option has_any_registration (nodes (register_node c a r) c')"
    by (simp add: core_inv_def registry_simps option.pred_map o_def)
qed

lemma mirrored_drop:
  assumes "mirrored ns field d" "ns c = Some n" "field n = []"
  shows "mirrored (ns(c := None)) field d"
proof (rule mirroredI)
  fix t and reg :: registration
  show "reg \<in> set (members_at d t) \<longleftrightarrow> (\<exists>n. (ns(c := None)) (caller_id reg) = Some n \<and>
      node_api n = reg_api reg \<and> t \<in> set (field n))"
    using assms mirroredD [OF assms(1), of reg t] by auto
qed

lemma core_inv_check_node:
  assumes "base_inv r" "others_registered c r"
  shows "core_inv (check_node c r)"
proof (cases "nodes r c")
  case None
  with assms show ?thesis
    by (simp add: check_node_def core_inv_def others_registered_def) (metis option.pred_inject(1))
next
  case (Some n)
  show ?thesis
  proof (cases "has_any_registration n")
    case True
    with Some assms show ?thesis by (auto simp: check_node_def intro: core_invI)
  next
    case False
    then have e: "node_services n = []" "node_publications n = []" "node_subscriptions n = []"
      by (auto simp: has_any_registration_def)
    let ?r' = "check_node c r"
    have nodes': "nodes ?r' = (nodes r)(c := None)"
      using Some False by (simp add: check_node_def)
    have "services_known ?r'"
    proof (rule services_knownI)
      fix name reg assume "map_of (services ?r') name = Some reg"
      then have "map_of (services r) name = Some reg" by (simp add: registry_simps)
      with assms(1) obtain n' where "nodes r (caller_id reg) = Some n'" "name \<in> set (node_services n')"
        unfolding base_inv_def by (blast dest: services_knownD)
      with Some e show "\<exists>n. nodes ?r' (caller_id reg) = Some n \<and> name \<in> set (node_services n)"
        unfolding nodes' by auto
    qed
    moreover have "mirrored (nodes ?r') node_publications (publications r)"
      "mirrored (nodes ?r') node_subscriptions (subscriptions r)"
      using assms(1) Some e unfolding nodes' base_inv_def by (auto intro: mirrored_drop)
    moreover have "pred_option (\<lambda>n. \<not> node_closed n) (nodes ?r' c')" for c'
      using assms(1) unfolding nodes' by (simp add: base_inv_def)
    ultimately have "base_inv ?r'" using assms(1) by (simp add: base_inv_def registry_simps)
    moreover have "pred_option has_any_registration (nodes ?r' c')" for c'
      using assms(2) unfolding nodes' by (simp add: others_registered_def)
    ultimately show ?thesis by (simp add: core_inv_def)
  qed
qed

text \<open>A change of one node's lists and of the matching dict.\<close>

lemma base_inv_change:
  assumes "base_inv r" "\<And>n. node_closed (f n) = node_closed n"
    and "mirrored (nodes (modify_node c f r)) node_publications pubs" "distinct (map fst pubs)"
    and "mirrored (nodes (modify_node c f r)) node_subscriptions subs" "distinct (map fst subs)"
    and "\<And>n. set (node_services n) \<subseteq> set (node_services (f n))"
  shows "base_inv ((modify_node c f r)\<lparr>publications := pubs, subscriptions := subs\<rparr>)"
proof -
  have "services_known ((modify_node c f r)\<lparr>publications := pubs, subscriptions := subs\<rparr>)"
    by (rule services_known_same [of r]) (use assms(1,7) in \<open>auto simp: base_inv_def registry_simps\<close>)
  with assms show ?thesis
    by (simp add: base_inv_def registry_simps option.pred_map o_def)
qed

lemma mirrored_modify_other:
  assumes "mirrored (nodes r) field d" "\<And>n. node_api (f n) = node_api n" "\<And>n. field (f n) = field n"
  shows "mirrored (nodes (modify_node c f r)) field d"
  by (rule mirrored_cong [OF assms(1)])
    (use assms(2,3) in \<open>auto simp: registry_simps option.map_comp o_def\<close>)

lemma mirrored_modify_add:
  assumes "mirrored (nodes r) field d" "nodes r c = Some n" "node_api n = a"
    "\<And>n. node_api (f n) = node_api n" "\<And>n. set (field (f n)) = insert t (set (field n))"
  shows "mirrored (nodes (modify_node c f r)) field (add_member t \<lparr>caller_id = c, reg_api = a\<rparr> d)"
  by (rule mirrored_add [OF assms(1-3), where n' = "f n"]) (use assms in \<open>auto simp: registry_simps\<close>)

lemma mirrored_modify_discard:
  assumes "mirrored (nodes r) field d" "\<And>n. nodes r c = Some n \<Longrightarrow> node_api n = a"
    "\<And>n. node_api (f n) = node_api n" "\<And>n. set (field (f n)) = set (field n) - {t}"
  shows "mirrored (nodes (modify_node c f r)) field (discard_member t \<lparr>caller_id = c, reg_api = a\<rparr> d)"
  by (rule mirrored_discard [OF assms(1,2)])
    (use assms in \<open>auto simp: registry_simps option.map_comp o_def\<close>)

text \<open>The same with one dict changed only.\<close>

lemma keep_field:
  "publications x = d \<Longrightarrow> x\<lparr>publications := d\<rparr> = x" "subscriptions x = d \<Longrightarrow> x\<lparr>subscriptions := d\<rparr> = x"
  by auto

lemma base_inv_change_publications:
  assumes "base_inv r" "\<And>n. node_closed (f n) = node_closed n"
    and "mirrored (nodes (modify_node c f r)) node_publications pubs" "distinct (map fst pubs)"
    and "mirrored (nodes (modify_node c f r)) node_subscriptions (subscriptions r)"
    and "\<And>n. set (node_services n) \<subseteq> set (node_services (f n))"
  shows "base_inv ((modify_node c f r)\<lparr>publications := pubs\<rparr>)"
proof -
  have "distinct (map fst (subscriptions r))" using assms(1) by (simp add: base_inv_def)
  with assms have "base_inv ((modify_node c f r)\<lparr>publications := pubs, subscriptions := subscriptions r\<rparr>)"
    by (intro base_inv_change)
  moreover have "(modify_node c f r)\<lparr>publications := pubs, subscriptions := subscriptions r\<rparr> =
      (modify_node c f r)\<lparr>publications := pubs\<rparr>"
    by (rule keep_field) (simp add: registry_simps)
  ultimately show ?thesis by simp
qed

lemma base_inv_change_subscriptions:
  assumes "base_inv r" "\<And>n. node_closed (f n) = node_closed n"
    and "mirrored (nodes (modify_node c f r)) node_publications (publications r)"
    and "mirrored (nodes (modify_node c f r)) node_subscriptions subs" "distinct (map fst subs)"
    and "\<And>n. set (node_services n) \<subseteq> set (node_services (f n))"
  shows "base_inv ((modify_node c f r)\<lparr>subscriptions := subs\<rparr>)"
proof -
  have "distinct (map fst (publications r))" using assms(1) by (simp add: base_inv_def)
  with assms have "base_inv ((modify_node c f r)\<lparr>publications := publications r, subscriptions := subs\<rparr>)"
    by (intro base_inv_change)
  moreover have "(modify_node c f r)\<lparr>publications := publications r\<rparr> = modify_node c f r"
    by (rule keep_field) (simp add: registry_simps)
  ultimately show ?thesis by simp
qed

text \<open>Updates of different fields commute.\<close>

lemma modify_node_fields [registry_simps]:
  "modify_node c f (r\<lparr>services := x\<rparr>) = (modify_node c f r)\<lparr>services := x\<rparr>"
  "modify_node c f (r\<lparr>publications := y\<rparr>) = (modify_node c f r)\<lparr>publications := y\<rparr>"
  "modify_node c f (r\<lparr>subscriptions := y\<rparr>) = (modify_node c f r)\<lparr>subscriptions := y\<rparr>"
  "modify_node c f (r\<lparr>param_subscribers := y\<rparr>) = (modify_node c f r)\<lparr>param_subscribers := y\<rparr>"
  by (simp_all add: modify_node_def split: option.splits)

lemma base_inv_param_subscribers [simp]:
  "base_inv (r\<lparr>param_subscribers := d\<rparr>) \<longleftrightarrow> base_inv r"
  by (simp add: base_inv_def services_known_def)

lemma others_registered_change:
  "others_registered c r \<Longrightarrow> (\<And>c'. c' \<noteq> c \<Longrightarrow> nodes r' c' = nodes r c') \<Longrightarrow> others_registered c r'"
  by (simp add: others_registered_def)

text \<open>The shapes of the operations: an addition for a caller, and a removal.\<close>

lemma core_inv_added:
  assumes r: "core_inv r"
    and b: "\<And>n. nodes (register_node c a r) c = Some n \<Longrightarrow> node_api n = a \<Longrightarrow>
      base_inv (register_node c a r) \<Longrightarrow> base_inv r'"
    and n: "\<And>c'. nodes r' c' = nodes (modify_node c f (register_node c a r)) c'"
    and any: "\<And>n. has_any_registration (f n)"
  shows "core_inv r'"
proof -
  obtain n where n1: "nodes (register_node c a r) c = Some n" "node_api n = a"
    using register_node_post by blast
  from r have "base_inv r" by (simp add: core_inv_def)
  then have "base_inv r'" using b [OF n1] base_inv_register_node by blast
  moreover have "others_registered c r'"
    using others_register_node [OF r, of c a] by (rule others_registered_change)
      (simp add: n registry_simps)
  ultimately show ?thesis
    by (rule core_invI) (use n1 any in \<open>simp_all add: n registry_simps\<close>)
qed

lemma core_inv_removed:
  assumes "core_inv r" "base_inv r'" "\<And>c'. nodes r' c' = nodes (modify_node c f r) c'"
  shows "core_inv (check_node c r')"
  using assms(2)
proof (rule core_inv_check_node)
  show "others_registered c r'"
    using core_inv_others [OF assms(1)] by (rule others_registered_change)
      (simp add: assms(3) registry_simps)
qed

theorem core_inv_empty: "core_inv empty_registry"
  by (simp add: core_inv_def base_inv_def mirrored_def services_known_def empty_registry_def
      members_at_def)

theorem core_inv_register_service:
  assumes "core_inv r" shows "core_inv (register_service name c a service_api r)"
  unfolding register_service_def Let_def
proof (rule core_inv_added [OF assms, where c = c and a = a and
    f = "\<lambda>n. n\<lparr>node_services := set_add name (node_services n)\<rparr>"])
  let ?r = "register_node c a r" and ?f = "\<lambda>n. n\<lparr>node_services := set_add name (node_services n)\<rparr>"
  fix n assume n: "nodes ?r c = Some n" "node_api n = a" and b: "base_inv ?r"
  let ?r' = "(modify_node c ?f ?r)\<lparr>services := AList.update name \<lparr>caller_id = c, reg_api = service_api\<rparr>
      (services (modify_node c ?f ?r))\<rparr>"
  have "services_known ?r'"
  proof (rule services_knownI)
    fix s reg assume s: "map_of (services ?r') s = Some reg"
    show "\<exists>n. nodes ?r' (caller_id reg) = Some n \<and> s \<in> set (node_services n)"
    proof (cases "s = name")
      case False
      with s have "map_of (services ?r) s = Some reg" by (simp add: registry_simps)
      with b obtain m where "nodes ?r (caller_id reg) = Some m" "s \<in> set (node_services m)"
        unfolding base_inv_def by (blast dest: services_knownD)
      then show ?thesis by (auto simp: registry_simps)
    qed (use s n in \<open>auto simp: registry_simps\<close>)
  qed
  moreover have "mirrored (nodes ?r') node_publications (publications ?r)"
    "mirrored (nodes ?r') node_subscriptions (subscriptions ?r)"
    using b by (simp_all add: base_inv_def mirrored_modify_other)
  ultimately show "base_inv ?r'"
    using b by (simp add: base_inv_def registry_simps option.pred_map o_def)
qed (simp_all add: has_any_registration_def registry_simps)

theorem core_inv_register_subscriber:
  assumes "core_inv r" shows "core_inv (register_subscriber topic ty c a r)"
  unfolding register_subscriber_def Let_def
proof (rule core_inv_added [where r = "register_topic topic ty r" and c = c and a = a and
    f = "\<lambda>n. n\<lparr>node_subscriptions := set_add topic (node_subscriptions n)\<rparr>"])
  let ?r = "register_node c a (register_topic topic ty r)"
  let ?f = "\<lambda>n. n\<lparr>node_subscriptions := set_add topic (node_subscriptions n)\<rparr>"
  fix n assume "nodes ?r c = Some n" "node_api n = a" "base_inv ?r"
  then have "base_inv ((modify_node c ?f ?r)\<lparr>subscriptions :=
      add_member topic \<lparr>caller_id = c, reg_api = a\<rparr> (subscriptions ?r)\<rparr>)"
    by (intro base_inv_change_subscriptions)
      (auto simp: base_inv_def registry_simps intro: mirrored_modify_other mirrored_modify_add)
  then show "base_inv ((modify_node c ?f ?r)\<lparr>subscriptions :=
      add_member topic \<lparr>caller_id = c, reg_api = a\<rparr> (subscriptions (modify_node c ?f ?r))\<rparr>)"
    by (simp add: registry_simps)
qed (use assms in \<open>simp_all add: has_any_registration_def registry_simps\<close>)

theorem core_inv_register_publisher:
  assumes "core_inv r" shows "core_inv (register_publisher topic ty c a r)"
  unfolding register_publisher_def Let_def core_inv_update_subscribers
proof (rule core_inv_added [where r = "register_topic topic ty r" and c = c and a = a and
    f = "\<lambda>n. n\<lparr>node_publications := set_add topic (node_publications n)\<rparr>"])
  let ?r = "register_node c a (register_topic topic ty r)"
  let ?f = "\<lambda>n. n\<lparr>node_publications := set_add topic (node_publications n)\<rparr>"
  fix n assume "nodes ?r c = Some n" "node_api n = a" "base_inv ?r"
  then have "base_inv ((modify_node c ?f ?r)\<lparr>publications := add_member topic
      \<lparr>caller_id = c, reg_api = a\<rparr> (publications ?r)\<rparr>)"
    by (intro base_inv_change_publications)
      (auto simp: base_inv_def registry_simps intro: mirrored_modify_other mirrored_modify_add)
  then show "base_inv ((modify_node c ?f ?r)\<lparr>publications :=
      add_member topic \<lparr>caller_id = c, reg_api = a\<rparr> (publications (modify_node c ?f ?r))\<rparr>)"
    by (simp add: registry_simps)
qed (use assms in \<open>simp_all add: has_any_registration_def registry_simps\<close>)

text \<open>A removal presupposes that the caller unregisters under its own address.\<close>

definition owns_address :: "string \<Rightarrow> string \<Rightarrow> registry \<Rightarrow> bool" where
  "owns_address c a r \<longleftrightarrow> pred_option (\<lambda>n. node_api n = a) (nodes r c)"

theorem core_inv_unregister_service:
  assumes "core_inv r" shows "core_inv (unregister_service service c r)"
  unfolding unregister_service_def
proof (rule core_inv_removed [OF assms])
  let ?f = "\<lambda>n. n\<lparr>node_services := set_discard service (node_services n)\<rparr>"
  let ?r' = "modify_node c ?f (r\<lparr>services := AList.delete service (services r)\<rparr>)"
  from assms have b: "base_inv r" by (simp add: core_inv_def)
  have "services_known ?r'"
  proof (rule services_knownI)
    fix s reg assume s: "map_of (services ?r') s = Some reg"
    then have "s \<noteq> service" and "map_of (services r) s = Some reg"
      by (simp_all add: registry_simps split: if_splits)
    with b obtain m where "nodes r (caller_id reg) = Some m" "s \<in> set (node_services m)"
      unfolding base_inv_def by (blast dest: services_knownD)
    with \<open>s \<noteq> service\<close> show "\<exists>n. nodes ?r' (caller_id reg) = Some n \<and> s \<in> set (node_services n)"
      by (auto simp: registry_simps)
  qed
  moreover have "mirrored (nodes ?r') node_publications (publications r)"
    "mirrored (nodes ?r') node_subscriptions (subscriptions r)"
    using b by (simp_all add: base_inv_def mirrored_modify_other)
  ultimately show "base_inv ?r'"
    using b by (simp add: base_inv_def registry_simps option.pred_map o_def)
qed (simp add: registry_simps)

theorem core_inv_unregister_subscriber:
  assumes "core_inv r" "owns_address c a r"
  shows "core_inv (unregister_subscriber topic c a r)"
  unfolding unregister_subscriber_def core_inv_topic
proof (rule core_inv_removed [OF assms(1)])
  let ?f = "\<lambda>n. n\<lparr>node_subscriptions := set_discard topic (node_subscriptions n)\<rparr>"
  have "base_inv ((modify_node c ?f r)\<lparr>subscriptions :=
      discard_member topic \<lparr>caller_id = c, reg_api = a\<rparr> (subscriptions r)\<rparr>)"
    by (intro base_inv_change_subscriptions) (use assms in \<open>auto simp: base_inv_def core_inv_def owns_address_def
      registry_simps intro: mirrored_modify_other mirrored_modify_discard\<close>)
  then show "base_inv (modify_node c ?f (r\<lparr>subscriptions :=
      discard_member topic \<lparr>caller_id = c, reg_api = a\<rparr> (subscriptions r)\<rparr>))"
    by (simp add: registry_simps)
qed (simp add: registry_simps)

theorem core_inv_unregister_publisher:
  assumes "core_inv r" "owns_address c a r"
  shows "core_inv (unregister_publisher topic c a r)"
  unfolding unregister_publisher_def core_inv_topic core_inv_update_subscribers
proof (rule core_inv_removed [OF assms(1)])
  let ?f = "\<lambda>n. n\<lparr>node_publications := set_discard topic (node_publications n)\<rparr>"
  have "base_inv ((modify_node c ?f r)\<lparr>publications :=
      discard_member topic \<lparr>caller_id = c, reg_api = a\<rparr> (publications r)\<rparr>)"
    by (intro base_inv_change_publications) (use assms in \<open>auto simp: base_inv_def core_inv_def owns_address_def
      registry_simps intro: mirrored_modify_other mirrored_modify_discard\<close>)
  then show "base_inv (modify_node c ?f (r\<lparr>publications :=
      discard_member topic \<lparr>caller_id = c, reg_api = a\<rparr> (publications r)\<rparr>))"
    by (simp add: registry_simps)
qed (simp add: registry_simps)

theorem core_inv_register_param_subscriber:
  assumes "core_inv r" shows "core_inv (snd (register_param_subscriber key c a r))"
proof (cases "normalize_namespace (join [key])")
  case (Inr key')
  let ?f = "\<lambda>n. n\<lparr>node_param_subscriptions := set_add key' (node_param_subscriptions n)\<rparr>"
  have "core_inv ((modify_node c ?f (register_node c a r))\<lparr>param_subscribers := d\<rparr>)" for d
  proof (rule core_inv_added [OF assms, where c = c and a = a and f = ?f])
    assume "base_inv (register_node c a r)"
    then have "base_inv ((modify_node c ?f (register_node c a r))
        \<lparr>publications := publications (register_node c a r)\<rparr>)"
      by (intro base_inv_change_publications)
        (auto simp: base_inv_def intro: mirrored_modify_other)
    moreover have "(modify_node c ?f (register_node c a r))
        \<lparr>publications := publications (register_node c a r)\<rparr> = modify_node c ?f (register_node c a r)"
      by (rule keep_field) (simp add: registry_simps)
    ultimately show "base_inv ((modify_node c ?f (register_node c a r))\<lparr>param_subscribers := d\<rparr>)"
      by simp
  qed (simp_all add: has_any_registration_def)
  then show ?thesis by (simp add: register_param_subscriber_def Let_def Inr)
qed (use assms in \<open>simp add: register_param_subscriber_def\<close>)

theorem core_inv_unregister_param_subscriber:
  assumes "core_inv r" shows "core_inv (snd (unregister_param_subscriber key c a r))"
proof (cases "normalize_namespace (join [key])")
  case (Inr key')
  let ?f = "\<lambda>n. n\<lparr>node_param_subscriptions := set_discard key' (node_param_subscriptions n)\<rparr>"
  from assms have "base_inv r" by (simp add: core_inv_def)
  then have "base_inv ((modify_node c ?f r)\<lparr>publications := publications r\<rparr>)"
    by (intro base_inv_change_publications) (auto simp: base_inv_def intro: mirrored_modify_other)
  moreover have "(modify_node c ?f r)\<lparr>publications := publications r\<rparr> = modify_node c ?f r"
    by (rule keep_field) (simp add: registry_simps)
  ultimately have "base_inv (modify_node c ?f (r\<lparr>param_subscribers := d\<rparr>))" for d
    by (simp add: registry_simps)
  then have "core_inv (check_node c (modify_node c ?f (r\<lparr>param_subscribers := d\<rparr>)))" for d
    by (rule core_inv_removed [OF assms]) (simp add: registry_simps)
  then show ?thesis by (simp add: unregister_param_subscriber_def Inr)
qed (use assms in \<open>simp add: unregister_param_subscriber_def\<close>)

section \<open>Parameter notifications\<close>

text \<open>Whatever \<open>on_param_update\<close> does, raising or not, is a delivery.\<close>

definition delivered :: "registry \<Rightarrow> registry \<Rightarrow> bool" where
  "delivered r r' \<longleftrightarrow> (\<exists>f. r' = deliver f r)"

lemma delivered_refl [simp]: "delivered r r"
  unfolding delivered_def by (rule exI [of _ "\<lambda>_. []"]) simp

lemma delivered_trans: "delivered r r' \<Longrightarrow> delivered r' r'' \<Longrightarrow> delivered r r''"
  by (auto simp: delivered_def deliver_deliver)

lemma delivered_send: "delivered r (snd (send_param_update key value reg r))"
proof (cases "nodes r (caller_id reg)")
  case (Some n)
  then show ?thesis
    by (auto simp: send_param_update_def node_param_update_def modify_node_send delivered_def)
qed (simp add: send_param_update_def)

text \<open>A contract that one queued parameter update meets is met by a whole notification.\<close>

locale registry_contract = step_contract allowed
  for allowed :: "registry \<Rightarrow> registry \<Rightarrow> bool" +
  assumes allowed_send_param_update: "allowed r (snd (send_param_update key value reg r))"
begin

lemma allowed_notify_related: "allowed r (snd (notify_related k v ks ignore entry r))"
  by (auto simp: notify_related_def intro: allowed_refl allowed_for_each allowed_send_param_update
      split: option.splits)

lemma allowed_notify_below: "allowed r (snd (notify_below k v key r))"
  by (auto simp: notify_below_def intro: allowed_refl allowed_for_each allowed_send_param_update
      split: option.splits sum.splits)

lemma allowed_on_param_update: "allowed r (snd (on_param_update key v ignore r))"
  unfolding on_param_update_def Let_def
  by (auto intro!: allowed_bind allowed_for_each allowed_notify_related allowed_notify_below
      intro: allowed_refl split: sum.splits option.splits)

end

interpretation delivery: registry_contract delivered
  by unfold_locales (auto intro: delivered_trans delivered_send)

theorem core_inv_on_param_update:
  "core_inv r \<Longrightarrow> core_inv (snd (on_param_update key value ignore r))"
  using delivery.allowed_on_param_update [of r key "value" ignore] by (auto simp: delivered_def)

end
