(* ===== verification/Registry_Updates.thy ===== *)
theory Registry_Updates
  imports Registry_Invariants
begin

text \<open>
  What the registry tells the subscribers of a topic. \<open>last_update\<close> is the last list of
  publishers of a topic in a queue of calls. \<open>keeps_informed\<close> is the contract of every
  operation: for a subscriber from before, either the publishers are as before and it is told
  nothing, or the last it is told is the list of publishers afterwards.
\<close>

section \<open>The contract\<close>

fun update_of :: "string \<Rightarrow> task \<Rightarrow> string list option" where
  "update_of topic (PublisherUpdate t publishers) = (if t = topic then Some publishers else None)"
| "update_of topic _ = None"

fun last_update :: "string \<Rightarrow> task list \<Rightarrow> string list option" where
  "last_update topic [] = None"
| "last_update topic (t # ts) =
     (case last_update topic ts of None \<Rightarrow> update_of topic t | Some l \<Rightarrow> Some l)"

lemma last_update_append [simp]:
  "last_update topic (ts @ us) =
     (case last_update topic us of None \<Rightarrow> last_update topic ts | Some l \<Rightarrow> Some l)"
  by (induction ts) (auto split: option.splits)

lemma last_update_replicate [simp]:
  "last_update topic (replicate k (PublisherUpdate t l)) = (if k > 0 \<and> t = topic then Some l else None)"
  by (induction k) auto

lemma last_update_None: "(\<And>t. t \<in> set ts \<Longrightarrow> update_of topic t = None) \<Longrightarrow> last_update topic ts = None"
  by (induction ts) auto

definition told_right :: "registry \<Rightarrow> registry \<Rightarrow> string \<Rightarrow> task list \<Rightarrow> bool" where
  "told_right r r' topic ts \<longleftrightarrow>
     (case last_update topic ts of
        None \<Rightarrow> publisher_apis r' topic = publisher_apis r topic
      | Some l \<Rightarrow> l = publisher_apis r' topic)"

definition keeps_informed :: "registry \<Rightarrow> registry \<Rightarrow> bool" where
  "keeps_informed r r' \<longleftrightarrow>
     (\<forall>topic reg n'. reg \<in> set (members_at (subscriptions r') topic) \<longrightarrow>
        nodes r' (caller_id reg) = Some n' \<longrightarrow>
        reg \<in> set (members_at (subscriptions r) topic) \<and>
        (\<exists>n ts. nodes r (caller_id reg) = Some n \<and> node_outbox n' = node_outbox n @ ts \<and>
           told_right r r' topic ts))"

lemma keeps_informedI:
  "(\<And>topic reg n'. reg \<in> set (members_at (subscriptions r') topic) \<Longrightarrow>
      nodes r' (caller_id reg) = Some n' \<Longrightarrow>
      reg \<in> set (members_at (subscriptions r) topic) \<and>
      (\<exists>n ts. nodes r (caller_id reg) = Some n \<and> node_outbox n' = node_outbox n @ ts \<and>
         told_right r r' topic ts)) \<Longrightarrow> keeps_informed r r'"
  by (simp add: keeps_informed_def)

lemma keeps_informedD:
  "keeps_informed r r' \<Longrightarrow> reg \<in> set (members_at (subscriptions r') topic) \<Longrightarrow>
     nodes r' (caller_id reg) = Some n' \<Longrightarrow>
     reg \<in> set (members_at (subscriptions r) topic) \<and>
      (\<exists>n ts. nodes r (caller_id reg) = Some n \<and> node_outbox n' = node_outbox n @ ts \<and>
         told_right r r' topic ts)"
  unfolding keeps_informed_def by blast

lemma told_right_trans:
  "told_right r r' topic ts \<Longrightarrow> told_right r' r'' topic us \<Longrightarrow> told_right r r'' topic (ts @ us)"
  by (auto simp: told_right_def split: option.splits)

lemma keeps_informed_trans [trans]:
  assumes "keeps_informed r r'" "keeps_informed r' r''"
  shows "keeps_informed r r''"
proof (rule keeps_informedI)
  fix topic reg n''
  assume "reg \<in> set (members_at (subscriptions r'') topic)" "nodes r'' (caller_id reg) = Some n''"
  from keeps_informedD [OF assms(2) this] obtain n' us where
    r': "reg \<in> set (members_at (subscriptions r') topic)" "nodes r' (caller_id reg) = Some n'"
    and us: "node_outbox n'' = node_outbox n' @ us" "told_right r' r'' topic us" by blast
  from keeps_informedD [OF assms(1) r'] us told_right_trans
  show "reg \<in> set (members_at (subscriptions r) topic) \<and>
      (\<exists>n ts. nodes r (caller_id reg) = Some n \<and> node_outbox n'' = node_outbox n @ ts \<and>
         told_right r r'' topic ts)"
    by fastforce
qed

text \<open>A step that changes no publishers and no queue.\<close>

lemma keeps_informed_quiet:
  assumes "\<And>t. publisher_apis r' t = publisher_apis r t"
    and "\<And>t reg. reg \<in> set (members_at (subscriptions r') t) \<Longrightarrow>
      nodes r' (caller_id reg) \<noteq> None \<Longrightarrow>
      reg \<in> set (members_at (subscriptions r) t) \<and>
      map_option node_outbox (nodes r' (caller_id reg)) = map_option node_outbox (nodes r (caller_id reg))"
  shows "keeps_informed r r'"
proof (rule keeps_informedI)
  fix topic reg n'
  assume reg: "reg \<in> set (members_at (subscriptions r') topic)" and n': "nodes r' (caller_id reg) = Some n'"
  with assms(2) [OF reg] obtain n where "nodes r (caller_id reg) = Some n" "node_outbox n' = node_outbox n"
    by (cases "nodes r (caller_id reg)") auto
  with assms(1) assms(2) [OF reg] n' show "reg \<in> set (members_at (subscriptions r) topic) \<and>
      (\<exists>n ts. nodes r (caller_id reg) = Some n \<and> node_outbox n' = node_outbox n @ ts \<and>
         told_right r r' topic ts)"
    by (auto simp: told_right_def intro!: exI [of _ "[]"])
qed

lemma keeps_informed_refl [simp]: "keeps_informed r r"
  by (rule keeps_informed_quiet) auto

text \<open>A change of the publishers of one topic, followed by \<open>_update_subscribers\<close> on it.\<close>

lemma keeps_informed_update:
  assumes "\<And>t. t \<noteq> topic \<Longrightarrow> publisher_apis r' t = publisher_apis r t"
    and "subscriptions r' = subscriptions r"
    and "\<And>c n'. nodes r' c = Some n' \<Longrightarrow> c \<in> caller_id ` (\<Union>t. set (members_at (subscriptions r) t)) \<Longrightarrow>
      \<exists>n. nodes r c = Some n \<and> node_outbox n' = node_outbox n"
  shows "keeps_informed r (update_subscribers topic r')"
proof (rule keeps_informedI)
  fix t reg n''
  let ?r'' = "update_subscribers topic r'"
  assume reg: "reg \<in> set (members_at (subscriptions ?r'') t)" and n'': "nodes ?r'' (caller_id reg) = Some n''"
  let ?k = "length (filter (\<lambda>reg'. caller_id reg' = caller_id reg) (members_at (subscriptions r) topic))"
  from n'' assms(2) obtain n' where n': "nodes r' (caller_id reg) = Some n'"
    "n'' = extend_outbox (replicate ?k (PublisherUpdate topic (publisher_apis r' topic))) n'"
    by (auto simp: registry_simps)
  from reg assms(2) have reg': "reg \<in> set (members_at (subscriptions r) t)" by (simp add: registry_simps)
  with assms(3) [OF n'(1)] obtain n where n: "nodes r (caller_id reg) = Some n" "node_outbox n' = node_outbox n"
    by blast
  have k: "?k > 0" if "t = topic"
    using reg' that by (auto simp: filter_empty_conv)
  then have "told_right r ?r'' t (replicate ?k (PublisherUpdate topic (publisher_apis r' topic)))"
    using assms(1) by (auto simp: told_right_def registry_simps)
  with n n'(2) reg' show "reg \<in> set (members_at (subscriptions r) t) \<and>
      (\<exists>n ts. nodes r (caller_id reg) = Some n \<and> node_outbox n'' = node_outbox n @ ts \<and>
         told_right r ?r'' t ts)"
    by (auto simp: registry_simps)
qed

section \<open>Every operation keeps subscribers informed\<close>

lemma keeps_informed_drop_publisher: "keeps_informed r (drop_publisher c topic reg r)"
proof (cases "caller_id reg = c")
  case True
  show ?thesis
    unfolding drop_publisher_def if_P [OF True]
    by (rule keeps_informed_update) auto
qed (simp add: drop_publisher_def)

interpretation informing: step_contract keeps_informed
  by unfold_locales (auto intro: keeps_informed_trans)

lemma keeps_informed_unregister_all: "keeps_informed r (unregister_all c r)"
proof -
  let ?r1 = "r\<lparr>services := filter (\<lambda>(service, reg). caller_id reg \<noteq> c) (services r)\<rparr>"
  let ?r2 = "fold (drop_topic c) (publications ?r1) ?r1"
  have "keeps_informed r ?r1" by (rule keeps_informed_quiet) auto
  moreover have "keeps_informed ?r1 ?r2"
    by (rule informing.allowed_fold)
      (auto intro: informing.allowed_fold keeps_informed_drop_publisher split: prod.splits)
  moreover have "keeps_informed ?r2 (unregister_all c r)"
    unfolding unregister_all_def Let_def by (rule keeps_informed_quiet) auto
  ultimately show ?thesis by (blast intro: keeps_informed_trans)
qed

lemma keeps_informed_send:
  assumes "\<And>topic. update_of topic t = None"
  shows "keeps_informed r (modify_node c (send_task t) r)"
proof (rule keeps_informedI)
  fix topic reg n'
  assume "reg \<in> set (members_at (subscriptions (modify_node c (send_task t) r)) topic)"
    "nodes (modify_node c (send_task t) r) (caller_id reg) = Some n'"
  then show "reg \<in> set (members_at (subscriptions r) topic) \<and>
      (\<exists>n ts. nodes r (caller_id reg) = Some n \<and> node_outbox n' = node_outbox n @ ts \<and>
         told_right r (modify_node c (send_task t) r) topic ts)"
    using assms
    by (auto simp: modify_node_send registry_simps told_right_def
        intro!: exI [of _ "if caller_id reg = c then [t] else []"])
qed

lemma no_subscriptions_of:
  assumes "core_inv r" "nodes r c = None"
  shows "reg \<in> set (members_at (subscriptions r) t) \<Longrightarrow> caller_id reg \<noteq> c"
  using assms mirroredD [of "nodes r" node_subscriptions "subscriptions r" reg t]
  by (auto simp: core_inv_def base_inv_def)

lemma keeps_informed_register_node:
  assumes "core_inv r" shows "keeps_informed r (register_node c a r)"
proof (cases rule: register_node_cases [where r = r and c = c and a = a])
  case same
  then show ?thesis by simp
next
  case fresh
  show ?thesis
    unfolding fresh(2)
    by (rule keeps_informed_quiet)
      (use no_subscriptions_of [OF assms fresh(1)] in \<open>auto simp: registry_simps\<close>)
next
  case (replaced n old)
  let ?m = "modify_node c (node_shutdown ''new node registered with same name'') r"
  have "keeps_informed r ?m"
    unfolding node_shutdown_def by (rule keeps_informed_send) simp
  also have "keeps_informed ?m (unregister_all c ?m)" by (rule keeps_informed_unregister_all)
  finally have "keeps_informed r (unregister_all c ?m)" .
  moreover have "keeps_informed (unregister_all c ?m) (register_node c a r)"
    unfolding replaced(4) by (rule keeps_informed_quiet) (auto simp: registry_simps)
  ultimately show ?thesis by (rule keeps_informed_trans)
qed

lemma keeps_informed_modify:
  "(\<And>n. node_outbox (f n) = node_outbox n) \<Longrightarrow> keeps_informed r (modify_node c f r)"
  by (rule keeps_informed_quiet) (auto simp: registry_simps option.map_comp o_def)

lemma keeps_informed_check_node: "keeps_informed r (check_node c r)"
  by (rule keeps_informed_quiet) (auto simp: registry_simps split: option.splits if_splits)

lemma keeps_informed_topic:
  "keeps_informed r (register_topic t ty r)" "keeps_informed r (check_topic t r)"
  by (rule keeps_informed_quiet; auto simp: registry_simps)+

lemma core_inv_register_topic: "core_inv r \<Longrightarrow> core_inv (register_topic t ty r)"
  by simp

lemmas keeps_informed_steps =
  keeps_informed_modify keeps_informed_check_node keeps_informed_topic keeps_informed_register_node

lemma keeps_informed_register_service:
  assumes "core_inv r" shows "keeps_informed r (register_service name c a service_api r)"
proof -
  let ?r1 = "register_node c a r"
  let ?r2 = "modify_node c (\<lambda>n. n\<lparr>node_services := set_add name (node_services n)\<rparr>) ?r1"
  have "keeps_informed r ?r1" by (rule keeps_informed_register_node [OF assms])
  also have "keeps_informed ?r1 ?r2" by (rule keeps_informed_modify) simp
  also have "keeps_informed ?r2 (register_service name c a service_api r)"
    unfolding register_service_def Let_def by (rule keeps_informed_quiet) auto
  finally show ?thesis .
qed

lemma keeps_informed_unregister_service: "keeps_informed r (unregister_service service c r)"
  unfolding unregister_service_def
  by (rule keeps_informed_trans [OF _ keeps_informed_check_node],
      rule keeps_informed_trans [OF _ keeps_informed_modify])
    (auto intro: keeps_informed_quiet)

lemma keeps_informed_unregister_subscriber: "keeps_informed r (unregister_subscriber topic c a r)"
  unfolding unregister_subscriber_def
  by (rule keeps_informed_trans [OF _ keeps_informed_topic(2)],
      rule keeps_informed_trans [OF _ keeps_informed_check_node],
      rule keeps_informed_trans [OF _ keeps_informed_modify])
    (auto intro!: keeps_informed_quiet split: if_splits)

lemma keeps_informed_register_publisher:
  assumes "core_inv r" shows "keeps_informed r (register_publisher topic ty c a r)"
proof -
  let ?r1 = "register_topic topic ty r"
  let ?r2 = "register_node c a ?r1"
  have "keeps_informed r ?r1" by (rule keeps_informed_topic)
  also have "keeps_informed ?r1 ?r2" by (rule keeps_informed_register_node) (use assms in simp)
  also have "keeps_informed ?r2 (register_publisher topic ty c a r)"
    unfolding register_publisher_def Let_def
    by (rule keeps_informed_update) (auto simp: registry_simps split: if_splits)
  finally show ?thesis .
qed

lemma keeps_informed_unregister_publisher: "keeps_informed r (unregister_publisher topic c a r)"
  unfolding unregister_publisher_def
  by (rule keeps_informed_update)
    (auto simp: registry_simps split: if_splits option.splits)

lemma keeps_informed_register_param_subscriber:
  assumes "core_inv r" shows "keeps_informed r (snd (register_param_subscriber key c a r))"
proof (cases "normalize_namespace (join [key])")
  case (Inr key')
  let ?r1 = "register_node c a r"
  let ?r2 = "modify_node c
    (\<lambda>n. n\<lparr>node_param_subscriptions := set_add key' (node_param_subscriptions n)\<rparr>) ?r1"
  have "keeps_informed r ?r1" by (rule keeps_informed_register_node [OF assms])
  also have "keeps_informed ?r1 ?r2" by (rule keeps_informed_modify) simp
  also have "keeps_informed ?r2 (snd (register_param_subscriber key c a r))"
    by (rule keeps_informed_quiet) (auto simp: register_param_subscriber_def Let_def Inr)
  finally show ?thesis .
qed (simp add: register_param_subscriber_def)

lemma keeps_informed_unregister_param_subscriber:
  "keeps_informed r (snd (unregister_param_subscriber key c a r))"
proof (cases "normalize_namespace (join [key])")
  case (Inr key')
  show ?thesis
    unfolding unregister_param_subscriber_def Inr sum.case snd_conv
    by (rule keeps_informed_trans [OF _ keeps_informed_check_node],
        rule keeps_informed_trans [OF _ keeps_informed_modify])
      (auto intro: keeps_informed_quiet)
qed (simp add: unregister_param_subscriber_def)

text \<open>A parameter notification sends no list of publishers.\<close>

lemma keeps_informed_send_param: "keeps_informed r (snd (send_param_update key value reg r))"
  using keeps_informed_send [of "ParamUpdate key value" r "caller_id reg"]
  by (auto simp: send_param_update_def node_param_update_def split: option.splits)

interpretation informed: registry_contract keeps_informed
  by unfold_locales (auto intro: keeps_informed_trans keeps_informed_send_param)

lemmas keeps_informed_on_param_update = informed.allowed_on_param_update

end
