(* ===== verification/Registry_Notify.thy ===== *)
theory Registry_Notify
  imports Registry_Invariants
begin

text \<open>
  What \<open>on_param_update\<close> sends, in terms of paths: the keys of \<open>param_subscribers\<close>
  are the normalised namespaces of paths, and each subscriber hears of an update at, above or
  below its own path.
\<close>

section \<open>Well-formed parameter subscriptions\<close>

definition param_subs_ok :: "registry \<Rightarrow> bool" where
  "param_subs_ok r \<longleftrightarrow> distinct (map fst (param_subscribers r)) \<and>
     (\<forall>entry\<in>set (param_subscribers r). \<exists>ps. valid_path ps \<and> fst entry = ns_key ps)"

definition param_subs_known :: "registry \<Rightarrow> bool" where
  "param_subs_known r \<longleftrightarrow>
     (\<forall>entry\<in>set (param_subscribers r). \<forall>reg\<in>set (snd entry). nodes r (caller_id reg) \<noteq> None)"

text \<open>The paths a caller follows.\<close>

definition follows :: "registry \<Rightarrow> string \<Rightarrow> string list \<Rightarrow> bool" where
  "follows r c ps \<longleftrightarrow> valid_path ps \<and> c \<in> caller_id ` set (members_at (param_subscribers r) (ns_key ps))"

lemma ns_key_inj: "valid_path ps \<Longrightarrow> valid_path qs \<Longrightarrow> ns_key ps = ns_key qs \<longleftrightarrow> ps = qs"
  by (metis split_ns_key)

lemma butlast_ns_key [simp]: "butlast (ns_key ps) = abs_path ps"
  by (simp add: ns_key_def)

lemma normalize_join_eq:
  "normalize_namespace (join [key]) = Inr key' \<Longrightarrow> key' = ns_key (split key)"
  using normalize_join [of key] by (auto simp: normalize_namespace_def split: if_splits)

lemma split_below:
  "valid_path ps \<Longrightarrow> valid_path qs \<Longrightarrow> qs \<noteq> [] \<Longrightarrow> split (drop (length (ns_key ps)) (ns_key (ps @ qs))) = qs"
proof (cases qs)
  case (Cons q qs')
  assume v: "valid_path qs"
  have "ns_key (ps @ qs) = ns_key ps @ (q @ abs_path qs' @ ''/'')"
    by (simp add: ns_key_def Cons)
  then have "split (drop (length (ns_key ps)) (ns_key (ps @ qs))) = split (q @ abs_path qs' @ ''/'')"
    by simp
  also have "\<dots> = split (ns_key qs)"
    by (simp add: ns_key_def Cons)
  finally show ?thesis using v by (simp add: path_simps)
qed simp

text \<open>\<open>compute_all_keys\<close> names every path below the dict, and \<open>index_path\<close> finds it.\<close>

lemma index_path_val_at: "index_path v qs = Inr w \<longleftrightarrow> val_at v qs = Some w"
  by (induction v qs rule: index_path.induct) (auto split: option.splits)

lemma set_compute_all_keys:
  "wf_params d \<Longrightarrow> key \<in> set (compute_all_keys (ns_key ps) d) \<longleftrightarrow>
     (\<exists>qs. qs \<noteq> [] \<and> val_at (PDict d) qs \<noteq> None \<and> key = ns_key (ps @ qs))"
proof (induction "ns_key ps" d arbitrary: ps rule: compute_all_keys.induct)
  case (1 ps)
  then show ?case by (auto simp: neq_Nil_conv)
next
  case (2 k v rest)
  let ?key' = "ns_key ps @ k @ ''/''"
  have key': "?key' = ns_key (ps @ [k])" by (simp add: ns_key_def)
  from "2.prems" have dist: "k \<notin> fst ` set rest" and wf: "wf_val v" "wf_params rest"
    by (auto simp: wf_val.simps(1))
  have below: "key \<in> set (case v of PDict d \<Rightarrow> compute_all_keys ?key' d | _ \<Rightarrow> []) \<longleftrightarrow>
      (\<exists>qs. qs \<noteq> [] \<and> val_at v qs \<noteq> None \<and> key = ns_key (ps @ k # qs))"
  proof (cases v)
    case (PDict d)
    have "wf_params d" using wf(1) PDict by simp
    from "2.hyps"(1) [OF key' [symmetric] PDict this] show ?thesis
      unfolding PDict key' by simp
  qed (auto simp: neq_Nil_conv)
  have rest: "key \<in> set (compute_all_keys (ns_key ps) rest) \<longleftrightarrow>
      (\<exists>qs. qs \<noteq> [] \<and> val_at (PDict rest) qs \<noteq> None \<and> key = ns_key (ps @ qs))"
    using "2.hyps"(2) [OF refl refl] wf by simp
  have "val_at (PDict rest) (k # qs) = None" for qs
    using dist by (simp add: map_of_eq_None_iff [THEN iffD2])
  then have at: "val_at (PDict ((k, v) # rest)) (q # qs) \<noteq> None \<longleftrightarrow>
      q = k \<and> val_at v qs \<noteq> None \<or> val_at (PDict rest) (q # qs) \<noteq> None" for q qs
    by (cases "q = k") auto
  have ex: "(\<exists>qs. qs \<noteq> [] \<and> P qs) \<longleftrightarrow> (\<exists>q qs. P (q # qs))" for P :: "string list \<Rightarrow> bool"
    by (auto simp: neq_Nil_conv)
  have "(\<exists>qs. qs \<noteq> [] \<and> val_at (PDict ((k, v) # rest)) qs \<noteq> None \<and> key = ns_key (ps @ qs)) \<longleftrightarrow>
      (\<exists>qs. val_at v qs \<noteq> None \<and> key = ns_key (ps @ k # qs)) \<or>
      (\<exists>qs. qs \<noteq> [] \<and> val_at (PDict rest) qs \<noteq> None \<and> key = ns_key (ps @ qs))"
    unfolding ex at by blast
  also have "(\<exists>qs. val_at v qs \<noteq> None \<and> key = ns_key (ps @ k # qs)) \<longleftrightarrow>
      key = ns_key (ps @ [k]) \<or> (\<exists>qs. qs \<noteq> [] \<and> val_at v qs \<noteq> None \<and> key = ns_key (ps @ k # qs))"
    using val_at.simps(1) [of v] by (metis option.distinct(1))
  finally have split: "(\<exists>qs. qs \<noteq> [] \<and> val_at (PDict ((k, v) # rest)) qs \<noteq> None \<and> key = ns_key (ps @ qs)) \<longleftrightarrow>
      (key = ns_key (ps @ [k]) \<or> (\<exists>qs. qs \<noteq> [] \<and> val_at v qs \<noteq> None \<and> key = ns_key (ps @ k # qs))) \<or>
      (\<exists>qs. qs \<noteq> [] \<and> val_at (PDict rest) qs \<noteq> None \<and> key = ns_key (ps @ qs))" .
  show ?case
    unfolding compute_all_keys.simps Let_def list.set set_append Un_iff insert_iff below rest split
    unfolding key' by blast
qed

section \<open>The two loops as deliveries\<close>

definition task_for :: "registration list \<Rightarrow> task \<Rightarrow> string \<Rightarrow> task list" where
  "task_for regs t c = replicate (length (filter (\<lambda>reg. caller_id reg = c) regs)) t"

lemma set_task_for: "set (task_for regs t c) = (if c \<in> caller_id ` set regs then {t} else {})"
  by (auto simp: task_for_def filter_empty_conv)

lemma for_each_deliver:
  assumes "\<And>x g. x \<in> set xs \<Longrightarrow> body x (deliver g r) = (Inr (), deliver (f x) (deliver g r))"
  shows "for_each body xs (deliver g r) = (Inr (), deliver (\<lambda>c. concat (map (\<lambda>x. f x c) xs)) (deliver g r))"
  using assms
proof (induction xs arbitrary: g)
  case (Cons x xs)
  have "for_each body xs (deliver (f x) (deliver g r)) =
      (Inr (), deliver (\<lambda>c. concat (map (\<lambda>x. f x c) xs)) (deliver (f x) (deliver g r)))"
    using Cons.IH [of "\<lambda>c. g c @ f x c"] Cons.prems by (simp add: deliver_deliver)
  with Cons.prems [of x g] show ?case by (simp add: deliver_deliver)
qed simp

lemma send_param_deliver:
  assumes "nodes r (caller_id reg) \<noteq> None"
  shows "send_param_update key value reg (deliver g r) =
    (Inr (), deliver (task_for [reg] (ParamUpdate key value)) (deliver g r))"
  using assms
  by (auto simp: send_param_update_def registry_simps node_param_update_def modify_node_send
      task_for_def intro!: arg_cong [of _ _ "\<lambda>f. deliver f _"] ext split: option.splits)

lemma concat_task_for: "concat (map (\<lambda>reg. task_for [reg] t c) regs) = task_for regs t c"
  by (induction regs) (auto simp: task_for_def)

lemma send_params_deliver:
  assumes "\<And>reg. reg \<in> set regs \<Longrightarrow> nodes r (caller_id reg) \<noteq> None"
  shows "for_each (send_param_update key value) regs (deliver g r) =
    (Inr (), deliver (task_for regs (ParamUpdate key value)) (deliver g r))"
  using for_each_deliver [where xs = regs and body = "send_param_update key value" and r = r and g = g
      and f = "\<lambda>reg. task_for [reg] (ParamUpdate key value)"]
    send_param_deliver assms
  by (simp add: concat_task_for)

definition related_tasks ::
    "string \<Rightarrow> pyval \<Rightarrow> string list option \<Rightarrow> string \<Rightarrow> string \<times> registration list \<Rightarrow> string \<Rightarrow> task list" where
  "related_tasks k v ks ignore entry c =
     (case related_update k v ks (fst entry) of
        None \<Rightarrow> []
      | Some (key, value) \<Rightarrow>
          task_for (filter (\<lambda>reg. caller_id reg \<noteq> ignore) (snd entry)) (ParamUpdate (butlast key) value) c)"

lemma notify_related_deliver:
  assumes "\<And>reg. reg \<in> set (snd entry) \<Longrightarrow> nodes r (caller_id reg) \<noteq> None"
  shows "notify_related k v ks ignore entry (deliver g r) =
    (Inr (), deliver (related_tasks k v ks ignore entry) (deliver g r))"
proof -
  have "for_each (send_param_update key value) (filter (\<lambda>reg. caller_id reg \<noteq> ignore) (snd entry))
      (deliver g r) = (Inr (), deliver (task_for (filter (\<lambda>reg. caller_id reg \<noteq> ignore) (snd entry))
        (ParamUpdate key value)) (deliver g r))" for key "value"
    by (rule send_params_deliver) (use assms in auto)
  then show ?thesis
    by (cases "related_update k v ks (fst entry)")
      (auto simp: notify_related_def related_tasks_def [abs_def])
qed

definition below_tasks ::
    "registry \<Rightarrow> string \<Rightarrow> pyval \<Rightarrow> string \<Rightarrow> string \<Rightarrow> task list" where
  "below_tasks r k v key c =
     (case index_path v (split (drop (length k) key)) of
        Inl e \<Rightarrow> []
      | Inr value \<Rightarrow> task_for (members_at (param_subscribers r) key) (ParamUpdate (butlast key) value) c)"

lemma notify_below_deliver:
  assumes "param_subs_known r" "index_path v (split (drop (length k) key)) = Inr w"
  shows "notify_below k v key (deliver g r) = (Inr (), deliver (below_tasks r k v key) (deliver g r))"
proof (cases "map_of (param_subscribers r) key")
  case None
  then show ?thesis
    using assms
    by (simp add: notify_below_def below_tasks_def [abs_def] registry_simps members_at_def task_for_def)
next
  case (Some regs)
  then have "(key, regs) \<in> set (param_subscribers r)" by (rule map_of_SomeD)
  with assms(1) have "nodes r (caller_id reg) \<noteq> None" if "reg \<in> set regs" for reg
    using that unfolding param_subs_known_def by fastforce
  then have "for_each (send_param_update (butlast key) w) regs (deliver g r) =
      (Inr (), deliver (task_for regs (ParamUpdate (butlast key) w)) (deliver g r))"
    by (rule send_params_deliver)
  with Some assms(2) show ?thesis
    by (simp add: notify_below_def below_tasks_def [abs_def] registry_simps members_at_def)
qed

section \<open>What a notification sends\<close>

definition notified :: "registry \<Rightarrow> string list \<Rightarrow> pyval \<Rightarrow> string \<Rightarrow> string \<Rightarrow> task \<Rightarrow> bool" where
  "notified r path v ignore c t \<longleftrightarrow>
     (c \<noteq> ignore \<and> t = ParamUpdate (abs_path path) v \<and> (\<exists>ps. follows r c ps \<and> prefix ps path)) \<or>
     (\<exists>ps. follows r c (path @ ps) \<and> ps \<noteq> [] \<and>
        (case val_at v ps of
           Some w \<Rightarrow> t = ParamUpdate (abs_path (path @ ps)) w
         | None \<Rightarrow> c \<noteq> ignore \<and> is_dict v \<and> t = ParamUpdate (abs_path (path @ ps)) (PDict [])))"

lemma members_at_distinct:
  "distinct (map fst d) \<Longrightarrow> (k, xs) \<in> set d \<Longrightarrow> members_at d k = xs"
  by (simp add: members_at_def)

lemma follows_entry:
  assumes "param_subs_ok r"
  shows "follows r c ps \<longleftrightarrow>
    (\<exists>regs. (ns_key ps, regs) \<in> set (param_subscribers r) \<and> valid_path ps \<and> c \<in> caller_id ` set regs)"
proof -
  have "distinct (map fst (param_subscribers r))" using assms by (simp add: param_subs_ok_def)
  note same = members_at_distinct [OF this]
  show ?thesis
    unfolding follows_def using members_atD [of _ "param_subscribers r" "ns_key ps"]
    by (auto simp: same) (auto dest: same)
qed

lemma all_keys_of_path:
  assumes "wf_val v"
  shows "(case all_keys_of (ns_key path) v of None \<Rightarrow> \<not> is_dict v
     | Some ks \<Rightarrow> is_dict v \<and> (\<forall>key. key \<in> set ks \<longleftrightarrow>
         (\<exists>qs. qs \<noteq> [] \<and> val_at v qs \<noteq> None \<and> key = ns_key (path @ qs))))"
  using assms by (cases v) (simp_all add: all_keys_of_def set_compute_all_keys)

lemma related_tasks_path:
  assumes "wf_val v" "valid_path path" "valid_path ps"
  shows "t \<in> set (related_tasks (ns_key path) v (all_keys_of (ns_key path) v) ignore (ns_key ps, regs) c) \<longleftrightarrow>
    c \<noteq> ignore \<and> c \<in> caller_id ` set regs \<and>
    (prefix ps path \<and> t = ParamUpdate (abs_path path) v \<or>
     (\<exists>qs. ps = path @ qs \<and> qs \<noteq> [] \<and> is_dict v \<and> val_at v qs = None \<and>
        t = ParamUpdate (abs_path ps) (PDict [])))"
proof -
  have in_keys: "ns_key (path @ qs) \<in> set ks \<longleftrightarrow> qs \<noteq> [] \<and> val_at v qs \<noteq> None"
    if "all_keys_of (ns_key path) v = Some ks" "valid_path (path @ qs)" for ks qs
  proof -
    have "valid_path (path @ qs')" if "val_at v qs' \<noteq> None" for qs'
      using that assms(2) valid_path_val_at [OF assms(1)] by auto
    then have eq: "ns_key (path @ qs) = ns_key (path @ qs') \<longleftrightarrow> qs = qs'" if "val_at v qs' \<noteq> None" for qs'
      using ns_key_inj [of "path @ qs" "path @ qs'"] that \<open>valid_path (path @ qs)\<close> by simp
    have "ns_key (path @ qs) \<in> set ks \<longleftrightarrow>
        (\<exists>qs'. qs' \<noteq> [] \<and> val_at v qs' \<noteq> None \<and> ns_key (path @ qs) = ns_key (path @ qs'))"
      using all_keys_of_path [OF assms(1), of path] that(1) by simp
    with eq show ?thesis by blast
  qed
  have rel: "related_update (ns_key path) v (all_keys_of (ns_key path) v) (ns_key ps) =
      (if prefix ps path then Some (ns_key path, v)
       else if is_dict v \<and> (\<exists>qs. ps = path @ qs \<and> qs \<noteq> [] \<and> val_at v qs = None) then Some (ns_key ps, PDict [])
       else None)"
  proof (cases "prefix ps path")
    case True
    with assms(2,3) show ?thesis by (simp add: related_update_def prefix_ns_key)
  next
    case False
    show ?thesis
    proof (cases "all_keys_of (ns_key path) v")
      case None
      with False assms(2,3) all_keys_of_path [OF assms(1), of path] show ?thesis
        by (simp add: related_update_def prefix_ns_key)
    next
      case (Some ks)
      then have "is_dict v" using all_keys_of_path [OF assms(1), of path] by simp
      moreover have "prefix path ps \<and> ns_key ps \<notin> set ks \<longleftrightarrow>
          (\<exists>qs. ps = path @ qs \<and> qs \<noteq> [] \<and> val_at v qs = None)"
        using in_keys [OF Some] assms(3) False unfolding prefix_def by auto
      ultimately show ?thesis
        using Some False assms(2,3) by (simp add: related_update_def prefix_ns_key)
    qed
  qed
  show ?thesis
    by (auto simp: related_tasks_def rel set_task_for image_iff)
qed

lemma case_option_disj:
  "(case x of None \<Rightarrow> Q | Some w \<Rightarrow> P w) \<longleftrightarrow> (\<exists>w. x = Some w \<and> P w) \<or> (x = None \<and> Q)"
  by (cases x) auto

text \<open>All calls of the first loop, and of the second.\<close>

definition related_all :: "registry \<Rightarrow> string list \<Rightarrow> pyval \<Rightarrow> string \<Rightarrow> string \<Rightarrow> task list" where
  "related_all r path v ignore c =
     concat (map (\<lambda>e. related_tasks (ns_key path) v (all_keys_of (ns_key path) v) ignore e c)
       (param_subscribers r))"

definition below_all :: "registry \<Rightarrow> string list \<Rightarrow> pyval \<Rightarrow> string \<Rightarrow> task list" where
  "below_all r path v c =
     concat (map (\<lambda>key. below_tasks r (ns_key path) v key c)
       (case all_keys_of (ns_key path) v of None \<Rightarrow> [] | Some ks \<Rightarrow> ks))"

lemma set_related_all:
  assumes ok: "param_subs_ok r" and wf: "wf_val v" and vp: "valid_path path"
  shows "t \<in> set (related_all r path v ignore c) \<longleftrightarrow> c \<noteq> ignore \<and>
     (t = ParamUpdate (abs_path path) v \<and> (\<exists>ps. follows r c ps \<and> prefix ps path) \<or>
      (\<exists>qs. follows r c (path @ qs) \<and> qs \<noteq> [] \<and> is_dict v \<and> val_at v qs = None \<and>
         t = ParamUpdate (abs_path (path @ qs)) (PDict [])))"
proof -
  let ?t = "\<lambda>ps regs. related_tasks (ns_key path) v (all_keys_of (ns_key path) v) ignore (ns_key ps, regs) c"
  have "t \<in> set (related_all r path v ignore c) \<longleftrightarrow>
      (\<exists>ps regs. (ns_key ps, regs) \<in> set (param_subscribers r) \<and> valid_path ps \<and> t \<in> set (?t ps regs))"
    using ok unfolding param_subs_ok_def related_all_def by fastforce
  also have "\<dots> \<longleftrightarrow> (\<exists>ps regs. (ns_key ps, regs) \<in> set (param_subscribers r) \<and> valid_path ps \<and>
      c \<noteq> ignore \<and> c \<in> caller_id ` set regs \<and>
      (prefix ps path \<and> t = ParamUpdate (abs_path path) v \<or>
       (\<exists>qs. ps = path @ qs \<and> qs \<noteq> [] \<and> is_dict v \<and> val_at v qs = None \<and>
          t = ParamUpdate (abs_path ps) (PDict []))))"
    by (intro ex_cong1 conj_cong refl) (rule related_tasks_path [OF wf vp])
  finally show ?thesis
    unfolding follows_entry [OF ok] by blast
qed

text \<open>A key of the new dict is a path below the updated one, and \<open>index_path\<close> finds its value.\<close>

lemma index_all_keys:
  assumes "wf_val v" "valid_path path" "qs \<noteq> []" "val_at v qs = Some w"
  shows "valid_path qs"
    and "index_path v (split (drop (length (ns_key path)) (ns_key (path @ qs)))) = Inr w"
proof -
  show vq: "valid_path qs" by (rule valid_path_val_at [OF assms(1,4)])
  from assms show "index_path v (split (drop (length (ns_key path)) (ns_key (path @ qs)))) = Inr w"
    by (simp add: split_below [OF _ vq] index_path_val_at)
qed

lemma set_below_tasks:
  assumes "wf_val v" "valid_path path" "qs \<noteq> []" "val_at v qs = Some w"
  shows "t \<in> set (below_tasks r (ns_key path) v (ns_key (path @ qs)) c) \<longleftrightarrow>
    follows r c (path @ qs) \<and> t = ParamUpdate (abs_path (path @ qs)) w"
  using index_all_keys [OF assms] assms(2)
  by (auto simp: below_tasks_def set_task_for follows_def image_iff simp del: abs_path_simps)

lemma set_below_all:
  assumes wf: "wf_val v" and vp: "valid_path path"
  shows "t \<in> set (below_all r path v c) \<longleftrightarrow>
     (\<exists>qs w. follows r c (path @ qs) \<and> qs \<noteq> [] \<and> val_at v qs = Some w \<and>
        t = ParamUpdate (abs_path (path @ qs)) w)"
proof (cases "all_keys_of (ns_key path) v")
  case None
  with all_keys_of_path [OF wf, of path] have "\<not> is_dict v" by simp
  then have "val_at v qs = None" if "qs \<noteq> []" for qs
    using that by (cases qs) (simp_all del: val_at.simps(2))
  with None show ?thesis by (auto simp: below_all_def)
next
  case (Some ks)
  have keys: "key \<in> set ks \<longleftrightarrow> (\<exists>qs. qs \<noteq> [] \<and> val_at v qs \<noteq> None \<and> key = ns_key (path @ qs))" for key
    using all_keys_of_path [OF wf, of path] Some by simp
  have bex: "(\<exists>key\<in>set ks. P key) \<longleftrightarrow> (\<exists>qs w. qs \<noteq> [] \<and> val_at v qs = Some w \<and> P (ns_key (path @ qs)))"
    for P :: "string \<Rightarrow> bool"
    unfolding Bex_def keys by blast
  have "t \<in> set (below_all r path v c) \<longleftrightarrow> (\<exists>key\<in>set ks. t \<in> set (below_tasks r (ns_key path) v key c))"
    using Some by (simp add: below_all_def)
  also have "\<dots> \<longleftrightarrow> (\<exists>qs w. follows r c (path @ qs) \<and> qs \<noteq> [] \<and> val_at v qs = Some w \<and>
      t = ParamUpdate (abs_path (path @ qs)) w)"
    unfolding bex by (intro ex_cong1) (metis set_below_tasks [OF wf vp])
  finally show ?thesis .
qed

lemma for_each_related:
  assumes "param_subs_known r"
  shows "for_each (notify_related (ns_key path) v (all_keys_of (ns_key path) v) ignore)
    (param_subscribers r) r = (Inr (), deliver (related_all r path v ignore) r)"
  using for_each_deliver [where g = "\<lambda>_. []" and r = r and xs = "param_subscribers r"
      and body = "notify_related (ns_key path) v (all_keys_of (ns_key path) v) ignore"
      and f = "related_tasks (ns_key path) v (all_keys_of (ns_key path) v) ignore"]
    notify_related_deliver assms
  by (simp add: param_subs_known_def related_all_def [abs_def])

lemma for_each_below:
  assumes "param_subs_known r" "wf_val v" "valid_path path" "all_keys_of (ns_key path) v = Some ks"
  shows "for_each (notify_below (ns_key path) v) ks (deliver g r) =
    (Inr (), deliver (below_all r path v) (deliver g r))"
proof -
  have "notify_below (ns_key path) v key (deliver g r) =
      (Inr (), deliver (below_tasks r (ns_key path) v key) (deliver g r))" if "key \<in> set ks" for key g
  proof -
    from that all_keys_of_path [OF assms(2), of path] assms(4) obtain qs w where
      qs: "qs \<noteq> []" "val_at v qs = Some w" "key = ns_key (path @ qs)" by auto
    show ?thesis
      using notify_below_deliver [OF assms(1) index_all_keys(2) [OF assms(2,3) qs(1,2)]] qs(3) by simp
  qed
  from for_each_deliver [where xs = ks and body = "notify_below (ns_key path) v"
      and f = "below_tasks r (ns_key path) v" and r = r and g = g, OF this] assms(4)
  show ?thesis by (simp add: below_all_def [abs_def])
qed

lemma on_param_update_deliver:
  assumes key: "normalize_namespace (join [key]) = Inr (ns_key path)" "valid_path path"
    and known: "param_subs_known r" and wf: "wf_val v"
  shows "on_param_update key v ignore r =
    (Inr (), deliver (\<lambda>c. related_all r path v ignore c @ below_all r path v c) r)"
proof (cases "param_subscribers r = []")
  case True
  have "related_all r path v ignore c = []" "below_all r path v c = []" for c
    by (auto simp: related_all_def below_all_def below_tasks_def True members_at_def task_for_def
        split: sum.splits)
  then show ?thesis using True by (simp add: on_param_update_def)
next
  case False
  have "below_all r path v c = []" if "all_keys_of (ns_key path) v = None" for c
    using that by (simp add: below_all_def)
  with False for_each_related [OF known] for_each_below [OF known wf key(2)] key(1) show ?thesis
    by (simp add: on_param_update_def Let_def deliver_deliver split: option.splits)
qed

text \<open>\<open>on_param_update\<close> does not raise when every parameter subscriber is a known node, and
  then it queues for each node exactly: the update itself, for a subscriber of the updated key or of
  a namespace around it other than the caller; the new value of its own key, for a subscriber of a
  key below that the new dict has (the caller included); and an empty dict, for one, other than the
  caller, of a key below that the new dict does not have. Below a value that is no dict it sends
  nothing.\<close>

theorem on_param_update_sends:
  assumes "normalize_namespace (join [key]) = Inr key'" and "param_subs_ok r"
    and "param_subs_known r" and "wf_val v"
  shows "\<exists>f. on_param_update key v ignore r = (Inr (), deliver f r) \<and>
    (\<forall>c t. t \<in> set (f c) \<longleftrightarrow> notified r (split key) v ignore c t)"
proof -
  have key: "normalize_namespace (join [key]) = Inr (ns_key (split key))" "valid_path (split key)"
    using assms(1) normalize_join_eq valid_path_split by auto
  have "t \<in> set (related_all r (split key) v ignore c @ below_all r (split key) v c) \<longleftrightarrow>
      notified r (split key) v ignore c t" for c t
    unfolding set_append Un_iff set_related_all [OF assms(2,4) key(2)] set_below_all [OF assms(4) key(2)]
      notified_def case_option_disj by blast
  with on_param_update_deliver [OF key assms(3,4)] show ?thesis by blast
qed

end
