(* ===== verification/Master_Api.thy ===== *)
theory Master_Api
  imports Master_Params Registry_Updates Registry_Notify
begin

text \<open>
  The XML-RPC API of the master, \<open>aioros/master/_api.py\<close>: one definition per method of
  \<open>MasterApiHandle\<close>, on the master's parameters and registry. A method answers with a
  status code, a message and a value, the last as the value the XML-RPC marshaller gets (a tuple or
  a list is a \<^const>\<open>PList\<close>), or raises, which the server turns into a fault. An exception
  raised by a method leaves the master in the state reached so far. \<open>shutdown\<close> starts a task
  that cancels the master a second later: \<open>pending_shutdowns\<close> lists the messages of those.
\<close>

record master =
  master_pid :: int
  master_uri :: string
  param_cache :: params
  master_registry :: registry
  pending_shutdowns :: "string list"

type_synonym reply = "int \<times> string \<times> pyval"
type_synonym handler = "master \<Rightarrow> (reply, master) outcome"

abbreviation answer :: "int \<Rightarrow> string \<Rightarrow> pyval \<Rightarrow> handler" where
  "answer code msg v m \<equiv> (Inr (code, msg, v), m)"

definition is_KeyError :: "py_error \<Rightarrow> bool" where
  "is_KeyError e \<longleftrightarrow> (case e of KeyError _ \<Rightarrow> True | _ \<Rightarrow> False)"

text \<open>A method is a coroutine: a \<open>StopIteration\<close> leaves it as a \<open>RuntimeError\<close>.\<close>

definition coroutine_error :: "py_error \<Rightarrow> py_error" where
  "coroutine_error e = (if e = StopIteration then RuntimeError else e)"

definition not_set :: "string \<Rightarrow> string" where
  "not_set key = ''Parameter ['' @ key @ ''] is not set''"

section \<open>The process\<close>

definition getPid :: "string \<Rightarrow> handler" where
  "getPid c m = answer 1 '''' (PInt (master_pid m)) m"

definition getUri :: "string \<Rightarrow> handler" where
  "getUri c m = answer 1 '''' (PStr (master_uri m)) m"

definition shutdown :: "string \<Rightarrow> string \<Rightarrow> handler" where
  "shutdown c msg m =
     answer 1 ''shutdown'' (PInt 0) (m\<lparr>pending_shutdowns := pending_shutdowns m @ [msg]\<rparr>)"

section \<open>Parameters\<close>

definition getParam :: "string \<Rightarrow> string \<Rightarrow> handler" where
  "getParam c key m =
     (case getitem (param_cache m) key of
        Inr v \<Rightarrow> answer 1 '''' v m
      | Inl e \<Rightarrow> if is_KeyError e then answer (-1) (not_set key) (PInt 0) m else (Inl e, m))"

definition notify_params :: "string \<Rightarrow> pyval \<Rightarrow> string \<Rightarrow> handler" where
  "notify_params key v c m =
     (let (res, r) = on_param_update key v c (master_registry m); m' = m\<lparr>master_registry := r\<rparr> in
      case res of
        Inl e \<Rightarrow> (Inl e, m')
      | Inr _ \<Rightarrow> answer 1 '''' (PInt 0) m')"

definition setParam :: "string \<Rightarrow> string \<Rightarrow> pyval \<Rightarrow> handler" where
  "setParam c key v m =
     (case setitem (param_cache m) key v of
        Inl e \<Rightarrow> (Inl e, m)
      | Inr ps \<Rightarrow> notify_params key v c (m\<lparr>param_cache := ps\<rparr>))"

definition deleteParam :: "string \<Rightarrow> string \<Rightarrow> handler" where
  "deleteParam c key m =
     (case delitem (param_cache m) key of
        Inl e \<Rightarrow> if is_KeyError e then answer (-1) (not_set key) (PInt 0) m else (Inl e, m)
      | Inr ps \<Rightarrow> notify_params key (PDict []) c (m\<lparr>param_cache := ps\<rparr>))"

definition searchParam :: "string \<Rightarrow> string \<Rightarrow> handler" where
  "searchParam c key m =
     (case search (param_cache m) key c of
        Inr None \<Rightarrow> answer 1 '''' PNone m
      | Inr (Some found) \<Rightarrow> answer 1 '''' (PStr found) m
      | Inl e \<Rightarrow> if is_KeyError e then answer (-1) '''' (PInt 0) m else (Inl (coroutine_error e), m))"

definition hasParam :: "string \<Rightarrow> string \<Rightarrow> handler" where
  "hasParam c key m = answer 1 '''' (PBool (contains (param_cache m) key)) m"

definition getParamNames :: "string \<Rightarrow> handler" where
  "getParamNames c m = answer 1 '''' (PList (map PStr (keys (param_cache m)))) m"

text \<open>The value answered by \<open>subscribeParam\<close>: an empty dict when the key is not set.\<close>

definition subscribed_value :: "params \<Rightarrow> string \<Rightarrow> pyval result" where
  "subscribed_value ps key =
     (case getitem ps key of
        Inr v \<Rightarrow> Inr v
      | Inl e \<Rightarrow> if is_KeyError e then Inr (PDict []) else Inl e)"

text \<open>A call of the registry that may raise, and the answer after it.\<close>

definition with_registry :: "(unit, registry) outcome \<Rightarrow> pyval \<Rightarrow> handler" where
  "with_registry outcome v m =
     (let (res, r) = outcome; m' = m\<lparr>master_registry := r\<rparr> in
      case res of Inl e \<Rightarrow> (Inl e, m') | Inr _ \<Rightarrow> answer 1 '''' v m')"

definition subscribeParam :: "string \<Rightarrow> string \<Rightarrow> string \<Rightarrow> handler" where
  "subscribeParam c caller_api key m =
     (case subscribed_value (param_cache m) key of
        Inl e \<Rightarrow> (Inl e, m)
      | Inr v \<Rightarrow> with_registry (register_param_subscriber key c caller_api (master_registry m)) v m)"

definition unsubscribeParam :: "string \<Rightarrow> string \<Rightarrow> string \<Rightarrow> handler" where
  "unsubscribeParam c caller_api key m =
     with_registry (unregister_param_subscriber key c caller_api (master_registry m)) (PInt 1) m"

section \<open>Nodes and services\<close>

definition lookupNode :: "string \<Rightarrow> string \<Rightarrow> handler" where
  "lookupNode c node_name m =
     (case nodes (master_registry m) node_name of
        Some n \<Rightarrow> answer 1 '''' (PStr (node_api n)) m
      | None \<Rightarrow> answer (-1) '''' (PStr (''unknown node '' @ node_name)) m)"

definition lookupService :: "string \<Rightarrow> string \<Rightarrow> handler" where
  "lookupService c service m =
     (case map_of (services (master_registry m)) service of
        Some reg \<Rightarrow> answer 1 '''' (PStr (reg_api reg)) m
      | None \<Rightarrow> answer (-1) '''' (PStr (''unknown service '' @ service)) m)"

definition registerService :: "string \<Rightarrow> string \<Rightarrow> string \<Rightarrow> string \<Rightarrow> handler" where
  "registerService c service service_api caller_api m =
     answer 1 '''' (PInt 1)
       (m\<lparr>master_registry := register_service service c caller_api service_api (master_registry m)\<rparr>)"

definition unregisterService :: "string \<Rightarrow> string \<Rightarrow> string \<Rightarrow> handler" where
  "unregisterService c service service_api m =
     answer 1 '''' (PInt 1)
       (m\<lparr>master_registry := unregister_service service c (master_registry m)\<rparr>)"

section \<open>Topics\<close>

definition strings :: "string list \<Rightarrow> pyval" where
  "strings xs = PList (map PStr xs)"

definition registerSubscriber :: "string \<Rightarrow> string \<Rightarrow> string \<Rightarrow> string \<Rightarrow> handler" where
  "registerSubscriber c topic topic_type caller_api m =
     (let r = register_subscriber topic topic_type c caller_api (master_registry m) in
      answer 1 '''' (strings (map reg_api (members_at (publications r) topic)))
        (m\<lparr>master_registry := r\<rparr>))"

definition unregisterSubscriber :: "string \<Rightarrow> string \<Rightarrow> string \<Rightarrow> handler" where
  "unregisterSubscriber c topic caller_api m =
     answer 1 '''' (PInt 1)
       (m\<lparr>master_registry := unregister_subscriber topic c caller_api (master_registry m)\<rparr>)"

definition registerPublisher :: "string \<Rightarrow> string \<Rightarrow> string \<Rightarrow> string \<Rightarrow> handler" where
  "registerPublisher c topic topic_type caller_api m =
     (let r = register_publisher topic topic_type c caller_api (master_registry m) in
      answer 1 '''' (strings (map reg_api (members_at (subscriptions r) topic)))
        (m\<lparr>master_registry := r\<rparr>))"

definition unregisterPublisher :: "string \<Rightarrow> string \<Rightarrow> string \<Rightarrow> handler" where
  "unregisterPublisher c topic caller_api m =
     answer 1 '''' (PInt 1)
       (m\<lparr>master_registry := unregister_publisher topic c caller_api (master_registry m)\<rparr>)"

text \<open>\<open>[(topic, topic_types[topic]) for topic in publications if topic.startswith(subgraph)]\<close>\<close>

fun published_topics :: "(string \<times> string) list \<Rightarrow> string \<Rightarrow> string list \<Rightarrow> pyval list result" where
  "published_topics types subgraph [] = Inr []"
| "published_topics types subgraph (topic # topics) =
     (if prefix subgraph topic then
        (case map_of types topic of
           None \<Rightarrow> Inl (KeyError topic)
         | Some ty \<Rightarrow>
             bind_result (published_topics types subgraph topics)
               (\<lambda>rest. Inr (strings [topic, ty] # rest)))
      else published_topics types subgraph topics)"

definition getPublishedTopics :: "string \<Rightarrow> string \<Rightarrow> handler" where
  "getPublishedTopics c subgraph m =
     (let r = master_registry m in
      case published_topics (topic_types r) subgraph (map fst (publications r)) of
        Inl e \<Rightarrow> (Inl e, m)
      | Inr pairs \<Rightarrow> answer 1 '''' (PList pairs) m)"

definition getTopicTypes :: "string \<Rightarrow> handler" where
  "getTopicTypes c m =
     answer 1 ''''
       (PList (map (\<lambda>(topic, ty). strings [topic, ty]) (topic_types (master_registry m)))) m"

definition members_state :: "(string \<times> registration list) list \<Rightarrow> pyval" where
  "members_state d =
     PList (map (\<lambda>(topic, regs). PList [PStr topic, strings (map caller_id regs)])
       (filter (\<lambda>(topic, regs). regs \<noteq> []) d))"

definition services_state :: "(string \<times> registration) list \<Rightarrow> pyval" where
  "services_state d = PList (map (\<lambda>(name, reg). PList [PStr name, strings [caller_id reg]]) d)"

definition getSystemState :: "string \<Rightarrow> handler" where
  "getSystemState c m =
     (let r = master_registry m in
      answer 1 ''''
        (PList [members_state (publications r), members_state (subscriptions r),
           services_state (services r)]) m)"

section \<open>Requests\<close>

text \<open>The methods a client can call, with their arguments after \<open>caller_id\<close>.\<close>

datatype request =
    GetPid | GetUri | ShutdownMaster string
  | GetParam string | SetParam string pyval | DeleteParam string | SearchParam string
  | HasParam string | GetParamNames
  | SubscribeParam string string | UnsubscribeParam string string
  | LookupNode string | LookupService string
  | RegisterService string string string | UnregisterService string string
  | RegisterSubscriber string string string | UnregisterSubscriber string string
  | RegisterPublisher string string string | UnregisterPublisher string string
  | GetPublishedTopics string | GetTopicTypes | GetSystemState

fun handle :: "string \<Rightarrow> request \<Rightarrow> handler" where
  "handle c GetPid = getPid c"
| "handle c GetUri = getUri c"
| "handle c (ShutdownMaster msg) = shutdown c msg"
| "handle c (GetParam key) = getParam c key"
| "handle c (SetParam key v) = setParam c key v"
| "handle c (DeleteParam key) = deleteParam c key"
| "handle c (SearchParam key) = searchParam c key"
| "handle c (HasParam key) = hasParam c key"
| "handle c GetParamNames = getParamNames c"
| "handle c (SubscribeParam a key) = subscribeParam c a key"
| "handle c (UnsubscribeParam a key) = unsubscribeParam c a key"
| "handle c (LookupNode n) = lookupNode c n"
| "handle c (LookupService s) = lookupService c s"
| "handle c (RegisterService s sa a) = registerService c s sa a"
| "handle c (UnregisterService s sa) = unregisterService c s sa"
| "handle c (RegisterSubscriber t ty a) = registerSubscriber c t ty a"
| "handle c (UnregisterSubscriber t a) = unregisterSubscriber c t a"
| "handle c (RegisterPublisher t ty a) = registerPublisher c t ty a"
| "handle c (UnregisterPublisher t a) = unregisterPublisher c t a"
| "handle c (GetPublishedTopics sg) = getPublishedTopics c sg"
| "handle c GetTopicTypes = getTopicTypes c"
| "handle c GetSystemState = getSystemState c"

end
