(* ===== verification/Master_Theorems.thy ===== *)
theory Master_Theorems
  imports Master_Api
begin

text \<open>
  Histories of the master: what holds after any sequence of API calls. A call is \<open>polite\<close> when
  nobody unregisters a topic under an address that is not its own, and the values set are
  well-formed. The address a caller registers under may change at any time.
\<close>

section \<open>What a request does to the registry and to the parameters\<close>

definition registry_after :: "string \<Rightarrow> request \<Rightarrow> master \<Rightarrow> registry" where
  "registry_after c req m = master_registry (snd (handle c req m))"

named_theorems handler_simps "the effect of a request on the fields of the master"

lemma notify_params_sel [handler_simps]:
  "master_registry (snd (notify_params key v c m)) = snd (on_param_update key v c (master_registry m))"
  "param_cache (snd (notify_params key v c m)) = param_cache m"
  by (simp_all add: notify_params_def Let_def split: prod.splits sum.splits)

lemma with_registry_sel [handler_simps]:
  "master_registry (snd (with_registry out v m)) = snd out"
  "param_cache (snd (with_registry out v m)) = param_cache m"
  by (simp_all add: with_registry_def Let_def split: prod.splits sum.splits)

lemma reading_sel [handler_simps]:
  "snd (getPid c m) = m" "snd (getUri c m) = m" "snd (getParam c key m) = m"
  "snd (searchParam c key m) = m" "snd (hasParam c key m) = m" "snd (getParamNames c m) = m"
  "snd (lookupNode c n m) = m" "snd (lookupService c s m) = m" "snd (getPublishedTopics c sg m) = m"
  "snd (getTopicTypes c m) = m" "snd (getSystemState c m) = m"
  by (simp_all add: getPid_def getUri_def getParam_def searchParam_def hasParam_def getParamNames_def
      lookupNode_def lookupService_def getPublishedTopics_def getTopicTypes_def getSystemState_def Let_def
      split: sum.splits option.splits)

lemma shutdown_sel [handler_simps]:
  "master_registry (snd (shutdown c msg m)) = master_registry m"
  "param_cache (snd (shutdown c msg m)) = param_cache m"
  by (simp_all add: shutdown_def)

lemma registering_sel [handler_simps]:
  "master_registry (snd (registerService c s sa a m)) = register_service s c a sa (master_registry m)"
  "master_registry (snd (unregisterService c s sa m)) = unregister_service s c (master_registry m)"
  "master_registry (snd (registerSubscriber c t ty a m)) = register_subscriber t ty c a (master_registry m)"
  "master_registry (snd (unregisterSubscriber c t a m)) = unregister_subscriber t c a (master_registry m)"
  "master_registry (snd (registerPublisher c t ty a m)) = register_publisher t ty c a (master_registry m)"
  "master_registry (snd (unregisterPublisher c t a m)) = unregister_publisher t c a (master_registry m)"
  "param_cache (snd (registerService c s sa a m)) = param_cache m"
  "param_cache (snd (unregisterService c s sa m)) = param_cache m"
  "param_cache (snd (registerSubscriber c t ty a m)) = param_cache m"
  "param_cache (snd (unregisterSubscriber c t a m)) = param_cache m"
  "param_cache (snd (registerPublisher c t ty a m)) = param_cache m"
  "param_cache (snd (unregisterPublisher c t a m)) = param_cache m"
  by (simp_all add: registerService_def unregisterService_def registerSubscriber_def
      unregisterSubscriber_def registerPublisher_def unregisterPublisher_def Let_def)

lemma params_registry [handler_simps]:
  "master_registry (snd (setParam c key v m)) =
     (case setitem (param_cache m) key v of Inl _ \<Rightarrow> master_registry m
      | Inr _ \<Rightarrow> snd (on_param_update key v c (master_registry m)))"
  "master_registry (snd (deleteParam c key m)) =
     (case delitem (param_cache m) key of Inl _ \<Rightarrow> master_registry m
      | Inr _ \<Rightarrow> snd (on_param_update key (PDict []) c (master_registry m)))"
  "master_registry (snd (subscribeParam c a key m)) =
     (case subscribed_value (param_cache m) key of Inl _ \<Rightarrow> master_registry m
      | Inr _ \<Rightarrow> snd (register_param_subscriber key c a (master_registry m)))"
  "master_registry (snd (unsubscribeParam c a key m)) =
     snd (unregister_param_subscriber key c a (master_registry m))"
  by (simp_all add: setParam_def deleteParam_def subscribeParam_def unsubscribeParam_def handler_simps
      split: sum.splits)

lemma params_cache [handler_simps]:
  "param_cache (snd (setParam c key v m)) =
     (case setitem (param_cache m) key v of Inl _ \<Rightarrow> param_cache m | Inr ps \<Rightarrow> ps)"
  "param_cache (snd (deleteParam c key m)) =
     (case delitem (param_cache m) key of Inl _ \<Rightarrow> param_cache m | Inr ps \<Rightarrow> ps)"
  "param_cache (snd (subscribeParam c a key m)) = param_cache m"
  "param_cache (snd (unsubscribeParam c a key m)) = param_cache m"
  by (simp_all add: setParam_def deleteParam_def subscribeParam_def unsubscribeParam_def handler_simps
      split: sum.splits)

section \<open>The invariant of the master\<close>

definition master_ok :: "master \<Rightarrow> bool" where
  "master_ok m \<longleftrightarrow>
     core_inv (master_registry m) \<and> param_subs_ok (master_registry m) \<and> wf_params (param_cache m)"

fun polite :: "string \<Rightarrow> request \<Rightarrow> master \<Rightarrow> bool" where
  "polite c (UnregisterSubscriber t a) m \<longleftrightarrow> owns_address c a (master_registry m)"
| "polite c (UnregisterPublisher t a) m \<longleftrightarrow> owns_address c a (master_registry m)"
| "polite c (SetParam key v) m \<longleftrightarrow> wf_val v"
| "polite c req m \<longleftrightarrow> True"

text \<open>Only the two parameter registrations touch \<open>param_subscribers\<close>.\<close>

lemma param_subs_register_node [registry_simps]:
  "param_subscribers (register_node c a r) = param_subscribers r"
  by (cases rule: register_node_cases [where r = r and c = c and a = a])
    (simp_all add: registry_simps)

lemma param_subscribers_kept [registry_simps]:
  "param_subscribers (register_service s c a sa r) = param_subscribers r"
  "param_subscribers (unregister_service s c r) = param_subscribers r"
  "param_subscribers (register_subscriber t ty c a r) = param_subscribers r"
  "param_subscribers (unregister_subscriber t c a r) = param_subscribers r"
  "param_subscribers (register_publisher t ty c a r) = param_subscribers r"
  "param_subscribers (unregister_publisher t c a r) = param_subscribers r"
  by (simp_all add: register_service_def unregister_service_def register_subscriber_def
      unregister_subscriber_def register_publisher_def unregister_publisher_def Let_def registry_simps)

lemma param_subscribers_notified [registry_simps]:
  "param_subscribers (snd (on_param_update key v c r)) = param_subscribers r"
  using delivery.allowed_on_param_update [of r key v c] by (auto simp: delivered_def registry_simps)

lemma param_subs_ok_keys:
  "param_subs_ok r \<longleftrightarrow> distinct (map fst (param_subscribers r)) \<and>
     fst ` set (param_subscribers r) \<subseteq> ns_key ` {ps. valid_path ps}"
  by (simp add: param_subs_ok_def image_subset_iff image_iff Bex_def)

lemma keys_add_member: "fst ` set (add_member k x d) = insert k (fst ` set d)"
  by (simp add: add_member_def)

lemma keys_discard_member: "fst ` set (discard_member k x d) \<subseteq> fst ` set d"
proof (cases "map_of d k")
  case (Some xs)
  then have "k \<in> fst ` set d" by (auto simp flip: dom_map_of_conv_image_fst)
  then show ?thesis
    unfolding discard_member_def Some option.case if_distrib [where f = "\<lambda>d. fst ` set d"]
      keys_update keys_delete by auto
qed (simp add: discard_member_def)

lemma param_subs_ok_register:
  assumes "param_subs_ok r" shows "param_subs_ok (snd (register_param_subscriber key c a r))"
proof (cases "normalize_namespace (join [key])")
  case (Inr key')
  then have "key' = ns_key (split key)" by (rule normalize_join_eq)
  then have "key' \<in> ns_key ` {ps. valid_path ps}" using valid_path_split by blast
  with assms show ?thesis
    unfolding param_subs_ok_keys
    by (simp add: register_param_subscriber_def Inr Let_def registry_simps keys_add_member)
qed (use assms in \<open>simp add: register_param_subscriber_def\<close>)

lemma param_subs_ok_unregister:
  assumes "param_subs_ok r" shows "param_subs_ok (snd (unregister_param_subscriber key c a r))"
proof (cases "normalize_namespace (join [key])")
  case (Inr key')
  have "fst ` set (discard_member key' x (param_subscribers r)) \<subseteq> ns_key ` {ps. valid_path ps}" for x
    by (rule subset_trans [OF keys_discard_member]) (use assms in \<open>simp add: param_subs_ok_keys\<close>)
  with assms show ?thesis
    unfolding param_subs_ok_keys
    by (simp add: unregister_param_subscriber_def Inr registry_simps)
qed (use assms in \<open>simp add: unregister_param_subscriber_def\<close>)

lemma handle_core_inv:
  assumes "core_inv (master_registry m)" "polite c req m"
  shows "core_inv (master_registry (snd (handle c req m)))"
  using assms
  by (cases req)
    (simp_all add: handler_simps core_inv_register_service core_inv_unregister_service
      core_inv_register_subscriber core_inv_unregister_subscriber core_inv_register_publisher
      core_inv_unregister_publisher core_inv_register_param_subscriber
      core_inv_unregister_param_subscriber core_inv_on_param_update split: sum.splits)

lemma handle_param_subs_ok:
  assumes "param_subs_ok (master_registry m)"
  shows "param_subs_ok (master_registry (snd (handle c req m)))"
  using assms
  by (cases req)
    (simp_all add: handler_simps param_subs_ok_register param_subs_ok_unregister split: sum.splits,
     simp_all add: param_subs_ok_def registry_simps)

lemma handle_wf_params:
  assumes "wf_params (param_cache m)" "polite c req m"
  shows "wf_params (param_cache (snd (handle c req m)))"
  using assms
  by (cases req) (auto simp: handler_simps setitem_wf delitem_wf split: sum.splits)

text \<open>
  Executions: a master starts with no parameters and an empty registry, and answers calls one
  after another (a handler has no \<open>await\<close> inside its changes of the state).
\<close>

definition initial_master :: "int \<Rightarrow> string \<Rightarrow> master" where
  "initial_master pid uri =
     \<lparr>master_pid = pid, master_uri = uri, param_cache = [], master_registry = empty_registry,
      pending_shutdowns = []\<rparr>"

inductive reachable :: "master \<Rightarrow> bool" where
  start: "reachable (initial_master pid uri)"
| call: "reachable m \<Longrightarrow> polite c req m \<Longrightarrow> handle c req m = (res, m') \<Longrightarrow> reachable m'"

theorem reachable_master_ok: "reachable m \<Longrightarrow> master_ok m"
proof (induction rule: reachable.induct)
  case (start pid uri)
  show ?case
    by (simp add: master_ok_def initial_master_def core_inv_empty param_subs_ok_def)
      (simp add: empty_registry_def)
next
  case (call m c req res m')
  then have "m' = snd (handle c req m)" by simp
  with call handle_core_inv handle_param_subs_ok handle_wf_params show ?case
    by (simp add: master_ok_def)
qed

section \<open>Subscribers know the publishers\<close>

text \<open>
  A history with what each subscription was answered: for a caller and a topic, the length of the
  caller's queue at its last \<open>registerSubscriber\<close> and the publishers in the answer.
  \<open>last_told\<close> is the last list of publishers the caller got since.
\<close>

type_synonym answers = "string \<times> string \<Rightarrow> (nat \<times> string list) option"

definition outbox_of :: "registry \<Rightarrow> string \<Rightarrow> task list" where
  "outbox_of r c = (case nodes r c of None \<Rightarrow> [] | Some n \<Rightarrow> node_outbox n)"

definition last_told :: "task list \<Rightarrow> string \<Rightarrow> nat \<times> string list \<Rightarrow> string list" where
  "last_told outbox topic given =
     (case last_update topic (drop (fst given) outbox) of None \<Rightarrow> snd given | Some l \<Rightarrow> l)"

fun note_answer :: "string \<Rightarrow> request \<Rightarrow> reply result \<Rightarrow> registry \<Rightarrow> answers \<Rightarrow> answers" where
  "note_answer c (RegisterSubscriber topic ty a) (Inr (code, msg, PList apis)) r g =
     g((c, topic) \<mapsto> (length (outbox_of r c), map (\<lambda>v. case v of PStr s \<Rightarrow> s | _ \<Rightarrow> []) apis))"
| "note_answer c _ _ r g = g"

inductive history :: "master \<Rightarrow> answers \<Rightarrow> bool" where
  history_start: "history (initial_master pid uri) Map.empty"
| history_call: "history m g \<Longrightarrow> polite c req m \<Longrightarrow> handle c req m = (res, m') \<Longrightarrow>
    history m' (note_answer c req res (master_registry m') g)"

definition informed :: "registry \<Rightarrow> answers \<Rightarrow> bool" where
  "informed r g \<longleftrightarrow>
     (\<forall>topic reg. reg \<in> set (members_at (subscriptions r) topic) \<longrightarrow>
        (\<exists>given. g (caller_id reg, topic) = Some given \<and> fst given \<le> length (outbox_of r (caller_id reg)) \<and>
           last_told (outbox_of r (caller_id reg)) topic given = publisher_apis r topic))"

lemma informedD:
  "informed r g \<Longrightarrow> reg \<in> set (members_at (subscriptions r) topic) \<Longrightarrow>
     \<exists>given. g (caller_id reg, topic) = Some given \<and> fst given \<le> length (outbox_of r (caller_id reg)) \<and>
       last_told (outbox_of r (caller_id reg)) topic given = publisher_apis r topic"
  unfolding informed_def by blast

fun subscribes :: "request \<Rightarrow> bool" where
  "subscribes (RegisterSubscriber topic ty a) = True"
| "subscribes _ = False"

lemma subscribesE:
  assumes "subscribes req" obtains topic ty a where "req = RegisterSubscriber topic ty a"
  using assms by (cases req) auto

lemma history_reachable: "history m g \<Longrightarrow> reachable m"
  by (induction rule: history.induct) (auto intro: reachable.intros)

lemma subscriber_known:
  assumes "core_inv r" "reg \<in> set (members_at (subscriptions r) topic)"
  shows "\<exists>n. nodes r (caller_id reg) = Some n"
proof -
  have "mirrored (nodes r) node_subscriptions (subscriptions r)"
    using assms(1) by (simp add: core_inv_def base_inv_def)
  from mirroredD [OF this, of reg topic] assms(2) show ?thesis by auto
qed

text \<open>One subscription across a step that keeps it informed.\<close>

lemma informed_entry_step:
  assumes "keeps_informed r r'" and reg: "reg \<in> set (members_at (subscriptions r') topic)"
    and "nodes r' (caller_id reg) = Some n'" and "informed r g"
  shows "\<exists>given. g (caller_id reg, topic) = Some given \<and> fst given \<le> length (node_outbox n') \<and>
    last_told (node_outbox n') topic given = publisher_apis r' topic"
proof -
  from keeps_informedD [OF assms(1) reg assms(3)] obtain n ts where
    n: "reg \<in> set (members_at (subscriptions r) topic)" "nodes r (caller_id reg) = Some n"
    and ts: "node_outbox n' = node_outbox n @ ts" "told_right r r' topic ts" by blast
  from assms(4) n obtain given where given: "g (caller_id reg, topic) = Some given"
    "fst given \<le> length (node_outbox n)" "last_told (node_outbox n) topic given = publisher_apis r topic"
    using informedD [OF assms(4) n(1)] by (auto simp: outbox_of_def)
  with ts have "last_told (node_outbox n') topic given = publisher_apis r' topic"
    by (auto simp: last_told_def told_right_def split: option.splits)
  with given ts show ?thesis by auto
qed

lemma informed_step:
  assumes "keeps_informed r r'" "core_inv r'" "informed r g"
  shows "informed r' g"
  unfolding informed_def
proof (intro allI impI)
  fix topic reg assume reg: "reg \<in> set (members_at (subscriptions r') topic)"
  with assms(2) obtain n' where "nodes r' (caller_id reg) = Some n'" using subscriber_known by blast
  with informed_entry_step [OF assms(1) reg this assms(3)]
  show "\<exists>given. g (caller_id reg, topic) = Some given \<and> fst given \<le> length (outbox_of r' (caller_id reg)) \<and>
      last_told (outbox_of r' (caller_id reg)) topic given = publisher_apis r' topic"
    by (simp add: outbox_of_def)
qed

text \<open>A request other than a subscription keeps subscribers informed.\<close>

lemma handle_keeps_informed:
  assumes "core_inv (master_registry m)" "\<not> subscribes req"
  shows "keeps_informed (master_registry m) (master_registry (snd (handle c req m)))"
  using assms
  by (cases req)
    (simp_all add: handler_simps keeps_informed_register_service keeps_informed_unregister_service
      keeps_informed_unregister_subscriber keeps_informed_register_publisher
      keeps_informed_unregister_publisher keeps_informed_register_param_subscriber
      keeps_informed_unregister_param_subscriber keeps_informed_on_param_update split: sum.splits)

text \<open>A subscription: everybody else is kept informed, the new subscriber is answered.\<close>

lemma informed_register_subscriber:
  assumes r: "core_inv r" and g: "informed r g"
    and r': "r' = register_subscriber topic ty c a r"
  shows "informed r' (g((c, topic) \<mapsto> (length (outbox_of r' c), publisher_apis r' topic)))"
proof -
  let ?r1 = "register_node c a (register_topic topic ty r)"
  let ?r2 = "modify_node c (\<lambda>n. n\<lparr>node_subscriptions := set_add topic (node_subscriptions n)\<rparr>) ?r1"
  have "keeps_informed r (register_topic topic ty r)" by (rule keeps_informed_topic)
  also have "keeps_informed (register_topic topic ty r) ?r1"
    by (rule keeps_informed_register_node) (use r in simp)
  also have "keeps_informed ?r1 ?r2" by (rule keeps_informed_modify) simp
  finally have kept: "keeps_informed r ?r2" .
  have eqs: "nodes r' = nodes ?r2" "publications r' = publications ?r2"
    "subscriptions r' = add_member topic \<lparr>caller_id = c, reg_api = a\<rparr> (subscriptions ?r2)"
    by (simp_all add: r' register_subscriber_def Let_def)
  have core: "core_inv r'" unfolding r' by (rule core_inv_register_subscriber [OF r])
  show ?thesis
    unfolding informed_def
  proof (intro allI impI)
    let ?g = "g((c, topic) \<mapsto> (length (outbox_of r' c), publisher_apis r' topic))"
    fix t reg assume reg: "reg \<in> set (members_at (subscriptions r') t)"
    from subscriber_known [OF core reg] obtain n where n: "nodes r' (caller_id reg) = Some n" by blast
    show "\<exists>given. ?g (caller_id reg, t) = Some given \<and> fst given \<le> length (outbox_of r' (caller_id reg)) \<and>
        last_told (outbox_of r' (caller_id reg)) t given = publisher_apis r' t"
    proof (cases "caller_id reg = c \<and> t = topic")
      case True
      then show ?thesis by (simp add: last_told_def)
    next
      case False
      then have "reg \<in> set (members_at (subscriptions ?r2) t)"
        using reg by (auto simp: eqs split: if_splits)
      from informed_entry_step [OF kept this _ g] n False eqs show ?thesis
        by (auto simp: outbox_of_def)
    qed
  qed
qed

lemma note_answer_other: "\<not> subscribes req \<Longrightarrow> note_answer c req res r g = g"
  by (cases req) simp_all

lemma note_answer_subscriber:
  assumes "handle c (RegisterSubscriber t ty a) m = (res, m')"
  shows "note_answer c (RegisterSubscriber t ty a) res (master_registry m') g =
    g((c, t) \<mapsto> (length (outbox_of (master_registry m') c), publisher_apis (master_registry m') t))"
  using assms by (auto simp: registerSubscriber_def Let_def strings_def comp_def)

lemma history_informed: "history m g \<Longrightarrow> informed (master_registry m) g"
proof (induction rule: history.induct)
  case (history_start pid uri)
  show ?case by (simp add: informed_def initial_master_def empty_registry_def members_at_def)
next
  case (history_call m g c req res m')
  from history_call.hyps(1) have ok: "core_inv (master_registry m)"
    using history_reachable reachable_master_ok master_ok_def by blast
  have m': "m' = snd (handle c req m)" using history_call.hyps(3) by simp
  show ?case
  proof (cases "subscribes req")
    case True
    then obtain t ty a where req: "req = RegisterSubscriber t ty a" by (rule subscribesE)
    have "master_registry m' = register_subscriber t ty c a (master_registry m)"
      by (simp add: m' req handler_simps)
    from informed_register_subscriber [OF ok history_call.IH this] show ?thesis
      unfolding req note_answer_subscriber [OF history_call.hyps(3) [unfolded req]] .
  next
    case False
    have "core_inv (master_registry m')"
      unfolding m' by (rule handle_core_inv [OF ok history_call.hyps(2)])
    with informed_step [OF handle_keeps_informed [OF ok False, of c] _ history_call.IH] m'
    show ?thesis by (simp add: note_answer_other [OF False])
  qed
qed

end
