(* ===== verification/Master_Properties.thy ===== *)
theory Master_Properties
  imports Master_Theorems
begin

text \<open>
  The properties of the master: its registry over whole histories, re-registration of a node, and
  the parameter calls seen by a client. The concrete history \<open>demo\<close> instantiates them.
\<close>

section \<open>A concrete history\<close>

text \<open>
  A subscriber of a topic, then a publisher of it, which then registers again under another
  address. \<open>demo_1\<close> to \<open>demo_3\<close> are the registries in between.
\<close>

definition listener :: registration where
  "listener = \<lparr>caller_id = ''/l'', reg_api = ''http://l''\<rparr>"

definition demo_1 :: registry where
  "demo_1 = empty_registry\<lparr>topic_types := [(''/c'', ''S'')], subscriptions := [(''/c'', [listener])],
     nodes := [''/l'' \<mapsto> (new_node ''http://l'')\<lparr>node_subscriptions := [''/c'']\<rparr>]\<rparr>"

definition demo_2 :: registry where
  "demo_2 = demo_1\<lparr>publications := [(''/c'', [\<lparr>caller_id = ''/t'', reg_api = ''http://t''\<rparr>])],
     nodes :=
       [''/t'' \<mapsto> (new_node ''http://t'')\<lparr>node_publications := [''/c'']\<rparr>,
        ''/l'' \<mapsto> (new_node ''http://l'')\<lparr>node_subscriptions := [''/c''],
          node_outbox := [PublisherUpdate ''/c'' [''http://t'']]\<rparr>]\<rparr>"

definition demo_3 :: registry where
  "demo_3 = demo_2\<lparr>publications := [(''/c'', [\<lparr>caller_id = ''/t'', reg_api = ''http://u''\<rparr>])],
     nodes :=
       [''/t'' \<mapsto> (new_node ''http://u'')\<lparr>node_publications := [''/c'']\<rparr>,
        ''/l'' \<mapsto> (new_node ''http://l'')\<lparr>node_subscriptions := [''/c''],
          node_outbox := [PublisherUpdate ''/c'' [''http://t''], PublisherUpdate ''/c'' [],
            PublisherUpdate ''/c'' [''http://u'']]\<rparr>],
     retired := [(new_node ''http://t'')\<lparr>node_publications := [''/c''],
         node_outbox := [Shutdown ''new node registered with same name'']\<rparr>]\<rparr>"

lemmas registry_eval =
  register_subscriber_def register_publisher_def register_node_def register_topic_def
  fresh_node_def update_subscribers_def modify_node_def new_node_def Let_def empty_registry_def
  add_member_def members_at_def set_add_def node_publisher_update_def send_task_def
  node_shutdown_def unregister_all_def drop_publisher_def set_discard_def

lemma demo_step_1: "register_subscriber ''/c'' ''S'' ''/l'' ''http://l'' empty_registry = demo_1"
  by (simp add: demo_1_def listener_def registry_eval)

lemma demo_step_2: "register_publisher ''/c'' ''S'' ''/t'' ''http://t'' demo_1 = demo_2"
  by (simp add: demo_1_def demo_2_def listener_def registry_eval)

lemma demo_step_3: "register_publisher ''/c'' ''S'' ''/t'' ''http://u'' demo_2 = demo_3"
  by (simp add: demo_1_def demo_2_def demo_3_def listener_def registry_eval)

abbreviation demo_master :: "registry \<Rightarrow> master" where
  "demo_master r \<equiv> (initial_master 7 ''http://m'')\<lparr>master_registry := r\<rparr>"

abbreviation demo_answers :: answers where
  "demo_answers \<equiv> [(''/l'', ''/c'') \<mapsto> (0, [])]"

lemma demo_history: "history (demo_master demo_3) demo_answers"
proof -
  have start: "history (demo_master empty_registry) Map.empty"
    using history_start [of 7 "''http://m''"] by (simp add: initial_master_def)
  have "handle ''/l'' (RegisterSubscriber ''/c'' ''S'' ''http://l'') (demo_master empty_registry) =
      (Inr (1, [], strings []), demo_master demo_1)"
    by (simp add: registerSubscriber_def Let_def demo_step_1)
      (simp add: demo_1_def empty_registry_def members_at_def)
  from history_call [OF start _ this] have "history (demo_master demo_1) demo_answers"
    by (simp add: strings_def outbox_of_def demo_1_def new_node_def)
  moreover have "handle ''/t'' (RegisterPublisher ''/c'' ''S'' ''http://t'') (demo_master demo_1) =
      (Inr (1, [], strings [''http://l'']), demo_master demo_2)"
    by (simp add: registerPublisher_def Let_def demo_step_2)
      (simp add: demo_2_def demo_1_def members_at_def listener_def)
  ultimately have "history (demo_master demo_2) demo_answers"
    by (auto dest: history_call [where req = "RegisterPublisher ''/c'' ''S'' ''http://t''"])
  moreover have "handle ''/t'' (RegisterPublisher ''/c'' ''S'' ''http://u'') (demo_master demo_2) =
      (Inr (1, [], strings [''http://l'']), demo_master demo_3)"
    by (simp add: registerPublisher_def Let_def demo_step_3)
      (simp add: demo_3_def demo_2_def demo_1_def members_at_def listener_def)
  ultimately show ?thesis
    by (auto dest: history_call [where req = "RegisterPublisher ''/c'' ''S'' ''http://u''"])
qed

section \<open>Histories\<close>

text \<open>C1: After any history of polite calls, every subscriber of a topic is a node the master
  can call at the address it registered, and what it was last told about the topic (by the answer
  to its registration or by the latest queued publisher update) is the current list of publisher
  addresses.\<close>

theorem subscribers_informed:
  assumes "history m g" and "reg \<in> set (members_at (subscriptions (master_registry m)) topic)"
  shows "\<exists>n given. nodes (master_registry m) (caller_id reg) = Some n \<and> node_api n = reg_api reg \<and>
    topic \<in> set (node_subscriptions n) \<and> g (caller_id reg, topic) = Some given \<and>
    last_told (node_outbox n) topic given =
      map reg_api (members_at (publications (master_registry m)) topic)"
proof -
  have "mirrored (nodes (master_registry m)) node_subscriptions (subscriptions (master_registry m))"
    using assms(1) history_reachable reachable_master_ok
    by (auto simp: master_ok_def core_inv_def base_inv_def)
  from mirroredD [OF this, of reg topic] informedD [OF history_informed [OF assms(1)] assms(2)] assms(2)
  show ?thesis by (auto simp: outbox_of_def)
qed

theorem subscribers_informed_witness:
  "history (demo_master demo_3) demo_answers \<and>
   listener \<in> set (members_at (subscriptions demo_3) ''/c'') \<and>
   (\<exists>n given. nodes demo_3 ''/l'' = Some n \<and> demo_answers (''/l'', ''/c'') = Some given \<and>
      last_told (node_outbox n) ''/c'' given = [''http://u''])"
proof -
  have reg: "listener \<in> set (members_at (subscriptions (master_registry (demo_master demo_3))) ''/c'')"
    by (simp add: demo_3_def demo_2_def demo_1_def members_at_def)
  have "publisher_apis demo_3 ''/c'' = [''http://u'']"
    by (simp add: demo_3_def members_at_def)
  with subscribers_informed [OF demo_history reg] demo_history reg show ?thesis
    by (simp add: listener_def) blast
qed

text \<open>C12: After any sequence of polite calls the master's dictionaries and nodes agree:
  publications and subscriptions are exactly the topics of the nodes' own lists under their current
  addresses, every service belongs to a node that lists it, every node is registered for something
  and has an open queue; the parameter subscriptions are of normalised keys and the parameter tree
  is well-formed.\<close>

theorem reachable_consistent:
  assumes "reachable m"
  shows "mirrored (nodes (master_registry m)) node_publications (publications (master_registry m)) \<and>
    mirrored (nodes (master_registry m)) node_subscriptions (subscriptions (master_registry m)) \<and>
    services_known (master_registry m) \<and>
    (\<forall>c. pred_option (\<lambda>n. has_any_registration n \<and> \<not> node_closed n) (nodes (master_registry m) c)) \<and>
    param_subs_ok (master_registry m) \<and> wf_params (param_cache m)"
proof -
  have "pred_option (\<lambda>n. has_any_registration n \<and> \<not> node_closed n) (nodes (master_registry m) c)" for c
    using reachable_master_ok [OF assms]
    by (cases "nodes (master_registry m) c") (simp_all add: master_ok_def core_inv_def base_inv_def
        pred_option_def split: option.splits)
  with reachable_master_ok [OF assms] show ?thesis
    by (simp add: master_ok_def core_inv_def base_inv_def)
qed

theorem reachable_consistent_witness:
  "mirrored (nodes demo_3) node_publications (publications demo_3)"
  using reachable_consistent [OF history_reachable [OF demo_history]] by simp

section \<open>Re-registration\<close>

text \<open>C19: A node that registers under another address replaces the old one: the caller gets a
  fresh node at the new address, every publication, subscription and service of it is gone from the
  dictionaries and nothing else is, and the old node is told to shut down. Its parameter
  subscriptions stay in the dictionary.\<close>

theorem reregistration_purges:
  assumes "nodes r c = Some n" and "node_api n \<noteq> a"
  shows "nodes (register_node c a r) c = Some (new_node a) \<and>
    (\<forall>t. members_at (publications (register_node c a r)) t =
       filter (\<lambda>reg. caller_id reg \<noteq> c) (members_at (publications r) t)) \<and>
    (\<forall>t. members_at (subscriptions (register_node c a r)) t =
       filter (\<lambda>reg. caller_id reg \<noteq> c) (members_at (subscriptions r) t)) \<and>
    services (register_node c a r) = filter (\<lambda>(s, reg). caller_id reg \<noteq> c) (services r) \<and>
    param_subscribers (register_node c a r) = param_subscribers r \<and>
    (\<exists>old. retired (register_node c a r) = retired r @ [old] \<and> node_api old = node_api n \<and>
       Shutdown ''new node registered with same name'' \<in> set (node_outbox old))"
proof (cases rule: register_node_cases [where r = r and c = c and a = a])
  case (replaced n' old)
  let ?m = "modify_node c (node_shutdown ''new node registered with same name'') r"
  obtain ts where "nodes (unregister_all c ?m) c = map_option (extend_outbox ts) (nodes ?m c)"
    using same_nodes_at [OF same_nodes_unregister_all] by blast
  with replaced(3) assms(1) have "node_api old = node_api n"
    "Shutdown ''new node registered with same name'' \<in> set (node_outbox old)"
    by (auto simp: registry_simps node_shutdown_def send_task_def)
  then show ?thesis
    unfolding replaced(4) by (auto simp: registry_simps)
qed (use assms in simp_all)

theorem reregistration_purges_witness:
  "members_at (publications (register_node ''/t'' ''http://u'' demo_2)) ''/c'' = []"
proof -
  have t: "nodes demo_2 ''/t'' = Some ((new_node ''http://t'')\<lparr>node_publications := [''/c'']\<rparr>)"
    by (simp add: demo_2_def)
  have "members_at (publications demo_2) ''/c'' = [\<lparr>caller_id = ''/t'', reg_api = ''http://t''\<rparr>]"
    by (simp add: demo_2_def members_at_def)
  with reregistration_purges [OF t, of "''http://u''"] show ?thesis
    by (simp add: new_node_def)
qed

section \<open>Parameters as a client sees them\<close>

lemma getParam_val_at:
  "fst (getParam c key m) =
     (case val_at (PDict (param_cache m)) (split key) of
        Some v \<Rightarrow> Inr (1, [], v)
      | None \<Rightarrow> Inr (-1, not_set key, PInt 0))"
proof (cases "getitem (param_cache m) key")
  case (Inl e)
  then have "val_at (PDict (param_cache m)) (split key) = None"
    using getitem_eq_Inr [of "param_cache m" key] by (cases "val_at (PDict (param_cache m)) (split key)") auto
  with Inl getitem_eq_Inl [OF Inl] show ?thesis by (auto simp: getParam_def is_KeyError_def)
next
  case (Inr v)
  with getitem_eq_Inr [of "param_cache m" key v] show ?thesis by (simp add: getParam_def)
qed

lemma setParam_stored:
  "fst (setParam c key v m) = Inr reply \<Longrightarrow>
     setitem (param_cache m) key v = Inr (param_cache (snd (setParam c key v m)))"
  by (cases "setitem (param_cache m) key v") (simp_all add: setParam_def notify_params_def Let_def
      split: prod.splits sum.splits)

text \<open>C22: After a successful \<open>setParam\<close>, \<open>getParam\<close> of the key or of anything below it answers
  what the value has there (or that it is not set, when the value has nothing there), for every
  client, and a key that is neither above nor below it answers as before.\<close>

theorem setParam_getParam:
  assumes "fst (setParam c key v m) = Inr reply"
  shows "(\<forall>c' key' qs. split key' = split key @ qs \<longrightarrow>
      fst (getParam c' key' (snd (setParam c key v m))) =
        (case val_at v qs of Some w \<Rightarrow> Inr (1, [], w) | None \<Rightarrow> Inr (-1, not_set key', PInt 0))) \<and>
    (\<forall>c' key'. \<not> prefix (split key) (split key') \<and> \<not> prefix (split key') (split key) \<longrightarrow>
      fst (getParam c' key' (snd (setParam c key v m))) = fst (getParam c' key' m))"
  using setitem_val_at [OF setParam_stored [OF assms]] setitem_other [OF setParam_stored [OF assms]]
  by (simp add: getParam_val_at)

theorem setParam_getParam_witness:
  "fst (getParam ''/n'' ''/a/b'' (snd (setParam ''/n'' ''/a'' (PDict [(''b'', PInt 3)])
     (demo_master demo_3)))) = Inr (1, [], PInt 3)"
proof -
  have sp: "split ''a'' = [''a'']" "split ''a/b'' = [''a''] @ [''b'']"
    by (simp_all add: split_def)
  have "fst (setParam ''/n'' ''/a'' (PDict [(''b'', PInt 3)]) (demo_master demo_3)) = Inr (1, [], PInt 0)"
    by (simp add: setParam_def setitem_def sp(1) Let_def notify_params_def on_param_update_def demo_3_def demo_2_def
        demo_1_def empty_registry_def)
  from setParam_getParam [OF this] show ?thesis by (simp add: sp)
qed

lemma deleteParam_deleted:
  "fst (deleteParam c key m) = Inr (1, msg, v) \<Longrightarrow>
     delitem (param_cache m) key = Inr (param_cache (snd (deleteParam c key m)))"
  by (cases "delitem (param_cache m) key")
    (simp_all add: deleteParam_def notify_params_def Let_def split: prod.splits sum.splits if_splits)

text \<open>C23: After a successful \<open>deleteParam\<close> the key and everything below it answer that they are
  not set, and a key that is neither above nor below it answers as before.\<close>

theorem deleteParam_getParam:
  assumes "fst (deleteParam c key m) = Inr (1, msg, v)"
  shows "(\<forall>c' key' qs. split key' = split key @ qs \<longrightarrow>
      fst (getParam c' key' (snd (deleteParam c key m))) = Inr (-1, not_set key', PInt 0)) \<and>
    (\<forall>c' key'. \<not> prefix (split key) (split key') \<and> \<not> prefix (split key') (split key) \<longrightarrow>
      fst (getParam c' key' (snd (deleteParam c key m))) = fst (getParam c' key' m))"
  using delitem_val_at [OF deleteParam_deleted [OF assms]] by (simp add: getParam_val_at)

theorem deleteParam_getParam_witness:
  "fst (getParam ''/n'' ''/a'' (snd (deleteParam ''/n'' ''/a''
     ((demo_master demo_3)\<lparr>param_cache := [(''a'', PInt 1), (''b'', PInt 2)]\<rparr>)))) =
   Inr (-1, not_set ''/a'', PInt 0)"
proof -
  let ?m = "(demo_master demo_3)\<lparr>param_cache := [(''a'', PInt 1), (''b'', PInt 2)]\<rparr>"
  have sp: "split ''a'' = [''a'']" by (simp add: split_def)
  have "fst (deleteParam ''/n'' ''/a'' ?m) = Inr (1, [], PInt 0)"
    by (simp add: deleteParam_def delitem_def getitem_def del_subkey_def put_dict_def sp Let_def
        notify_params_def on_param_update_def demo_3_def demo_2_def demo_1_def empty_registry_def)
  from deleteParam_getParam [OF this] show ?thesis by (simp add: sp)
qed

text \<open>C27: \<open>getParamNames\<close> answers the absolute names of exactly the parameters whose value is
  no dict, each once.\<close>

theorem getParamNames_exact:
  assumes "reachable m"
  shows "\<exists>names. fst (getParamNames c m) = Inr (1, [], PList (map PStr names)) \<and> distinct names \<and>
    (\<forall>key. key \<in> set names \<longleftrightarrow>
       canonical key \<and> (\<exists>v. fst (getParam c key m) = Inr (1, [], v) \<and> \<not> is_dict v))"
proof -
  have wf: "wf_params (param_cache m)" using reachable_master_ok [OF assms] by (simp add: master_ok_def)
  have "fst (getParam c key m) = Inr (1, [], v) \<longleftrightarrow> getitem (param_cache m) key = Inr v" for key v
    by (simp add: getParam_val_at getitem_eq_Inr split: option.splits)
  with set_keys [OF wf] distinct_keys [OF wf] show ?thesis
    by (auto simp: getParamNames_def intro!: exI [of _ "keys (param_cache m)"])
qed

theorem getParamNames_exact_witness:
  "\<exists>names. fst (getParamNames ''/n'' (demo_master demo_3)) = Inr (1, [], PList (map PStr names)) \<and>
     distinct names"
  using getParamNames_exact [OF history_reachable [OF demo_history], of "''/n''"] by auto

text \<open>C28: \<open>searchParam\<close> of a relative key \<open>k/rest\<close> answers a key exactly when some namespace
  from the caller's own up to the root holds \<open>k\<close>; the answer is the given key in the innermost
  of these namespaces, whether or not it is set there.\<close>

theorem searchParam_innermost:
  assumes "\<not> prefix ''/'' key" and "split key = k # ks"
  shows "(\<exists>found n. fst (searchParam c key m) = Inr (1, [], PStr found) \<and> n \<le> length (split c) \<and>
      split found = take n (split c) @ split key \<and> holds_at (param_cache m) (split c) k n \<and>
      (\<forall>j. n < j \<and> j \<le> length (split c) \<longrightarrow> \<not> holds_at (param_cache m) (split c) k j)) \<or>
    fst (searchParam c key m) = Inr (1, [], PNone) \<and>
      (\<forall>n\<le>length (split c). \<not> holds_at (param_cache m) (split c) k n)"
proof -
  have "\<exists>found. search (param_cache m) key c = Inr found"
    using assms by (simp add: search_def)
  then obtain found where f: "search (param_cache m) key c = Inr found" by blast
  show ?thesis
  proof (cases found)
    case None
    with search_relative_None [OF assms] f show ?thesis by (simp add: searchParam_def)
  next
    case (Some k')
    with search_relative_Some [OF assms] f show ?thesis by (fastforce simp: searchParam_def)
  qed
qed

theorem searchParam_innermost_witness:
  "fst (searchParam ''/ns/n'' ''a/b'' ((demo_master demo_3)\<lparr>param_cache := [(''a'', PInt 1)]\<rparr>)) \<noteq>
     Inr (1, [], PNone)"
proof -
  let ?m = "(demo_master demo_3)\<lparr>param_cache := [(''a'', PInt 1)]\<rparr>"
  have "split ''a/b'' = ''a'' # [''b'']" by (simp add: split_def)
  moreover have "holds_at (param_cache ?m) (split ''/ns/n'') ''a'' 0" by (simp add: holds_at_def)
  ultimately show ?thesis using searchParam_innermost [of "''a/b''" "''a''" "[''b'']" "''/ns/n''" ?m] by auto
qed

section \<open>Where a call raises\<close>


text \<open>
  A node that follows a parameter: \<open>follow_1\<close>. It registers again under another address and
  unregisters: \<open>stale_1\<close> to \<open>stale_2\<close>.
\<close>

lemma normalize_p: "normalize_namespace (join [''/p'']) = Inr ''/p/''"
  by (simp add: normalize_namespace_def join_def split_def Let_def suffix_single_iff)

definition follow_1 :: registry where
  "follow_1 = empty_registry\<lparr>param_subscribers := [(''/p/'', [\<lparr>caller_id = ''/s'', reg_api = ''http://a''\<rparr>])],
     nodes := [''/s'' \<mapsto> (new_node ''http://a'')\<lparr>node_param_subscriptions := [''/p/'']\<rparr>]\<rparr>"

definition old_follower :: mnode where
  "old_follower = (new_node ''http://a'')\<lparr>node_param_subscriptions := [''/p/''],
     node_outbox := [Shutdown ''new node registered with same name'']\<rparr>"

definition stale_1 :: registry where
  "stale_1 = follow_1\<lparr>topic_types := [(''/c'', ''S'')],
     subscriptions := [(''/c'', [\<lparr>caller_id = ''/s'', reg_api = ''http://b''\<rparr>])],
     nodes := [''/s'' \<mapsto> (new_node ''http://b'')\<lparr>node_subscriptions := [''/c'']\<rparr>],
     retired := [old_follower]\<rparr>"

definition stale_2 :: registry where
  "stale_2 = follow_1\<lparr>nodes := Map.empty,
     retired := [old_follower, (new_node ''http://b'')\<lparr>node_closed := True\<rparr>]\<rparr>"

lemma follow_step_1:
  "register_param_subscriber ''/p'' ''/s'' ''http://a'' empty_registry = (Inr (), follow_1)"
  by (simp add: register_param_subscriber_def normalize_p [simplified])
    (simp add: registry_eval follow_1_def)

lemma stale_step_1: "register_subscriber ''/c'' ''S'' ''/s'' ''http://b'' follow_1 = stale_1"
  by (simp add: registry_eval follow_1_def stale_1_def old_follower_def)

lemma stale_step_2: "unregister_subscriber ''/c'' ''/s'' ''http://b'' stale_1 = stale_2"
  by (simp add: registry_eval follow_1_def stale_1_def stale_2_def unregister_subscriber_def
      discard_member_def check_node_def check_topic_def has_any_registration_def)

lemma reachable_follow_1: "reachable (demo_master follow_1)"
proof -
  have start: "reachable (demo_master empty_registry)"
    using start [of 7 "''http://m''"] by (simp add: initial_master_def)
  have "handle ''/s'' (SubscribeParam ''http://a'' ''/p'') (demo_master empty_registry) =
      (Inr (1, [], PDict []), demo_master follow_1)"
    by (simp add: subscribeParam_def with_registry_def follow_step_1 subscribed_value_def
        initial_master_def getitem_def split_def is_KeyError_def)
  from call [OF start _ this] show ?thesis by simp
qed

lemma reachable_stale_2: "reachable (demo_master stale_2)"
proof -
  have "handle ''/s'' (RegisterSubscriber ''/c'' ''S'' ''http://b'') (demo_master follow_1) =
      (Inr (1, [], strings []), demo_master stale_1)"
    by (simp add: registerSubscriber_def Let_def stale_step_1)
      (simp add: stale_1_def follow_1_def empty_registry_def members_at_def)
  from call [OF reachable_follow_1 _ this] have r: "reachable (demo_master stale_1)" by simp
  have "handle ''/s'' (UnregisterSubscriber ''/c'' ''http://b'') (demo_master stale_1) =
      (Inr (1, [], PInt 1), demo_master stale_2)"
    by (simp add: unregisterSubscriber_def stale_step_2)
  from call [OF r _ this] show ?thesis by (simp add: owns_address_def stale_1_def new_node_def)
qed


text \<open>Re-registration breaks parameters: after a polite history in which a node with a parameter
  subscription registers under a new address and then unregisters, a \<open>setParam\<close> of the key by
  another client stores the value and then raises \<open>KeyError\<close>.\<close>

theorem stale_follower_fault:
  "\<exists>m. reachable m \<and> param_cache m = [] \<and>
    (\<forall>v. fst (setParam ''/x'' ''/p'' v m) = Inl (KeyError ''/s'') \<and>
      param_cache (snd (setParam ''/x'' ''/p'' v m)) = [(''p'', v)])"
proof (intro exI conjI allI)
  fix v
  have "on_param_update ''/p'' v ''/x'' stale_2 = (Inl (KeyError ''/s''), stale_2)"
    by (simp add: on_param_update_def normalize_p [simplified] Let_def stale_2_def follow_1_def
        notify_related_def related_update_def send_param_update_def)
  then show "fst (setParam ''/x'' ''/p'' v (demo_master stale_2)) = Inl (KeyError ''/s'')"
    "param_cache (snd (setParam ''/x'' ''/p'' v (demo_master stale_2))) = [(''p'', v)]"
    by (simp_all add: setParam_def setitem_def split_def Let_def notify_params_def initial_master_def)
qed (use reachable_stale_2 in \<open>simp_all add: initial_master_def\<close>)

section \<open>Topics and services\<close>

text \<open>\<open>getPublishedTopics\<close> answers the entries of the publication table below the subgraph with
  their types, unless one of them has no type: then it raises. A publisher of type \<open>*\<close> brings
  that about.\<close>

theorem getPublishedTopics_spec:
  "fst (getPublishedTopics c sg m) =
     (if find (\<lambda>t. prefix sg t \<and> map_of (topic_types (master_registry m)) t = None)
           (map fst (publications (master_registry m))) = None
      then Inr (1, [], PList (map (\<lambda>t. strings [t, the (map_of (topic_types (master_registry m)) t)])
        (filter (prefix sg) (map fst (publications (master_registry m))))))
      else Inl (KeyError (the (find (\<lambda>t. prefix sg t \<and> map_of (topic_types (master_registry m)) t = None)
           (map fst (publications (master_registry m)))))))"
proof -
  have "published_topics types sg topics = (case find (\<lambda>t. prefix sg t \<and> map_of types t = None) topics of
      None \<Rightarrow> Inr (map (\<lambda>t. strings [t, the (map_of types t)]) (filter (prefix sg) topics))
    | Some t \<Rightarrow> Inl (KeyError t))" for types topics
    by (induction topics) (auto simp: bind_result_def split: option.splits)
  then show ?thesis by (simp add: getPublishedTopics_def Let_def split: option.splits)
qed

lemma services_register_node:
  "owns_address c a r \<Longrightarrow> services (register_node c a r) = services r"
  by (cases rule: register_node_cases [where r = r and c = c and a = a])
    (simp_all add: owns_address_def registry_simps)

text \<open>\<open>lookupService\<close> answers the address registered last, whoever provided it before; once
  anybody has unregistered the service, provider or not, it is unknown; and a provider that keeps
  its address leaves the other services alone.\<close>

theorem services_lookup:
  assumes "owns_address c a (master_registry m)"
  shows "fst (lookupService c' s (snd (registerService c s sa a m))) = Inr (1, [], PStr sa) \<and>
    fst (lookupService c' s (snd (unregisterService c'' s sa' m))) =
      Inr (-1, [], PStr (''unknown service '' @ s)) \<and>
    (s' \<noteq> s \<longrightarrow>
      fst (lookupService c' s' (snd (registerService c s sa a m))) = fst (lookupService c' s' m) \<and>
      fst (lookupService c' s' (snd (unregisterService c'' s sa' m))) = fst (lookupService c' s' m))"
  using services_register_node [OF assms]
  by (simp add: lookupService_def registerService_def unregisterService_def register_service_def
      unregister_service_def Let_def registry_simps split: option.splits)

theorem services_lookup_witness:
  "fst (lookupService ''/x'' ''/add'' (snd (registerService ''/l'' ''/add'' ''rosrpc://l:1'' ''http://l''
     (demo_master demo_3)))) = Inr (1, [], PStr ''rosrpc://l:1'')"
proof -
  have "owns_address ''/l'' ''http://l'' (master_registry (demo_master demo_3))"
    by (simp add: owns_address_def demo_3_def new_node_def)
  from services_lookup [OF this] show ?thesis by blast
qed

end
