(* ===== verification/Node_Params.thy ===== *)
theory Node_Params
  imports Values
begin

text \<open>
  The parameter cache of a node, \<open>aioros/_node/_param_cache.py\<close>: the values of the keys the
  node has subscribed at the master, by joined key (no leading slash). A key is looked up in the
  first cached namespace around it, from the root inwards.

  The model copies values. In the code \<open>update\<close> stores the very object it is given, so an
  entry for a namespace and one for a key below it share dicts after an update of the latter, and
  a later \<open>delete\<close> changes both at once. The properties about writing are stated for caches
  in which no cached key lies below another (\<open>flat\<close>), where each dict belongs to one entry.
\<close>

section \<open>Operations\<close>

definition iter_namespaces :: "string \<Rightarrow> string list" where
  "iter_namespaces key =
     (let splitted = split key in map (\<lambda>i. join (take i splitted)) [0..<length splitted] @ [key])"

definition canonical_key :: "string \<Rightarrow> string" where
  "canonical_key key = join (split key)"

definition cache_contains :: "params \<Rightarrow> string \<Rightarrow> bool" where
  "cache_contains ps key =
     list_ex (\<lambda>namespace. namespace \<in> dom (map_of ps)) (iter_namespaces (canonical_key key))"

text \<open>\<open>for namespace in split(key): value = value[namespace]\<close>\<close>

fun descend :: "string \<Rightarrow> pyval \<Rightarrow> string list \<Rightarrow> pyval result" where
  "descend key v [] = Inr v"
| "descend key (PDict d) (k # ks) =
     (case map_of d k of None \<Rightarrow> Inl (KeyError k) | Some v \<Rightarrow> descend key v ks)"
| "descend key _ (k # ks) = Inl (KeyError key)"

definition cache_get :: "params \<Rightarrow> string \<Rightarrow> pyval result" where
  "cache_get ps key =
     (let key' = canonical_key key in
      case find (\<lambda>namespace. namespace \<in> dom (map_of ps)) (iter_namespaces key') of
        None \<Rightarrow> Inl (KeyError key')
      | Some namespace \<Rightarrow>
          let rest = drop (length namespace) key' in
          descend rest (the (map_of ps namespace)) (split rest))"

definition cache_add :: "string \<Rightarrow> pyval \<Rightarrow> params \<Rightarrow> params" where
  "cache_add key value ps = AList.update (canonical_key key) value ps"

text \<open>The walk of \<open>_update_cache\<close>: \<open>None\<close> when it meets a value that is no dict.\<close>

fun update_at :: "pyval \<Rightarrow> string list \<Rightarrow> pyval \<Rightarrow> pyval option" where
  "update_at cache [] value = Some value"
| "update_at (PDict d) [part] value = Some (PDict (AList.update part value d))"
| "update_at (PDict d) (part # p # ps) value =
     (case update_at (case map_of d part of None \<Rightarrow> PDict [] | Some u \<Rightarrow> u) (p # ps) value of
        None \<Rightarrow> None
      | Some u \<Rightarrow> Some (PDict (AList.update part u d)))"
| "update_at _ (part # ps) value = None"

definition update_cache :: "string \<Rightarrow> string \<Rightarrow> pyval \<Rightarrow> params \<Rightarrow> (unit, params) outcome" where
  "update_cache namespace key value ps =
     (case map_of ps namespace of
        None \<Rightarrow> (Inl (KeyError namespace), ps)
      | Some cache \<Rightarrow>
          (case update_at cache (split key) value of
             None \<Rightarrow> (Inl (KeyError (join [namespace, key])), ps)
           | Some cache' \<Rightarrow> (Inr (), AList.update namespace cache' ps)))"

text \<open>A loop over the cached namespaces of a key.\<close>

definition each_cached ::
    "(string \<Rightarrow> string \<Rightarrow> params \<Rightarrow> (unit, params) outcome) \<Rightarrow> string \<Rightarrow> params \<Rightarrow> (unit, params) outcome" where
  "each_cached f key ps =
     (let key' = canonical_key key in
      for_each
        (\<lambda>namespace ps'.
           if namespace \<in> dom (map_of ps') then f namespace (drop (length namespace) key') ps'
           else (Inr (), ps'))
        (iter_namespaces key') ps)"

definition cache_update :: "string \<Rightarrow> pyval \<Rightarrow> params \<Rightarrow> (unit, params) outcome" where
  "cache_update key value = each_cached (\<lambda>namespace rest. update_cache namespace rest value) key"

text \<open>
  The walk of \<open>_delete_cache\<close> below a namespace: a missing key on the way ends it, a missing last
  key raises.
\<close>

fun delete_at :: "string \<Rightarrow> pyval \<Rightarrow> string list \<Rightarrow> pyval result" where
  "delete_at err cache [] = Inr cache"
| "delete_at err (PDict d) [part] =
     (case map_of d part of
        None \<Rightarrow> Inl (KeyError part)
      | Some _ \<Rightarrow> Inr (PDict (AList.delete part d)))"
| "delete_at err (PDict d) (part # p # ps) =
     (case map_of d part of
        None \<Rightarrow> Inr (PDict d)
      | Some u \<Rightarrow> bind_result (delete_at err u (p # ps)) (\<lambda>u'. Inr (PDict (AList.update part u' d))))"
| "delete_at err _ (part # ps) = Inl (KeyError err)"

definition delete_cache :: "string \<Rightarrow> string \<Rightarrow> params \<Rightarrow> (unit, params) outcome" where
  "delete_cache namespace key ps =
     (if split key = [] then (Inr (), ps)
      else
        case map_of ps namespace of
          None \<Rightarrow> (Inl (KeyError namespace), ps)
        | Some cache \<Rightarrow>
            (case delete_at (join [namespace, key]) cache (split key) of
               Inl e \<Rightarrow> (Inl e, ps)
             | Inr cache' \<Rightarrow> (Inr (), AList.update namespace cache' ps)))"

definition cache_delete :: "string \<Rightarrow> params \<Rightarrow> (unit, params) outcome" where
  "cache_delete key = each_cached delete_cache key"

section \<open>Keys as paths\<close>

text \<open>The entry for a path, and the namespaces of a key as its prefixes.\<close>

definition entry :: "params \<Rightarrow> string list \<Rightarrow> pyval option" where
  "entry ps path = map_of ps (join_with ''/'' path)"

lemma canonical_key_path: "canonical_key key = join_with ''/'' (split key)"
  using valid_path_split by (simp add: canonical_key_def join_valid_path)

lemma iter_namespaces_path:
  "valid_path path \<Longrightarrow> iter_namespaces (join_with ''/'' path) =
     map (\<lambda>i. join_with ''/'' (take i path)) [0..<Suc (length path)]"
proof -
  assume v: "valid_path path"
  then have "join (take i path) = join_with ''/'' (take i path)" for i
    by (intro join_valid_path) (auto dest: in_set_takeD)
  with v show ?thesis by (simp add: iter_namespaces_def split_join_with)
qed

lemma drop_namespace:
  assumes "valid_path (ps @ qs)"
  shows "split (drop (length (join_with ''/'' ps)) (join_with ''/'' (ps @ qs))) = qs"
proof (cases "ps = [] \<or> qs = []")
  case True
  with assms show ?thesis by (auto simp: split_join_with)
next
  case False
  with assms show ?thesis by (simp add: join_with_append split_join_with)
qed

lemma drop_namespace_take:
  "valid_path path \<Longrightarrow>
     split (drop (length (join_with ''/'' (take i path))) (join_with ''/'' path)) = drop i path"
  using drop_namespace [of "take i path" "drop i path"] by simp

lemma cache_contains_path:
  "cache_contains ps key \<longleftrightarrow> (\<exists>i\<le>length (split key). entry ps (take i (split key)) \<noteq> None)"
proof -
  have "iter_namespaces (canonical_key key) =
      map (\<lambda>i. join_with ''/'' (take i (split key))) [0..<Suc (length (split key))]"
    unfolding canonical_key_path by (rule iter_namespaces_path [OF valid_path_split])
  then show ?thesis
    by (auto simp: cache_contains_def entry_def list_ex_iff less_Suc_eq_le domIff simp del: upt_Suc)
qed

lemma descend_eq_Inr: "descend key v ks = Inr w \<longleftrightarrow> val_at v ks = Some w"
  by (induction key v ks rule: descend.induct) (auto split: option.splits)

lemma descend_eq_Inl: "descend key v ks = Inl e \<Longrightarrow> \<exists>k. e = KeyError k"
  by (induction key v ks rule: descend.induct) (auto split: option.splits)

text \<open>The cached namespace a lookup uses: the outermost one.\<close>

definition outermost :: "params \<Rightarrow> string list \<Rightarrow> nat option" where
  "outermost ps path = find (\<lambda>i. entry ps (take i path) \<noteq> None) [0..<Suc (length path)]"

lemma find_map: "find P (map f xs) = map_option f (find (\<lambda>x. P (f x)) xs)"
  by (induction xs) auto

lemma cache_get_path:
  "cache_get ps key =
     (case outermost ps (split key) of
        None \<Rightarrow> Inl (KeyError (canonical_key key))
      | Some i \<Rightarrow>
          descend (drop (length (join_with ''/'' (take i (split key)))) (canonical_key key))
            (the (entry ps (take i (split key)))) (drop i (split key)))"
proof -
  have "find (\<lambda>namespace. namespace \<in> dom (map_of ps)) (iter_namespaces (canonical_key key)) =
      map_option (\<lambda>i. join_with ''/'' (take i (split key))) (outermost ps (split key))"
    unfolding canonical_key_path iter_namespaces_path [OF valid_path_split] find_map outermost_def
    by (simp add: entry_def domIff)
  then show ?thesis
    unfolding cache_get_def Let_def
    by (cases "outermost ps (split key)")
      (simp_all add: entry_def canonical_key_path drop_namespace_take [OF valid_path_split])
qed

text \<open>A lookup succeeds exactly when the outermost cached namespace has a value at the rest.\<close>

lemma cache_get_eq_Inr:
  "cache_get ps key = Inr v \<longleftrightarrow>
     (\<exists>i cached. outermost ps (split key) = Some i \<and> entry ps (take i (split key)) = Some cached \<and>
        val_at cached (drop i (split key)) = Some v)"
proof (cases "outermost ps (split key)")
  case (Some i)
  then have "entry ps (take i (split key)) \<noteq> None"
    unfolding outermost_def by (auto dest: find_upt_Some simp del: upt_Suc)
  with Some show ?thesis by (auto simp: cache_get_path descend_eq_Inr)
qed (simp add: cache_get_path)

section \<open>Flat caches\<close>

definition flat :: "params \<Rightarrow> bool" where
  "flat ps \<longleftrightarrow> (\<forall>p q. valid_path q \<and> prefix p q \<and> entry ps p \<noteq> None \<and> entry ps q \<noteq> None \<longrightarrow> p = q)"

lemma flat_outermost:
  assumes "flat ps" "valid_path path" "i \<le> length path" "entry ps (take i path) \<noteq> None"
  shows "j \<le> length path \<Longrightarrow> entry ps (take j path) \<noteq> None \<longleftrightarrow> j = i"
proof -
  have same: "a = b" if "a \<le> b" "b \<le> length path" "entry ps (take a path) \<noteq> None"
    "entry ps (take b path) \<noteq> None" for a b
  proof -
    have "prefix (take a path) (take b path)"
      using that by (metis min.absorb1 take_is_prefix take_take)
    moreover have "valid_path (take b path)" using assms(2) by (auto dest: in_set_takeD)
    ultimately have "take a path = take b path" using assms(1) that(3,4) unfolding flat_def by blast
    then have "length (take a path) = length (take b path)" by simp
    with that show ?thesis by simp
  qed
  show "j \<le> length path \<Longrightarrow> entry ps (take j path) \<noteq> None \<longleftrightarrow> j = i"
    using same [of i j] same [of j i] assms(3,4) by (metis linear)
qed

text \<open>In a flat cache a loop over the cached namespaces works on one entry, or on none.\<close>

lemma each_cached_flat:
  assumes "flat ps" "split key = p @ q" "entry ps p \<noteq> None"
    and keeps: "\<And>ns rest ps'. dom (map_of (snd (f ns rest ps'))) = dom (map_of ps')"
  shows "each_cached f key ps =
    f (join_with ''/'' p) (drop (length (join_with ''/'' p)) (canonical_key key)) ps"
proof -
  let ?body = "\<lambda>namespace ps'. if namespace \<in> dom (map_of ps')
      then f namespace (drop (length namespace) (canonical_key key)) ps' else (Inr (), ps')"
  let ?n = "\<lambda>i. join_with ''/'' (take i (split key))"
  have v: "valid_path (split key)" by (rule valid_path_split)
  have cached: "?n j \<in> dom (map_of ps) \<longleftrightarrow> j = length p" if "j \<le> length (split key)" for j
    using flat_outermost [OF assms(1) v, of "length p" j] assms(2,3) that by (simp add: entry_def domIff)
  have p: "?n (length p) = join_with ''/'' p" using assms(2) by simp
  then have b: "?body (join_with ''/'' p) ps =
      f (join_with ''/'' p) (drop (length (join_with ''/'' p)) (canonical_key key)) ps"
    using cached [of "length p"] assms(2) by simp
  have "for_each ?body (map ?n [0..<length p] @ join_with ''/'' p #
      map ?n [Suc (length p)..<Suc (length (split key))]) ps = ?body (join_with ''/'' p) ps"
  proof (rule for_each_single)
    fix x assume "x \<in> set (map ?n [0..<length p])"
    then obtain j where "x = ?n j" "j < length p" by auto
    with cached [of j] assms(2) have "x \<notin> dom (map_of ps)" by simp
    then show "?body x ps = (Inr (), ps)" by simp
  next
    fix z assume "z \<in> set (map ?n [Suc (length p)..<Suc (length (split key))])"
    then obtain j where "z = ?n j" "length p < j" "j \<le> length (split key)"
      by (auto simp: less_Suc_eq_le simp del: upt_Suc)
    with cached [of j] have "z \<notin> dom (map_of ps)" by simp
    then show "?body z (snd (?body (join_with ''/'' p) ps)) = (Inr (), snd (?body (join_with ''/'' p) ps))"
      unfolding b using keeps by simp
  qed
  moreover have "map ?n [0..<Suc (length (split key))] =
      map ?n [0..<length p] @ join_with ''/'' p # map ?n [Suc (length p)..<Suc (length (split key))]"
    using assms(2) p upt_add_eq_append [of 0 "length p" "Suc (length q)"] upt_conv_Cons [of "length p"]
    by (simp del: upt_Suc)
  ultimately show ?thesis
    using b unfolding each_cached_def Let_def canonical_key_path iter_namespaces_path [OF v] by argo
qed

lemma each_cached_none:
  assumes "\<And>p. prefix p (split key) \<Longrightarrow> entry ps p = None"
  shows "each_cached f key ps = (Inr (), ps)"
proof -
  have "join_with ''/'' (take i (split key)) \<notin> dom (map_of ps)" for i
    using assms [OF take_is_prefix] by (simp add: entry_def domIff)
  then show ?thesis
    unfolding each_cached_def Let_def canonical_key_path iter_namespaces_path [OF valid_path_split]
    by (intro for_each_skip) (auto simp del: upt_Suc)
qed

section \<open>Writing to a flat cache\<close>

lemma entry_update:
  "valid_path p \<Longrightarrow> valid_path q \<Longrightarrow>
     entry (AList.update (join_with ''/'' p) v ps) q = (if q = p then Some v else entry ps q)"
  using split_join_with [of p] split_join_with [of q] by (auto simp: entry_def)

lemma valid_path_append: "valid_path (p @ q) \<longleftrightarrow> valid_path p \<and> valid_path q"
  by auto

lemma dom_update_cache: "dom (map_of (snd (update_cache ns rest v ps))) = dom (map_of ps)"
  by (auto simp: update_cache_def split: option.splits)

lemma dom_delete_cache: "dom (map_of (snd (delete_cache ns rest ps))) = dom (map_of ps)"
  by (auto simp: delete_cache_def split: option.splits sum.splits)

lemma cache_update_flat_eq:
  assumes "flat ps" "split key = p @ q" "entry ps p = Some cached"
  shows "cache_update key v ps =
    (case update_at cached q v of
       None \<Rightarrow> (Inl (KeyError (join [join_with ''/'' p, drop (length (join_with ''/'' p)) (canonical_key key)])), ps)
     | Some new \<Rightarrow> (Inr (), AList.update (join_with ''/'' p) new ps))"
proof -
  have "split (drop (length (join_with ''/'' p)) (canonical_key key)) = q"
    unfolding canonical_key_path using drop_namespace [of p q] valid_path_split [of key] assms(2) by simp
  with assms show ?thesis
    unfolding cache_update_def
    by (subst each_cached_flat [OF assms(1,2)])
      (simp_all only: dom_update_cache, simp_all add: update_cache_def entry_def)
qed

lemma cache_update_flat:
  assumes "flat ps" "split key = p @ q" "entry ps p = Some cached" "update_at cached q v = Some new"
  shows "cache_update key v ps = (Inr (), AList.update (join_with ''/'' p) new ps)"
  using cache_update_flat_eq [OF assms(1-3)] assms(4) by simp

lemma update_at_val_at: "update_at cached q v = Some new \<Longrightarrow> val_at new q = Some v"
  by (induction cached q v arbitrary: new rule: update_at.induct) (auto split: option.splits)

text \<open>Flatness depends on the keys only.\<close>

lemma flat_cong:
  assumes "flat ps" "\<And>p. valid_path p \<Longrightarrow> entry ps' p = None \<longleftrightarrow> entry ps p = None"
  shows "flat ps'"
  unfolding flat_def
proof (intro allI impI)
  fix p q assume a: "valid_path q \<and> prefix p q \<and> entry ps' p \<noteq> None \<and> entry ps' q \<noteq> None"
  then have "valid_path p" "valid_path q" by (auto dest: set_mono_prefix)
  from a assms(2) [OF this(1)] assms(2) [OF this(2)] have "entry ps p \<noteq> None \<and> entry ps q \<noteq> None" by simp
  with a assms(1) show "p = q" unfolding flat_def by blast
qed

lemma flat_update:
  assumes "flat ps" "valid_path p" "entry ps p \<noteq> None"
  shows "flat (AList.update (join_with ''/'' p) v ps)"
  using assms(1) by (rule flat_cong) (use assms in \<open>simp add: entry_update\<close>)

lemma cache_update_none:
  "(\<And>p. prefix p (split key) \<Longrightarrow> entry ps p = None) \<Longrightarrow> cache_update key v ps = (Inr (), ps)"
  unfolding cache_update_def by (rule each_cached_none)

text \<open>A walk that meets dicts only, or nothing, writes what the master's cache writes.\<close>

definition open_path :: "pyval \<Rightarrow> string list \<Rightarrow> bool" where
  "open_path v qs \<longleftrightarrow> (\<forall>i<length qs. case val_at v (take i qs) of None \<Rightarrow> True | Some u \<Rightarrow> is_dict u)"

lemma open_pathD: "open_path v qs \<Longrightarrow> qs \<noteq> [] \<Longrightarrow> is_dict v"
  by (auto simp: open_path_def dest: spec [of _ 0])

lemma open_path_sub:
  assumes "open_path (PDict d) (k # ks)"
  shows "map_of d k = Some u \<Longrightarrow> open_path u ks"
  using assms unfolding open_path_def by (auto dest: spec [of _ "Suc _"])

lemma update_at_set_path:
  "open_path (PDict d) qs \<Longrightarrow> qs \<noteq> [] \<Longrightarrow> update_at (PDict d) qs v = Some (PDict (set_path d qs v))"
proof (induction "PDict d" qs v arbitrary: d rule: update_at.induct)
  case (3 d part p ps v)
  let ?u = "case map_of d part of None \<Rightarrow> PDict [] | Some u \<Rightarrow> u"
  have u: "?u = PDict (sub_dict d part)"
  proof (cases "map_of d part")
    case (Some u)
    then have "is_dict u" using open_pathD [OF open_path_sub [OF 3(2) Some]] by simp
    with Some show ?thesis by (auto simp: sub_dict_def is_dict_iff)
  qed (simp add: sub_dict_def)
  have "open_path (PDict (sub_dict d part)) (p # ps)"
    using open_path_sub [OF 3(2)] u by (cases "map_of d part") (auto simp: open_path_def neq_Nil_conv less_Suc_eq_0_disj)
  from 3(1) [OF u this] show ?case by (simp add: u)
qed auto

end
