(* ===== verification/Node_Coherence.thy ===== *)
theory Node_Coherence
  imports Master_Properties Node_Params
begin

text \<open>
  The parameter caches of the master and of a node together: the node's \<open>paramUpdate\<close> handler
  (\<open>aioros/_node/_api.py\<close>) on the calls the master queued for it. An entry of a node's cache is
  right when it is the master's value of the key, or an empty dict where the master has none.
\<close>

section \<open>Receiving updates\<close>

text \<open>\<open>NodeApiHandle.paramUpdate\<close>, and what it does with a queued call.\<close>

definition paramUpdate :: "string \<Rightarrow> string \<Rightarrow> pyval \<Rightarrow> params \<Rightarrow> (reply, params) outcome" where
  "paramUpdate c key v ps =
     bind_outcome (cache_update key v ps) (\<lambda>_ ps'. (Inr (1, [], PInt 0), ps'))"

fun receive :: "task \<Rightarrow> params \<Rightarrow> (unit, params) outcome" where
  "receive (ParamUpdate key v) ps =
     bind_outcome (paramUpdate ''master'' key v ps) (\<lambda>_ ps'. (Inr (), ps'))"
| "receive _ ps = (Inr (), ps)"

definition master_view :: "params \<Rightarrow> string list \<Rightarrow> pyval" where
  "master_view d path = (case val_at (PDict d) path of None \<Rightarrow> PDict [] | Some v \<Rightarrow> v)"

definition coherent :: "params \<Rightarrow> params \<Rightarrow> bool" where
  "coherent cache d \<longleftrightarrow>
     (\<forall>path. valid_path path \<longrightarrow> (case entry cache path of None \<Rightarrow> True | Some v \<Rightarrow> v = master_view d path))"

lemma coherentD: "coherent cache d \<Longrightarrow> valid_path path \<Longrightarrow> entry cache path = Some v \<Longrightarrow> v = master_view d path"
  unfolding coherent_def by fastforce

text \<open>A write the node's cache can follow: dicts, or nothing, from a cached key to the written one.\<close>

definition follows_write :: "params \<Rightarrow> params \<Rightarrow> string list \<Rightarrow> pyval \<Rightarrow> bool" where
  "follows_write cache d path v \<longleftrightarrow>
     (\<forall>p q. path = p @ q \<and> entry cache p \<noteq> None \<longrightarrow> open_path (master_view d p) q) \<and>
     (\<forall>p. strict_prefix path p \<and> valid_path p \<and> entry cache p \<noteq> None \<longrightarrow> is_dict v)"

lemma receive_update:
  "cache_update key v ps = (Inr (), ps') \<Longrightarrow> receive (ParamUpdate key v) ps = (Inr (), ps')"
  by (simp add: paramUpdate_def)

lemma split_abs: "valid_path ps \<Longrightarrow> split (abs_path ps) = ps"
  by (rule split_abs_path)

text \<open>What the master's view of a path becomes.\<close>

lemma master_view_above:
  "q \<noteq> [] \<Longrightarrow> master_view (set_path d (p @ q) v) p = PDict (set_path (dict_of (val_at (PDict d) p)) q v)"
  by (simp add: master_view_def val_at_set_path_on_way)

lemma master_view_below:
  "path \<noteq> [] \<Longrightarrow> master_view (set_path d path v) (path @ q) =
     (case val_at v q of None \<Rightarrow> PDict [] | Some w \<Rightarrow> w)"
  by (simp add: master_view_def val_at_set_path)

lemma master_view_dict: "is_dict (master_view d p) \<Longrightarrow> master_view d p = PDict (dict_of (val_at (PDict d) p))"
  by (auto simp: master_view_def dict_of_def is_dict_iff split: option.splits)

text \<open>An entry at or above the written key, before or after a first update, takes the update.\<close>

lemma update_at_above:
  assumes "open_path (master_view d p) q" "p @ q \<noteq> []"
    and "cached = master_view d p \<or> cached = master_view (set_path d (p @ q) v) p"
  shows "update_at cached q v = Some (master_view (set_path d (p @ q) v) p)"
proof (cases "q = []")
  case True
  then show ?thesis using assms(2) master_view_below [of p d v "[]"] by simp
next
  case False
  let ?e = "dict_of (val_at (PDict d) p)"
  have old: "master_view d p = PDict ?e"
    by (rule master_view_dict) (rule open_pathD [OF assms(1) False])
  have new: "master_view (set_path d (p @ q) v) p = PDict (set_path ?e q v)"
    by (rule master_view_above [OF False])
  have "open_path (PDict (set_path ?e q v)) q"
    unfolding open_path_def
  proof (intro allI impI)
    fix i assume "i < length q"
    then have "drop i q \<noteq> []" by simp
    from val_at_set_path_on_way [OF this, of ?e "take i q" v]
    show "case val_at (PDict (set_path ?e q v)) (take i q) of None \<Rightarrow> True | Some u \<Rightarrow> is_dict u" by simp
  qed
  with update_at_set_path [OF _ False, of "set_path ?e q v" v] have
    "update_at (PDict (set_path ?e q v)) q v = Some (PDict (set_path ?e q v))"
    by (simp add: set_path_idem)
  with assms(1,3) update_at_set_path [OF _ False, of ?e v] show ?thesis
    unfolding old new by auto
qed

section \<open>A run of updates\<close>

text \<open>
  While the queue is worked off every entry is the old or the new view; \<open>covers\<close> says which entry
  an update changes.
\<close>

definition halfway :: "params \<Rightarrow> params \<Rightarrow> params \<Rightarrow> bool" where
  "halfway cache d' ps \<longleftrightarrow>
     (\<forall>p. valid_path p \<longrightarrow> entry ps p = entry cache p \<or>
        entry cache p \<noteq> None \<and> entry ps p = Some (master_view d' p))"

definition covers :: "params \<Rightarrow> task \<Rightarrow> string list \<Rightarrow> bool" where
  "covers cache t p \<longleftrightarrow> valid_path p \<and> entry cache p \<noteq> None \<and>
     (\<exists>k w. valid_path k \<and> t = ParamUpdate (abs_path k) w \<and> prefix p k)"

lemma halfway_dom: "halfway cache d' ps \<Longrightarrow> valid_path p \<Longrightarrow> entry ps p = None \<longleftrightarrow> entry cache p = None"
  unfolding halfway_def by fastforce

lemma flat_halfway: "flat cache \<Longrightarrow> halfway cache d' ps \<Longrightarrow> flat ps"
  by (rule flat_cong) (auto simp: halfway_dom)

lemma halfway_update:
  "halfway cache d' ps \<Longrightarrow> valid_path p \<Longrightarrow> entry cache p \<noteq> None \<Longrightarrow>
     halfway cache d' (AList.update (join_with ''/'' p) (master_view d' p) ps)"
  unfolding halfway_def by (simp add: entry_update)

text \<open>One update: it succeeds, and the entry it covers gets the new view.\<close>

lemma receive_one:
  assumes "flat cache" "coherent cache d" and path: "valid_path path" "path \<noteq> []"
    and ok: "follows_write cache d path v"
    and only: "\<And>p. valid_path p \<Longrightarrow> follows r node p \<Longrightarrow> entry cache p \<noteq> None"
    and t: "notified r path v c node t"
    and half: "halfway cache (set_path d path v) ps"
  shows "\<exists>p. covers cache t p \<and>
    receive t ps = (Inr (), AList.update (join_with ''/'' p) (master_view (set_path d path v) p) ps)"
proof -
  let ?d' = "set_path d path v"
  have upd: "receive (ParamUpdate (abs_path (p @ q)) w) ps =
      (Inr (), AList.update (join_with ''/'' p) (master_view ?d' p) ps)"
    if "valid_path (p @ q)" "entry ps p = Some u" "update_at u q w = Some (master_view ?d' p)" for p q w u
    by (rule receive_update, rule cache_update_flat [OF flat_halfway [OF assms(1) half] _ that(2,3)])
      (rule split_abs [OF that(1)])
  from t consider p where "follows r node p" "prefix p path" "t = ParamUpdate (abs_path path) v"
    | q where "follows r node (path @ q)" "q \<noteq> []"
      "t = ParamUpdate (abs_path (path @ q)) (case val_at v q of None \<Rightarrow> PDict [] | Some w \<Rightarrow> w)"
    unfolding notified_def by (auto split: option.splits)
  then show ?thesis
  proof cases
    case 1
    then obtain q where q: "path = p @ q" by (auto simp: prefix_def)
    have vp: "valid_path p" using 1(1) by (simp add: follows_def)
    then obtain u0 where u0: "entry cache p = Some u0" using only 1(1) by blast
    have "u0 = master_view d p" by (rule coherentD [OF assms(2) vp u0])
    then obtain u where u: "entry ps p = Some u" "u = master_view d p \<or> u = master_view ?d' p"
      using half u0 vp unfolding halfway_def by fastforce
    have "open_path (master_view d p) q"
      using ok q u0 unfolding follows_write_def by blast
    with update_at_above [of d p q u v] u(2) path(2) q have "update_at u q v = Some (master_view ?d' p)"
      by simp
    with upd [of p q u v] u(1) 1(3) path(1) q
    have "receive t ps = (Inr (), AList.update (join_with ''/'' p) (master_view ?d' p) ps)"
      by (simp del: abs_path_simps receive.simps)
    moreover have "covers cache t p"
      unfolding covers_def using vp u0 1(2,3) path(1) by blast
    ultimately show ?thesis by blast
  next
    case 2
    let ?p = "path @ q"
    have vp: "valid_path ?p" using 2(1) unfolding follows_def by blast
    then have "entry cache ?p \<noteq> None" using only [OF _ 2(1)] by blast
    then obtain u where "entry ps ?p = Some u" using halfway_dom [OF half vp] by auto
    moreover have "update_at u [] (case val_at v q of None \<Rightarrow> PDict [] | Some w \<Rightarrow> w) = Some (master_view ?d' ?p)"
      by (simp add: master_view_below [OF path(2)])
    ultimately have "receive t ps = (Inr (), AList.update (join_with ''/'' ?p) (master_view ?d' ?p) ps)"
      using upd [of ?p "[]"] vp 2(3) by (metis append_Nil2)
    moreover have "covers cache t ?p"
      unfolding covers_def using vp \<open>entry cache ?p \<noteq> None\<close> 2(3) by blast
    ultimately show ?thesis by blast
  qed
qed

lemma covers_unique:
  assumes "flat cache" "covers cache t p" "covers cache t q" shows "p = q"
proof -
  from assms(2,3) obtain k k' w where k: "valid_path k" "valid_path k'" "abs_path k = abs_path k'"
    "prefix p k" "prefix q k'" and c: "entry cache p \<noteq> None" "entry cache q \<noteq> None" "valid_path p" "valid_path q"
    unfolding covers_def by blast
  then have "k = k'" by (metis split_abs)
  with k have "prefix p q \<or> prefix q p" using prefix_same_cases by blast
  with assms(1) c show ?thesis unfolding flat_def by blast
qed

lemma receive_all:
  assumes "flat cache" "coherent cache d" and path: "valid_path path" "path \<noteq> []"
    and ok: "follows_write cache d path v"
    and only: "\<And>p. valid_path p \<Longrightarrow> follows r node p \<Longrightarrow> entry cache p \<noteq> None"
    and "\<And>t. t \<in> set ts \<Longrightarrow> notified r path v c node t"
    and "halfway cache (set_path d path v) ps"
  shows "\<exists>ps'. for_each receive ts ps = (Inr (), ps') \<and> halfway cache (set_path d path v) ps' \<and>
    (\<forall>p. valid_path p \<and> (entry ps p = Some (master_view (set_path d path v) p) \<or> (\<exists>t\<in>set ts. covers cache t p)) \<longrightarrow>
       entry ps' p = Some (master_view (set_path d path v) p))"
  using assms(7,8)
proof (induction ts arbitrary: ps)
  case (Cons t ts)
  let ?new = "master_view (set_path d path v)"
  have "notified r path v c node t" using Cons.prems(1) by simp
  from receive_one [OF assms(1,2) path ok only this Cons.prems(2)] obtain p0 where
    p0: "covers cache t p0" "receive t ps = (Inr (), AList.update (join_with ''/'' p0) (?new p0) ps)" by blast
  let ?ps1 = "AList.update (join_with ''/'' p0) (?new p0) ps"
  have v0: "valid_path p0" "entry cache p0 \<noteq> None" using p0(1) by (auto simp: covers_def)
  have "halfway cache (set_path d path v) ?ps1" by (rule halfway_update [OF Cons.prems(2) v0])
  with Cons.IH [of ?ps1] Cons.prems(1) obtain ps' where
    ps': "for_each receive ts ?ps1 = (Inr (), ps')" "halfway cache (set_path d path v) ps'"
    and new: "\<And>p. valid_path p \<Longrightarrow> entry ?ps1 p = Some (?new p) \<or> (\<exists>t\<in>set ts. covers cache t p) \<Longrightarrow>
      entry ps' p = Some (?new p)" by auto
  have "entry ps' p = Some (?new p)"
    if "valid_path p" "entry ps p = Some (?new p) \<or> (\<exists>t\<in>set (t # ts). covers cache t p)" for p
  proof (rule new [OF that(1)])
    have "covers cache t p \<Longrightarrow> p = p0" using covers_unique [OF assms(1) _ p0(1)] .
    with that show "entry ?ps1 p = Some (?new p) \<or> (\<exists>t\<in>set ts. covers cache t p)"
      using entry_update [OF v0(1) that(1)] by auto
  qed
  with ps' p0(2) show ?case by (auto simp del: receive.simps)
qed simp

text \<open>Every entry that the write concerns is covered by one of the updates sent.\<close>

lemma concerned_covered:
  assumes vp: "valid_path p" "valid_path path" and f: "follows r node p" and c: "node \<noteq> c"
    and cached: "entry cache p \<noteq> None"
    and ok: "follows_write cache d path v" and comparable: "prefix p path \<or> prefix path p"
    and all: "\<And>t. notified r path v c node t \<Longrightarrow> t \<in> set ts"
  shows "\<exists>t\<in>set ts. covers cache t p"
proof (cases "prefix p path")
  case True
  then have "notified r path v c node (ParamUpdate (abs_path path) v)"
    using f c by (auto simp: notified_def)
  moreover have "covers cache (ParamUpdate (abs_path path) v) p"
    unfolding covers_def using vp cached True by blast
  ultimately show ?thesis using all by blast
next
  case False
  with comparable obtain q where q: "p = path @ q" "q \<noteq> []" by (auto simp: prefix_def)
  then have "strict_prefix path p" by (simp add: strict_prefix_def)
  then have "is_dict v"
    using ok vp(1) cached unfolding follows_write_def by blast
  let ?t = "ParamUpdate (abs_path (path @ q)) (case val_at v q of None \<Rightarrow> PDict [] | Some w \<Rightarrow> w)"
  have "follows r node (path @ q)" using f q(1) by simp
  then have "notified r path v c node ?t"
    unfolding notified_def using q(2) c \<open>is_dict v\<close>
    by (intro disjI2 exI [of _ q]) (cases "val_at v q"; simp del: abs_path_simps)
  moreover have "covers cache ?t p"
    unfolding covers_def using vp cached q(1) by blast
  ultimately show ?thesis using all by blast
qed

lemma coherent_after:
  assumes "flat cache" "coherent cache d" and path: "valid_path path" "path \<noteq> []"
    and ok: "follows_write cache d path v" and c: "node \<noteq> c"
    and same: "\<And>p. valid_path p \<Longrightarrow> entry cache p \<noteq> None \<longleftrightarrow> follows r node p"
    and ts: "\<And>t. t \<in> set ts \<longleftrightarrow> notified r path v c node t"
  shows "\<exists>ps'. for_each receive ts cache = (Inr (), ps') \<and> coherent ps' (set_path d path v)"
proof -
  let ?new = "master_view (set_path d path v)"
  have "halfway cache (set_path d path v) cache" by (simp add: halfway_def)
  with receive_all [OF assms(1,2) path ok, of r node ts c] same ts obtain ps' where
    ps': "for_each receive ts cache = (Inr (), ps')" "halfway cache (set_path d path v) ps'"
    and new: "\<And>p. valid_path p \<Longrightarrow> \<exists>t\<in>set ts. covers cache t p \<Longrightarrow> entry ps' p = Some (?new p)"
    by blast
  have "u = ?new p" if p: "valid_path p" "entry ps' p = Some u" for p u
  proof -
    have cached: "entry cache p \<noteq> None" using halfway_dom [OF ps'(2) p(1)] p(2) by auto
    then have f: "follows r node p" using same [OF p(1)] by simp
    show ?thesis
    proof (cases "prefix p path \<or> prefix path p")
      case True
      from new [OF p(1) concerned_covered [OF p(1) path(1) f c cached ok True]] ts p(2) show ?thesis
        by simp
    next
      case False
      then have "?new p = master_view d p" by (simp add: master_view_def val_at_set_path_other)
      with ps'(2) p coherentD [OF assms(2) p(1)] show ?thesis
        unfolding halfway_def by (metis option.inject)
    qed
  qed
  with ps'(1) show ?thesis by (auto simp: coherent_def split: option.splits)
qed



end
