(* ===== verification/Node_Parameters.thy ===== *)
theory Node_Parameters
  imports Node_Coherence
begin

text \<open>
  The parameter methods of a node, \<open>aioros/_node/_node.py\<close>, on its cache and, through
  \<open>MasterApiClient\<close> of \<open>aioros/_node/_api.py\<close>, on the master. The transport between
  them is taken to deliver the call and its answer; an exception in a method of the master comes
  back as a fault. Calls of different clients are whole steps.
\<close>

section \<open>The client of the master\<close>

definition validate :: "int \<Rightarrow> string \<Rightarrow> string \<Rightarrow> unit result" where
  "validate code key msg =
     (if code = -1 then Inl (KeyError key)
      else if code \<noteq> 1 then Inl (XMLRPCError msg)
      else Inr ())"

record ros_node =
  node_name :: string
  node_namespace :: string
  node_xmlrpc_uri :: string
  node_tcpros_uri :: string
  node_udsros_uri :: string
  node_remapping :: "(string \<times> string) list"

definition full_name :: "ros_node \<Rightarrow> string" where
  "full_name n = node_namespace n @ node_name n"

text \<open>A node's parameter cache and the master it talks to.\<close>

record world =
  node_cache :: params
  the_master :: master

type_synonym 'a node_call = "world \<Rightarrow> ('a, world) outcome"

text \<open>One call of the master: a fault for an exception, else \<open>check\<close> on the answer.\<close>

definition call_master ::
    "ros_node \<Rightarrow> request \<Rightarrow> (int \<Rightarrow> string \<Rightarrow> unit result) \<Rightarrow> pyval node_call" where
  "call_master n req check w =
     (let (res, m) = handle (full_name n) req (the_master w); w' = w\<lparr>the_master := m\<rparr> in
      case res of
        Inl e \<Rightarrow> (Inl RemoteFault, w')
      | Inr (code, msg, v) \<Rightarrow> (case check code msg of Inl e \<Rightarrow> (Inl e, w') | Inr _ \<Rightarrow> (Inr v, w')))"

text \<open>\<open>if code != 1: raise XMLRPCError(msg)\<close>\<close>

definition must_succeed :: "int \<Rightarrow> string \<Rightarrow> unit result" where
  "must_succeed code msg = (if code \<noteq> 1 then Inl (XMLRPCError msg) else Inr ())"

definition master_delete_param :: "ros_node \<Rightarrow> string \<Rightarrow> pyval node_call" where
  "master_delete_param n key = call_master n (DeleteParam key) (\<lambda>code. validate code key)"

definition master_set_param :: "ros_node \<Rightarrow> string \<Rightarrow> pyval \<Rightarrow> pyval node_call" where
  "master_set_param n key v = call_master n (SetParam key v) (\<lambda>code. validate code key)"

definition master_get_param :: "ros_node \<Rightarrow> string \<Rightarrow> pyval node_call" where
  "master_get_param n key = call_master n (GetParam key) (\<lambda>code. validate code key)"

definition master_has_param :: "ros_node \<Rightarrow> string \<Rightarrow> pyval node_call" where
  "master_has_param n key = call_master n (HasParam key) (\<lambda>code. validate code key)"

definition master_search_param :: "ros_node \<Rightarrow> string \<Rightarrow> pyval node_call" where
  "master_search_param n key = call_master n (SearchParam key) (\<lambda>code. validate code key)"

definition master_subscribe_param :: "ros_node \<Rightarrow> string \<Rightarrow> pyval node_call" where
  "master_subscribe_param n key = call_master n (SubscribeParam (node_xmlrpc_uri n) key) must_succeed"

section \<open>The parameter methods of a node\<close>

definition node_resolve_name :: "ros_node \<Rightarrow> string \<Rightarrow> string result" where
  "node_resolve_name n key =
     bind_result (resolve_name key (node_name n) (node_namespace n)) (\<lambda>resolved.
       Inr (case map_of (node_remapping n) resolved of None \<Rightarrow> resolved | Some r \<Rightarrow> r))"

text \<open>\<open>key = self.resolve_name(key)\<close>, then the rest of the method.\<close>

definition with_resolved :: "ros_node \<Rightarrow> string \<Rightarrow> (string \<Rightarrow> 'a node_call) \<Rightarrow> 'a node_call" where
  "with_resolved n key body w =
     (case node_resolve_name n key of Inl e \<Rightarrow> (Inl e, w) | Inr key' \<Rightarrow> body key' w)"

definition get_param :: "ros_node \<Rightarrow> string \<Rightarrow> pyval node_call" where
  "get_param n key = with_resolved n key (\<lambda>key w.
     if cache_contains (node_cache w) key then (cache_get (node_cache w) key, w)
     else master_get_param n key w)"

definition get_param_cached :: "ros_node \<Rightarrow> string \<Rightarrow> pyval node_call" where
  "get_param_cached n key = with_resolved n key (\<lambda>key w.
     if cache_contains (node_cache w) key then (cache_get (node_cache w) key, w)
     else bind_outcome (master_subscribe_param n key w) (\<lambda>v w.
       let w' = w\<lparr>node_cache := cache_add key v (node_cache w)\<rparr> in
       if v = PDict [] then (Inl (KeyError key), w') else (Inr v, w')))"

definition get_param_default :: "ros_node \<Rightarrow> string \<Rightarrow> pyval \<Rightarrow> pyval node_call" where
  "get_param_default n key fallback w =
     (case get_param n key w of
        (Inl (KeyError k), w') \<Rightarrow> (Inr fallback, w')
      | (res, w') \<Rightarrow> (res, w'))"

text \<open>A method of the cache that may raise.\<close>

definition on_cache :: "(params \<Rightarrow> (unit, params) outcome) \<Rightarrow> unit node_call" where
  "on_cache f w = (let (res, ps) = f (node_cache w) in (res, w\<lparr>node_cache := ps\<rparr>))"

definition set_param :: "ros_node \<Rightarrow> string \<Rightarrow> pyval \<Rightarrow> unit node_call" where
  "set_param n key v = with_resolved n key (\<lambda>key w.
     bind_outcome (master_set_param n key v w) (\<lambda>_. on_cache (cache_update key v)))"

definition delete_param :: "ros_node \<Rightarrow> string \<Rightarrow> unit node_call" where
  "delete_param n key = with_resolved n key (\<lambda>key w.
     bind_outcome (master_delete_param n key w) (\<lambda>_. on_cache (cache_delete key)))"

definition has_param :: "ros_node \<Rightarrow> string \<Rightarrow> pyval node_call" where
  "has_param n key = with_resolved n key (master_has_param n)"

definition search_param :: "ros_node \<Rightarrow> string \<Rightarrow> pyval node_call" where
  "search_param n key = with_resolved n key (master_search_param n)"

section \<open>Reading one's own writes\<close>

named_theorems node_simps "evaluation of the parameter methods"

lemma call_master_simps [node_simps]:
  "handle (full_name n) req (the_master w) = (Inr (code, msg, v), m) \<Longrightarrow> check code msg = Inr () \<Longrightarrow>
     call_master n req check w = (Inr v, w\<lparr>the_master := m\<rparr>)"
  "handle (full_name n) req (the_master w) = (Inr (code, msg, v), m) \<Longrightarrow> check code msg = Inl e \<Longrightarrow>
     call_master n req check w = (Inl e, w\<lparr>the_master := m\<rparr>)"
  by (simp_all add: call_master_def)

lemma call_master_Inr:
  "call_master n req check w = (Inr v, w') \<Longrightarrow>
     \<exists>code msg m. handle (full_name n) req (the_master w) = (Inr (code, msg, v), m) \<and>
       check code msg = Inr () \<and> w' = w\<lparr>the_master := m\<rparr>"
  by (auto simp: call_master_def Let_def split: prod.splits sum.splits)

lemma validate_simps [simp]:
  "validate 1 key msg = Inr ()" "validate (-1) key msg = Inl (KeyError key)"
  by (simp_all add: validate_def)

lemma validate_eq_Inr: "validate code key msg = Inr () \<longleftrightarrow> code = 1"
  by (simp add: validate_def)

lemma flat_cache_get:
  assumes "flat ps" "split key = p @ q" "entry ps p = Some cached"
  shows "cache_get ps key = Inr v \<longleftrightarrow> val_at cached q = Some v" and "cache_contains ps key"
proof -
  have "outermost ps (split key) = Some (length p)"
  proof (cases "outermost ps (split key)")
    case (Some i)
    then have "i \<le> length (split key)" "entry ps (take i (split key)) \<noteq> None"
      unfolding outermost_def by (auto dest: find_upt_Some simp del: upt_Suc)
    with flat_outermost [OF assms(1) valid_path_split, of i key "length p"] assms(2,3) Some show ?thesis
      by simp
  next
    case None
    then have "entry ps (take (length p) (split key)) = None"
      using assms(2) unfolding outermost_def find_upt_None
      by (metis append_eq_conv_conj le0 length_append less_Suc_eq_le nat_le_iff_add)
    then show ?thesis using assms(2,3) by simp
  qed
  with assms(2,3) show "cache_get ps key = Inr v \<longleftrightarrow> val_at cached q = Some v"
    by (simp add: cache_get_eq_Inr)
  show "cache_contains ps key"
    unfolding cache_contains_path using assms(2,3) by (intro exI [of _ "length p"]) simp
qed

lemma with_resolved_Inr:
  "with_resolved n key body w = (Inr x, w') \<Longrightarrow>
     \<exists>key'. node_resolve_name n key = Inr key' \<and> body key' w = (Inr x, w')"
  by (auto simp: with_resolved_def split: sum.splits)

lemma bind_outcome_Inr:
  "bind_outcome m f = (Inr y, s') \<Longrightarrow> \<exists>x s. m = (Inr x, s) \<and> f x s = (Inr y, s')"
  by (auto simp: bind_outcome_def split: prod.splits sum.splits)

lemma on_cache_Inr:
  "on_cache f w = (Inr (), w') \<Longrightarrow> \<exists>ps. f (node_cache w) = (Inr (), ps) \<and> w' = w\<lparr>node_cache := ps\<rparr>"
  by (auto simp: on_cache_def Let_def split: prod.splits)

lemma set_param_Inr:
  assumes "set_param n key v w = (Inr (), w')"
  shows "\<exists>key' msg x m ps. node_resolve_name n key = Inr key' \<and>
    setParam (full_name n) key' v (the_master w) = (Inr (1, msg, x), m) \<and>
    cache_update key' v (node_cache w) = (Inr (), ps) \<and>
    w' = w\<lparr>the_master := m, node_cache := ps\<rparr>"
  using assms unfolding set_param_def
  by (fastforce dest!: with_resolved_Inr bind_outcome_Inr on_cache_Inr call_master_Inr
      simp: master_set_param_def validate_eq_Inr)

lemma master_get_param_of:
  "fst (getParam (full_name n) key (the_master w)) = Inr (1, msg, v) \<Longrightarrow> master_get_param n key w = (Inr v, w)"
  by (cases "getParam (full_name n) key (the_master w)")
    (use reading_sel(3) [of "full_name n" key "the_master w"] in
      \<open>auto simp: master_get_param_def node_simps\<close>)

lemma get_param_resolved:
  "node_resolve_name n key = Inr key' \<Longrightarrow>
     get_param n key w =
       (if cache_contains (node_cache w) key' then (cache_get (node_cache w) key', w)
        else master_get_param n key' w)"
  by (simp add: get_param_def with_resolved_def)

text \<open>C13: A node reads its own writes: after a \<open>set_param\<close> that returned, \<open>get_param\<close> of the same
  name returns the value, whether it comes from the node's cache or from the master. The cache is one
  in which no cached key lies below another.\<close>

theorem set_param_get_param:
  assumes "flat (node_cache w)" and "set_param n key v w = (Inr (), w')"
  shows "get_param n key w' = (Inr v, w')"
proof -
  from set_param_Inr [OF assms(2)] obtain key' msg x m ps where key': "node_resolve_name n key = Inr key'"
    and m: "setParam (full_name n) key' v (the_master w) = (Inr (1, msg, x), m)"
    and ps: "cache_update key' v (node_cache w) = (Inr (), ps)"
    and w': "w' = w\<lparr>the_master := m, node_cache := ps\<rparr>" by blast
  show ?thesis
  proof (cases "\<exists>p. prefix p (split key') \<and> entry (node_cache w) p \<noteq> None")
    case True
    then obtain p q cached where p: "split key' = p @ q" "entry (node_cache w) p = Some cached"
      by (auto simp: prefix_def)
    have vp: "valid_path p" using valid_path_split [of key'] p(1) by simp
    from ps obtain new where new: "update_at cached q v = Some new"
      "ps = AList.update (join_with ''/'' p) new (node_cache w)"
      by (auto simp: cache_update_flat_eq [OF assms(1) p] split: option.splits)
    have "flat ps" "entry ps p = Some new"
      using flat_update [OF assms(1) vp] p(2) vp by (simp_all add: new(2) entry_update)
    from flat_cache_get [OF this(1) p(1) this(2)] update_at_val_at [OF new(1)] show ?thesis
      by (simp add: get_param_resolved [OF key'] w')
  next
    case False
    then have "ps = node_cache w" using ps cache_update_none [of key' "node_cache w" v] by auto
    moreover have "\<not> cache_contains (node_cache w) key'"
      unfolding cache_contains_path using False take_is_prefix by blast
    moreover have "fst (getParam (full_name n) key' m) = Inr (1, [], v)"
      using setitem_val_at [OF setParam_stored, of "full_name n" key' v "the_master w" "(1, msg, x)" "[]"] m
      by (simp add: getParam_val_at)
    ultimately show ?thesis
      using master_get_param_of [of n key' w'] by (simp add: get_param_resolved [OF key'] w')
  qed
qed

text \<open>A node \<open>/s\<close> with the parameter \<open>/p\<close> set to 1 and, in the second world, cached.\<close>

definition demo_node :: ros_node where
  "demo_node = \<lparr>node_name = ''s'', node_namespace = ''/'', node_xmlrpc_uri = ''http://s'',
     node_tcpros_uri = ''rosrpc://s:1'', node_udsros_uri = ''udsros://s//tmp/s'', node_remapping = []\<rparr>"

definition demo_world :: "params \<Rightarrow> world" where
  "demo_world cache =
     \<lparr>node_cache = cache, the_master = (demo_master demo_3)\<lparr>param_cache := [(''p'', PInt 1)]\<rparr>\<rparr>"

lemma split_p: "split ''p'' = [''p'']"
  by (simp add: split_def)

lemma resolve_p: "node_resolve_name demo_node ''/p'' = Inr ''/p''"
  by (simp add: node_resolve_name_def demo_node_def resolve_name_def resolve_name_raw_def join_def
      split_p valid_name_def strip_final_newline_def ascii_alpha_def)

lemma flat_single: "flat [(''p'', v)]"
  unfolding flat_def
proof (intro allI impI)
  have part: "valid_part ''p''" by (simp add: valid_part_def)
  have entry: "p = [''p'']" if "valid_path p" "entry [(''p'', v)] p \<noteq> None" for p
    using that split_join_with [OF that(1)] split_valid_part [OF part] by (auto simp: entry_def split: if_splits)
  fix p q assume a: "valid_path q \<and> prefix p q \<and> entry [(''p'', v)] p \<noteq> None \<and> entry [(''p'', v)] q \<noteq> None"
  then have "valid_path p" "valid_path q" by (auto dest: set_mono_prefix)
  with entry [OF this(1)] entry [OF this(2)] a show "p = q" by blast
qed

theorem set_param_get_param_witness:
  "fst (get_param demo_node ''/p'' (snd (set_param demo_node ''/p'' (PInt 2) (demo_world [(''p'', PInt 1)])))) =
     Inr (PInt 2)"
proof -
  have s: "set_param demo_node ''/p'' (PInt 2) (demo_world [(''p'', PInt 1)]) =
      (Inr (), \<lparr>node_cache = [(''p'', PInt 2)], the_master = (demo_master demo_3)\<lparr>param_cache := [(''p'', PInt 2)]\<rparr>\<rparr>)"
    by (simp add: set_param_def with_resolved_def resolve_p [simplified] master_set_param_def call_master_def
        demo_world_def setParam_def setitem_def split_p notify_params_def on_param_update_def demo_3_def
        demo_2_def demo_1_def empty_registry_def on_cache_def cache_update_def each_cached_def update_cache_def
        canonical_key_def join_def iter_namespaces_def Let_def)
  from set_param_get_param [OF _ s] show ?thesis
    unfolding s by (simp add: demo_world_def flat_single)
qed

lemma cache_delete_cached:
  assumes "flat ps" "entry ps (split key) = Some v"
  shows "cache_delete key ps = (Inr (), ps)"
proof -
  have "split (drop (length (join_with ''/'' (split key))) (canonical_key key)) = []"
    by (simp add: canonical_key_path)
  then show ?thesis
    unfolding cache_delete_def using assms(2)
    by (subst each_cached_flat [OF assms(1), of key "split key" "[]"])
      (simp_all only: dom_delete_cache, simp_all add: delete_cache_def)
qed

lemma delete_param_Inr:
  assumes "delete_param n key w = (Inr (), w')"
  shows "\<exists>key' msg x m ps. node_resolve_name n key = Inr key' \<and>
    deleteParam (full_name n) key' (the_master w) = (Inr (1, msg, x), m) \<and>
    cache_delete key' (node_cache w) = (Inr (), ps) \<and>
    w' = w\<lparr>the_master := m, node_cache := ps\<rparr>"
  using assms unfolding delete_param_def
  by (fastforce dest!: with_resolved_Inr bind_outcome_Inr on_cache_Inr call_master_Inr
      simp: master_delete_param_def validate_eq_Inr)

text \<open>A deleted parameter lives on in the cache of the node that deleted it: when the key itself
  is cached, a successful \<open>delete_param\<close> removes it at the master and leaves the cache as it is, so
  that \<open>get_param\<close> goes on returning the old value.\<close>

theorem delete_param_stale:
  assumes "flat (node_cache w)" and "node_resolve_name n key = Inr key'"
    and "entry (node_cache w) (split key') = Some v" and "delete_param n key w = (Inr (), w')"
  shows "get_param n key w' = (Inr v, w') \<and>
    fst (getParam c key' (the_master w')) = Inr (-1, not_set key', PInt 0)"
proof -
  from delete_param_Inr [OF assms(4)] assms(2) obtain msg x m ps where
    m: "deleteParam (full_name n) key' (the_master w) = (Inr (1, msg, x), m)"
    and ps: "cache_delete key' (node_cache w) = (Inr (), ps)"
    and w': "w' = w\<lparr>the_master := m, node_cache := ps\<rparr>" by auto
  have ps': "ps = node_cache w" using cache_delete_cached [OF assms(1,3)] ps by simp
  have "cache_get (node_cache w) key' = Inr v" "cache_contains (node_cache w) key'"
    using flat_cache_get [OF assms(1), of key' "split key'" "[]"] assms(3) by simp_all
  moreover have "delitem (param_cache (the_master w)) key' = Inr (param_cache m)"
    using deleteParam_deleted [of "full_name n" key' "the_master w"] m by simp
  ultimately show ?thesis
    using delitem_val_at(1) [of "param_cache (the_master w)" key' "param_cache m" "[]"]
    by (simp add: get_param_resolved [OF assms(2)] w' ps' getParam_val_at)
qed

theorem delete_param_stale_witness:
  "fst (get_param demo_node ''/p'' (snd (delete_param demo_node ''/p'' (demo_world [(''p'', PInt 1)])))) =
     Inr (PInt 1)"
proof -
  have d: "delete_param demo_node ''/p'' (demo_world [(''p'', PInt 1)]) =
      (Inr (), \<lparr>node_cache = [(''p'', PInt 1)], the_master = (demo_master demo_3)\<lparr>param_cache := []\<rparr>\<rparr>)"
    by (simp add: delete_param_def with_resolved_def resolve_p [simplified] master_delete_param_def
        call_master_def demo_world_def deleteParam_def delitem_def getitem_def del_subkey_def put_dict_def
        split_p notify_params_def on_param_update_def demo_3_def
        demo_2_def demo_1_def empty_registry_def on_cache_def cache_delete_def each_cached_def delete_cache_def
        canonical_key_def join_def iter_namespaces_def Let_def)
  have e: "entry (node_cache (demo_world [(''p'', PInt 1)])) (split ''/p'') = Some (PInt 1)"
    by (simp add: demo_world_def entry_def split_p)
  from delete_param_stale [OF _ resolve_p e d] show ?thesis
    unfolding d by (simp add: demo_world_def flat_single)
qed

end
