(* ===== verification/Master_Client.thy ===== *)
theory Master_Client
  imports Node_Parameters
begin

text \<open>
  The rest of \<open>MasterApiClient\<close> of \<open>aioros/_node/_api.py\<close>: the calls a node makes
  to register, unregister and look up, each one call of the master's API with the arguments and
  the check of the status code the method makes. What the master answers is what its model answers.
\<close>

definition master_get_param_names :: "ros_node \<Rightarrow> pyval node_call" where
  "master_get_param_names n = call_master n GetParamNames must_succeed"

definition master_unsubscribe_param :: "ros_node \<Rightarrow> string \<Rightarrow> pyval node_call" where
  "master_unsubscribe_param n key = call_master n (UnsubscribeParam (node_xmlrpc_uri n) key) must_succeed"

definition master_lookup_node :: "ros_node \<Rightarrow> string \<Rightarrow> pyval node_call" where
  "master_lookup_node n name = call_master n (LookupNode name) must_succeed"

definition master_lookup_service :: "ros_node \<Rightarrow> string \<Rightarrow> pyval node_call" where
  "master_lookup_service n service = call_master n (LookupService service) must_succeed"

definition master_get_published_topics :: "ros_node \<Rightarrow> string \<Rightarrow> pyval node_call" where
  "master_get_published_topics n subgraph = call_master n (GetPublishedTopics subgraph) must_succeed"

definition master_register_service :: "ros_node \<Rightarrow> string \<Rightarrow> pyval node_call" where
  "master_register_service n service =
     call_master n (RegisterService service (node_tcpros_uri n) (node_xmlrpc_uri n)) must_succeed"

definition master_unregister_service :: "ros_node \<Rightarrow> string \<Rightarrow> pyval node_call" where
  "master_unregister_service n service =
     call_master n (UnregisterService service (node_tcpros_uri n)) must_succeed"

definition master_register_subscriber :: "ros_node \<Rightarrow> string \<Rightarrow> string \<Rightarrow> pyval node_call" where
  "master_register_subscriber n topic topic_type =
     call_master n (RegisterSubscriber topic topic_type (node_xmlrpc_uri n)) must_succeed"

definition master_unregister_subscriber :: "ros_node \<Rightarrow> string \<Rightarrow> pyval node_call" where
  "master_unregister_subscriber n topic =
     call_master n (UnregisterSubscriber topic (node_xmlrpc_uri n)) must_succeed"

definition master_register_publisher :: "ros_node \<Rightarrow> string \<Rightarrow> string \<Rightarrow> pyval node_call" where
  "master_register_publisher n topic topic_type =
     call_master n (RegisterPublisher topic topic_type (node_xmlrpc_uri n)) must_succeed"

definition master_unregister_publisher :: "ros_node \<Rightarrow> string \<Rightarrow> pyval node_call" where
  "master_unregister_publisher n topic =
     call_master n (UnregisterPublisher topic (node_xmlrpc_uri n)) must_succeed"

definition master_get_system_state :: "ros_node \<Rightarrow> pyval node_call" where
  "master_get_system_state n = call_master n GetSystemState must_succeed"

definition master_get_topic_types :: "ros_node \<Rightarrow> pyval node_call" where
  "master_get_topic_types n = call_master n GetTopicTypes must_succeed"

section \<open>Calls that always succeed\<close>

text \<open>Who the master takes for a publisher or a subscriber of a topic.\<close>

definition publishers_of :: "master \<Rightarrow> string \<Rightarrow> registration list" where
  "publishers_of m topic = members_at (publications (master_registry m)) topic"

definition subscribers_of :: "master \<Rightarrow> string \<Rightarrow> registration list" where
  "subscribers_of m topic = members_at (subscriptions (master_registry m)) topic"

definition own_registration :: "ros_node \<Rightarrow> registration" where
  "own_registration n = \<lparr>caller_id = full_name n, reg_api = node_xmlrpc_uri n\<rparr>"

lemma master_register_publisher_result [node_simps]:
  "master_register_publisher n topic ty w =
     (let m = the_master w; r = register_publisher topic ty (full_name n) (node_xmlrpc_uri n) (master_registry m) in
      (Inr (strings (map reg_api (members_at (subscriptions r) topic))),
       w\<lparr>the_master := m\<lparr>master_registry := r\<rparr>\<rparr>))"
  by (simp add: master_register_publisher_def call_master_def registerPublisher_def must_succeed_def Let_def)

lemma master_unregister_publisher_result [node_simps]:
  "master_unregister_publisher n topic w =
     (let m = the_master w; r = unregister_publisher topic (full_name n) (node_xmlrpc_uri n) (master_registry m) in
      (Inr (PInt 1), w\<lparr>the_master := m\<lparr>master_registry := r\<rparr>\<rparr>))"
  by (simp add: master_unregister_publisher_def call_master_def unregisterPublisher_def must_succeed_def Let_def)

lemma master_register_subscriber_result [node_simps]:
  "master_register_subscriber n topic ty w =
     (let m = the_master w; r = register_subscriber topic ty (full_name n) (node_xmlrpc_uri n) (master_registry m) in
      (Inr (strings (map reg_api (members_at (publications r) topic))),
       w\<lparr>the_master := m\<lparr>master_registry := r\<rparr>\<rparr>))"
  by (simp add: master_register_subscriber_def call_master_def registerSubscriber_def must_succeed_def Let_def)

lemma master_unregister_subscriber_result [node_simps]:
  "master_unregister_subscriber n topic w =
     (let m = the_master w; r = unregister_subscriber topic (full_name n) (node_xmlrpc_uri n) (master_registry m) in
      (Inr (PInt 1), w\<lparr>the_master := m\<lparr>master_registry := r\<rparr>\<rparr>))"
  by (simp add: master_unregister_subscriber_def call_master_def unregisterSubscriber_def must_succeed_def Let_def)

lemma master_register_service_result [node_simps]:
  "master_register_service n service w =
     (let m = the_master w;
          r = register_service service (full_name n) (node_xmlrpc_uri n) (node_tcpros_uri n) (master_registry m) in
      (Inr (PInt 1), w\<lparr>the_master := m\<lparr>master_registry := r\<rparr>\<rparr>))"
  by (simp add: master_register_service_def call_master_def registerService_def must_succeed_def Let_def)

lemma master_unregister_service_result [node_simps]:
  "master_unregister_service n service w =
     (let m = the_master w; r = unregister_service service (full_name n) (master_registry m) in
      (Inr (PInt 1), w\<lparr>the_master := m\<lparr>master_registry := r\<rparr>\<rparr>))"
  by (simp add: master_unregister_service_def call_master_def unregisterService_def must_succeed_def Let_def)

lemma master_lookup_service_result [node_simps]:
  "master_lookup_service n service w =
     (case map_of (services (master_registry (the_master w))) service of
        Some reg \<Rightarrow> (Inr (PStr (reg_api reg)), w)
      | None \<Rightarrow> (Inl (XMLRPCError ''''), w))"
  by (simp add: master_lookup_service_def call_master_def lookupService_def must_succeed_def split: option.split)

text \<open>Registration and what the master then answers about the publishers of the topic.\<close>

lemma register_publisher_members:
  "own_registration n \<in> set (publishers_of (the_master (snd (master_register_publisher n topic ty w))) topic)"
  by (simp add: node_simps publishers_of_def own_registration_def register_publisher_def Let_def
      registry_simps)

lemma unregister_publisher_members:
  "own_registration n \<notin> set (publishers_of (the_master (snd (master_unregister_publisher n topic w))) topic)"
  by (simp add: node_simps publishers_of_def own_registration_def unregister_publisher_def Let_def
      registry_simps)

lemma register_subscriber_answer:
  "\<exists>m. master_register_subscriber n topic ty w = (Inr (strings (map reg_api (publishers_of m topic))), w\<lparr>the_master := m\<rparr>) \<and>
     own_registration n \<in> set (subscribers_of m topic)"
  by (intro exI [of _ "the_master (snd (master_register_subscriber n topic ty w))"])
    (simp add: node_simps publishers_of_def subscribers_of_def own_registration_def register_subscriber_def Let_def
      registry_simps)

end
