(* ===== verification/Py_Text.thy ===== *)
theory Py_Text
  imports Values
begin

text \<open>
  The operations on text and bytes of Python's library the code uses: UTF-8, \<open>strip\<close>,
  \<open>replace\<close>, decimal numbers, \<open>struct\<close> integers. Strings are in their UTF-8
  encoding (theory \<open>Prelude\<close>). \<open>int()\<close> also accepts decimal digits of other
  scripts, which \<open>parse_int\<close> rejects; every number the code writes has ASCII digits.
\<close>

section \<open>UTF-8\<close>

definition encode :: "string \<Rightarrow> bytes" where
  "encode s = map (\<lambda>c. word_of_nat (of_char c)) s"

definition continuation :: "8 word \<Rightarrow> bool" where
  "continuation b \<longleftrightarrow> 0x80 \<le> b \<and> b \<le> 0xBF"

text \<open>The length of the sequence a lead byte starts, and the bounds of the byte after it.\<close>

definition utf8_lead :: "8 word \<Rightarrow> (nat \<times> 8 word \<times> 8 word) option" where
  "utf8_lead b =
     (if b \<le> 0x7F then Some (1, 0x80, 0xBF)
      else if 0xC2 \<le> b \<and> b \<le> 0xDF then Some (2, 0x80, 0xBF)
      else if b = 0xE0 then Some (3, 0xA0, 0xBF)
      else if b = 0xED then Some (3, 0x80, 0x9F)
      else if 0xE1 \<le> b \<and> b \<le> 0xEF then Some (3, 0x80, 0xBF)
      else if b = 0xF0 then Some (4, 0x90, 0xBF)
      else if 0xF1 \<le> b \<and> b \<le> 0xF3 then Some (4, 0x80, 0xBF)
      else if b = 0xF4 then Some (4, 0x80, 0x8F)
      else None)"

text \<open>The bytes still wanted, with bounds for the next one.\<close>

fun utf8_from :: "nat \<Rightarrow> 8 word \<Rightarrow> 8 word \<Rightarrow> bytes \<Rightarrow> bool" where
  "utf8_from n lo hi [] \<longleftrightarrow> n = 0"
| "utf8_from 0 lo hi (b # bs) =
     (case utf8_lead b of None \<Rightarrow> False | Some (n, lo', hi') \<Rightarrow> utf8_from (n - 1) lo' hi' bs)"
| "utf8_from (Suc n) lo hi (b # bs) = (lo \<le> b \<and> b \<le> hi \<and> utf8_from n 0x80 0xBF bs)"

definition utf8 :: "bytes \<Rightarrow> bool" where
  "utf8 bs = utf8_from 0 0 0 bs"

definition decode :: "bytes \<Rightarrow> string result" where
  "decode bs = (if utf8 bs then Inr (map (\<lambda>b. char_of (unat b)) bs) else Inl UnicodeDecodeError)"

text \<open>A \<^typ>\<open>string\<close> that is the encoding of a Python string.\<close>

definition text_ok :: "string \<Rightarrow> bool" where
  "text_ok s = utf8 (encode s)"

lemma encode_simps [simp]:
  "encode [] = []" "encode (s @ t) = encode s @ encode t" "length (encode s) = length s"
  by (simp_all add: encode_def)

lemma utf8_from_append: "utf8_from n lo hi xs \<Longrightarrow> utf8_from n lo hi (xs @ ys) = utf8_from 0 0 0 ys"
proof (induction n lo hi xs rule: utf8_from.induct)
  case (1 n lo hi)
  then show ?case by (cases ys) simp_all
qed (auto split: option.splits)

lemma utf8_append: "utf8 xs \<Longrightarrow> utf8 (xs @ ys) = utf8 ys"
  unfolding utf8_def by (rule utf8_from_append)

lemma text_ok_append: "text_ok s \<Longrightarrow> text_ok (s @ t) = text_ok t"
  by (simp add: text_ok_def utf8_append)

lemma byte_char [simp]: "unat (word_of_nat (of_char c) :: 8 word) = of_char c"
  by (simp add: unat_of_nat)

lemma decode_encode: "text_ok s \<Longrightarrow> decode (encode s) = Inr s"
  by (simp add: decode_def text_ok_def encode_def comp_def)

lemma text_ok_ascii: "(\<And>c. c \<in> set s \<Longrightarrow> of_char c < (128 :: nat)) \<Longrightarrow> text_ok s"
proof (induction s)
  case (Cons c s)
  have "(word_of_nat (of_char c) :: 8 word) \<le> 0x7F"
    using Cons.prems [of c] by (simp add: word_le_nat_alt)
  with Cons show ?case
    by (simp add: text_ok_def utf8_def encode_def utf8_lead_def split: list.splits)
      (cases s; simp add: utf8_lead_def)
qed (simp add: text_ok_def utf8_def)

text \<open>The characters of a string, from its encoding.\<close>

definition utf8_chars :: "string \<Rightarrow> string list" where
  "utf8_chars s =
     snd (foldr (\<lambda>c (tail, cs). if continuation (word_of_nat (of_char c)) then (c # tail, cs) else ([], (c # tail) # cs))
       s ([], []))"

section \<open>White space\<close>

text \<open>The characters \<open>str.isspace\<close> holds of.\<close>

definition spaces :: "string list" where
  "spaces =
     map (\<lambda>n. [char_of (n :: nat)]) [9, 10, 11, 12, 13, 28, 29, 30, 31, 32] @
     map (map (char_of :: nat \<Rightarrow> char))
       ([[0xC2, 0x85], [0xC2, 0xA0], [0xE1, 0x9A, 0x80], [0xE2, 0x80, 0xA8], [0xE2, 0x80, 0xA9],
         [0xE2, 0x80, 0xAF], [0xE2, 0x81, 0x9F], [0xE3, 0x80, 0x80]] @
        map (\<lambda>n. [0xE2, 0x80, n]) [0x80..<0x8B])"

function strip_front :: "string list \<Rightarrow> string \<Rightarrow> string" where
  "strip_front ws s =
     (case find (\<lambda>w. w \<noteq> [] \<and> prefix w s) ws of
        None \<Rightarrow> s
      | Some w \<Rightarrow> strip_front ws (drop (length w) s))"
  by pat_completeness auto

termination strip_front
  by (relation "measure (length o snd)") (auto simp: find_Some_iff prefix_def)

declare strip_front.simps [simp del]

definition strip_by :: "string list \<Rightarrow> string \<Rightarrow> string" where
  "strip_by ws s = rev (strip_front (map rev ws) (rev (strip_front ws s)))"

definition strip :: "string \<Rightarrow> string" where
  "strip s = strip_by spaces s"

text \<open>Printable ASCII.\<close>

definition graphic :: "char \<Rightarrow> bool" where
  "graphic c \<longleftrightarrow> 32 < (of_char c :: nat) \<and> (of_char c :: nat) < 128"

lemma strip_front_Nil [simp]: "strip_front ws [] = []"
  by (subst strip_front.simps) (auto split: option.split simp: find_Some_iff)

lemma strip_front_keeps:
  assumes "\<And>w. w \<in> set ws \<Longrightarrow> w \<noteq> [] \<Longrightarrow> hd w \<noteq> c"
  shows "strip_front ws (c # s) = c # s"
proof -
  have "\<not> (w \<noteq> [] \<and> prefix w (c # s))" if "w \<in> set ws" for w
    using assms [OF that] by (cases w) auto
  then have "find (\<lambda>w. w \<noteq> [] \<and> prefix w (c # s)) ws = None" by (simp add: find_None_iff)
  then show ?thesis by (subst strip_front.simps) simp
qed

lemma not_graphic_space: "w \<in> set spaces \<Longrightarrow> \<not> graphic (hd w) \<and> \<not> graphic (last w)"
proof -
  have "\<forall>w\<in>set spaces. \<not> graphic (hd w) \<and> \<not> graphic (last w)"
    by (simp add: spaces_def graphic_def upt_rec)
  then show "w \<in> set spaces \<Longrightarrow> \<not> graphic (hd w) \<and> \<not> graphic (last w)" by blast
qed

lemma strip_by_graphic:
  assumes ws: "\<And>w. w \<in> set ws \<Longrightarrow> \<not> graphic (hd w) \<and> \<not> graphic (last w)"
    and s: "graphic (hd s)" "graphic (last s)"
  shows "strip_by ws s = s"
proof (cases s)
  case (Cons c cs)
  with s have "strip_front ws s = s" using ws by (auto intro!: strip_front_keeps)
  moreover obtain d ds where d: "rev s = d # ds" using Cons by (cases "rev s") auto
  moreover have "last s = d" using d by (metis hd_rev list.sel(1) rev_rev_ident)
  ultimately have "hd v \<noteq> d" if "v \<in> set (map rev ws)" for v
    using that s(2) by (auto simp: hd_rev dest: ws)
  then have "strip_front (map rev ws) (rev s) = rev s"
    unfolding d by (rule strip_front_keeps)
  with \<open>strip_front ws s = s\<close> show ?thesis by (simp add: strip_by_def)
qed (simp add: strip_by_def)

lemma strip_graphic: "graphic (hd s) \<Longrightarrow> graphic (last s) \<Longrightarrow> strip s = s"
  unfolding strip_def by (rule strip_by_graphic) (rule not_graphic_space)

section \<open>Removing a substring\<close>

text \<open>\<open>s.replace(old, "")\<close> for a non-empty \<open>old\<close>: from the left, without overlaps.\<close>

function remove_all :: "string \<Rightarrow> string \<Rightarrow> string" where
  "remove_all old [] = []"
| "remove_all old (c # s) =
     (if old \<noteq> [] \<and> prefix old (c # s) then remove_all old (drop (length old) (c # s))
      else c # remove_all old s)"
  by pat_completeness auto

termination remove_all
  by (relation "measure (length o snd)") auto

lemma remove_all_absent: "c \<in> set old \<Longrightarrow> c \<notin> set s \<Longrightarrow> remove_all old s = s"
proof (induction s)
  case (Cons d s)
  then have "\<not> prefix old (d # s)" using set_mono_prefix [of old "d # s"] by auto
  with Cons show ?case by simp
qed simp

lemma remove_all_front: "old \<noteq> [] \<Longrightarrow> remove_all old (old @ s) = remove_all old s"
  by (cases old) simp_all

lemma remove_all_single: "remove_all [c] s = filter (\<lambda>d. d \<noteq> c) s"
  by (induction s) auto

section \<open>Decimal numbers\<close>

definition digit_char :: "nat \<Rightarrow> char" where
  "digit_char d = char_of (48 + d)"

definition digit_value :: "char \<Rightarrow> nat option" where
  "digit_value c =
     (let n = of_char c :: nat in if 48 \<le> n \<and> n \<le> 57 then Some (n - 48) else None)"

fun show_nat :: "nat \<Rightarrow> string" where
  "show_nat n = (if n < 10 then [digit_char n] else show_nat (n div 10) @ [digit_char (n mod 10)])"

declare show_nat.simps [simp del]

definition show_int :: "int \<Rightarrow> string" where
  "show_int i = (if i < 0 then CHR ''-'' # show_nat (nat (- i)) else show_nat (nat i))"

text \<open>Digits, with single underscores between them; the flag tells that a digit came just before.\<close>

fun parse_digits :: "bool \<Rightarrow> nat \<Rightarrow> string \<Rightarrow> nat option" where
  "parse_digits after acc [] = (if after then Some acc else None)"
| "parse_digits after acc (c # cs) =
     (case digit_value c of
        Some d \<Rightarrow> parse_digits True (10 * acc + d) cs
      | None \<Rightarrow> if c = CHR ''_'' \<and> after then parse_digits False acc cs else None)"

definition parse_sign :: "string \<Rightarrow> int \<times> string" where
  "parse_sign s =
     (case s of
        [] \<Rightarrow> (1, s)
      | c # cs \<Rightarrow> if c = CHR ''-'' then (- 1, cs) else if c = CHR ''+'' then (1, cs) else (1, s))"

definition parse_int :: "string \<Rightarrow> int result" where
  "parse_int s =
     (let (sign, ds) = parse_sign (strip s) in
      case parse_digits False 0 ds of None \<Rightarrow> Inl ValueError | Some n \<Rightarrow> Inr (sign * int n))"

lemma digit_value_char [simp]: "d < 10 \<Longrightarrow> digit_value (digit_char d) = Some d"
  by (simp add: digit_value_def digit_char_def)

lemma graphic_digit: "d < 10 \<Longrightarrow> graphic (digit_char d)"
  by (simp add: graphic_def digit_char_def)

lemma show_nat_not_Nil [simp]: "show_nat n \<noteq> []"
  by (subst show_nat.simps) simp

lemma show_nat_chars: "c \<in> set (show_nat n) \<Longrightarrow> \<exists>d<10. c = digit_char d"
proof (induction n rule: show_nat.induct)
  case (1 n)
  show ?case
  proof (cases "n < 10")
    case True
    with 1 show ?thesis by (simp add: show_nat.simps [of n]) blast
  next
    case False
    with 1(2) have "c \<in> set (show_nat (n div 10)) \<or> c = digit_char (n mod 10)"
      by (auto simp: show_nat.simps [of n] split: if_splits)
    with 1(1) [OF False] show ?thesis by (auto intro: exI [of _ "n mod 10"])
  qed
qed

lemma parse_show_nat: "parse_digits b a (show_nat n @ rest) = parse_digits True (a * 10 ^ length (show_nat n) + n) rest"
proof (induction n arbitrary: b a rest rule: show_nat.induct)
  case (1 n)
  show ?case
  proof (cases "n < 10")
    case False
    have s: "show_nat n = show_nat (n div 10) @ [digit_char (n mod 10)]"
      using False by (subst show_nat.simps) simp
    have "10 * (n div 10) + n mod 10 = n" by simp
    then show ?thesis
      using 1 [OF False, of b a "digit_char (n mod 10) # rest"]
      by (simp add: s algebra_simps)
  qed (simp add: show_nat.simps [of n] mult.commute)
qed

lemma show_nat_graphic: "graphic (hd (show_nat n))" "graphic (last (show_nat n))"
  using show_nat_chars [of "hd (show_nat n)" n] show_nat_chars [of "last (show_nat n)" n]
  by (auto simp: graphic_digit)

lemma show_int_not_Nil [simp]: "show_int i \<noteq> []"
  by (simp add: show_int_def)

lemma show_int_chars: "c \<in> set (show_int i) \<Longrightarrow> c = CHR ''-'' \<or> (\<exists>d<10. c = digit_char d)"
  by (auto simp: show_int_def dest: show_nat_chars split: if_splits)

lemma graphic_show_int: "c \<in> set (show_int i) \<Longrightarrow> graphic c"
  by (auto dest!: show_int_chars simp: graphic_digit) (simp add: graphic_def)

lemma strip_show_int [simp]: "strip (show_int i) = show_int i"
  by (rule strip_graphic; rule graphic_show_int [of _ i]; simp)

lemma digit_not_sign: "d < 10 \<Longrightarrow> digit_char d \<noteq> CHR ''-'' \<and> digit_char d \<noteq> CHR ''+''"
  by (auto dest!: digit_value_char [symmetric] simp: digit_value_def)

lemma parse_show_int [simp]: "parse_int (show_int i) = Inr i"
proof -
  have "parse_sign (show_nat n) = (1, show_nat n)" for n
    using show_nat_chars [of "hd (show_nat n)" n]
    by (cases "show_nat n") (auto simp: parse_sign_def dest: digit_not_sign)
  moreover have "parse_sign (CHR ''-'' # s) = (- 1, s)" for s by (simp add: parse_sign_def)
  moreover have "parse_digits False 0 (show_nat n) = Some n" for n
    using parse_show_nat [of False 0 n "[]"] by simp
  ultimately show ?thesis
    by (simp add: parse_int_def show_int_def strip_show_int [unfolded show_int_def])
qed

end
