(* ===== verification/Tcpros_Protocol.thy ===== *)
theory Tcpros_Protocol
  imports Py_Text
begin

text \<open>
  The wire format between nodes, \<open>aioros/_node/_tcpros/_protocol.py\<close>,
  \<open>_utils.py\<close> and \<open>aioros/_node/_raw_message.py\<close>: little-endian lengths, frames,
  headers of \<open>key=value\<close> fields.

  A \<open>BufferedByteReceiveStream\<close> is the list of the bytes the peer sends before it closes
  the connection; \<open>receive_exactly\<close> asks the socket for no more than what is missing, so the
  bytes after those it returns are still there for the next reader.
\<close>

unbundle bit_operations_syntax

section \<open>Streams\<close>

type_synonym 'a reader = "bytes \<Rightarrow> ('a, bytes) outcome"

definition receive_exactly :: "nat \<Rightarrow> bytes reader" where
  "receive_exactly n s = (if n \<le> length s then (Inr (take n s), drop n s) else (Inl IncompleteRead, s))"

text \<open>What is read, turned into a value by a function that may raise.\<close>

definition reading_as :: "('a \<Rightarrow> 'b result) \<Rightarrow> 'a reader \<Rightarrow> 'b reader" where
  "reading_as f r s = bind_outcome (r s) (\<lambda>x s'. (f x, s'))"

lemma receive_exactly_append [simp]: "length xs = n \<Longrightarrow> receive_exactly n (xs @ s) = (Inr xs, s)"
  by (simp add: receive_exactly_def)

lemma receive_exactly_short [simp]: "length s < n \<Longrightarrow> receive_exactly n s = (Inl IncompleteRead, s)"
  by (simp add: receive_exactly_def)

section \<open>\<open>struct\<close>\<close>

definition le32 :: "32 word \<Rightarrow> bytes" where
  "le32 w = [ucast w, ucast (drop_bit 8 w), ucast (drop_bit 16 w), ucast (drop_bit 24 w)]"

definition from_le32 :: "bytes \<Rightarrow> 32 word" where
  "from_le32 bs =
     (case bs of
        [a, b, c, d] \<Rightarrow>
          ucast a OR push_bit 8 (ucast b) OR push_bit 16 (ucast c) OR push_bit 24 (ucast d)
      | _ \<Rightarrow> 0)"

text \<open>\<open>Struct("<I")\<close>: packing raises for numbers of more than 32 bits.\<close>

definition pack_I :: "nat \<Rightarrow> bytes result" where
  "pack_I n = (if n < 2 ^ 32 then Inr (le32 (word_of_nat n)) else Inl StructError)"

definition unpack_I :: "bytes \<Rightarrow> nat result" where
  "unpack_I bs = (if length bs = 4 then Inr (unat (from_le32 bs)) else Inl StructError)"

lemma length_le32 [simp]: "length (le32 w) = 4"
  by (simp add: le32_def)

lemma from_le32_le32 [simp]: "from_le32 (le32 w) = w"
proof (rule bit_word_eqI)
  fix n assume "n < LENGTH(32)"
  then have n: "n < 32" by simp
  consider "n < 8" | "8 \<le> n" "n < 16" | "16 \<le> n" "n < 24" | "24 \<le> n" by linarith
  then show "bit (from_le32 (le32 w)) n = bit w n"
    by cases (use n in \<open>auto simp: from_le32_def le32_def bit_simps\<close>)
qed

lemma pack_I_eq_Inr: "pack_I n = Inr bs \<longleftrightarrow> n < 2 ^ 32 \<and> bs = le32 (word_of_nat n)"
  by (auto simp: pack_I_def)

lemma length_pack_I: "pack_I n = Inr bs \<Longrightarrow> length bs = 4"
  by (simp add: pack_I_eq_Inr)

lemma unpack_pack_I: "pack_I n = Inr bs \<Longrightarrow> unpack_I bs = Inr n"
  by (auto simp: pack_I_eq_Inr unpack_I_def unat_of_nat take_bit_nat_eq_self)

section \<open>Frames and headers\<close>

type_synonym header = "(string \<times> string) list"

definition read_size :: "nat reader" where
  "read_size = reading_as unpack_I (receive_exactly 4)"

definition read_data :: "bytes reader" where
  "read_data s = bind_outcome (read_size s) (\<lambda>size. receive_exactly size)"

text \<open>\<open>line.find("=", 1)\<close>: the index, when there is one.\<close>

definition find_equals :: "string \<Rightarrow> nat option" where
  "find_equals line = find (\<lambda>i. line ! i = CHR ''='') [1..<length line]"

definition add_field :: "string \<Rightarrow> header \<Rightarrow> header" where
  "add_field line h =
     (case find_equals line of
        None \<Rightarrow> h
      | Some i \<Rightarrow> AList.update (strip (take i line)) (drop (Suc i) line) h)"

function decode_fields :: "header \<Rightarrow> bytes \<Rightarrow> header result" where
  "decode_fields h bs =
     (if bs = [] then Inr h
      else bind_result (unpack_I (take 4 bs)) (\<lambda>field_size.
        bind_result (decode (take field_size (drop 4 bs))) (\<lambda>line.
          decode_fields (add_field line h) (drop field_size (drop 4 bs)))))"
  by pat_completeness auto

termination decode_fields
  by (relation "measure (length o snd)") auto

declare decode_fields.simps [simp del]

definition decode_header :: "bytes \<Rightarrow> header result" where
  "decode_header bs = decode_fields [] bs"

definition read_header :: "header reader" where
  "read_header s =
     bind_outcome (read_size s) (\<lambda>size. reading_as decode_header (receive_exactly size))"

text \<open>\<open>sorted(header.items())\<close>: the keys of a dict are distinct, so they decide.\<close>

definition encode_field :: "string \<times> string \<Rightarrow> bytes result" where
  "encode_field kv =
     (let key_value = encode (fst kv @ ''='' @ snd kv) in
      bind_result (pack_I (length key_value)) (\<lambda>size. Inr (size @ key_value)))"

fun encode_fields :: "header \<Rightarrow> bytes result" where
  "encode_fields [] = Inr []"
| "encode_fields (kv # kvs) =
     bind_result (encode_field kv) (\<lambda>bs. bind_result (encode_fields kvs) (\<lambda>rest. Inr (bs @ rest)))"

definition encode_header :: "header \<Rightarrow> bytes result" where
  "encode_header h =
     bind_result (encode_fields (sort_key fst h)) (\<lambda>bs.
       bind_result (pack_I (length bs)) (\<lambda>size. Inr (size @ bs)))"

definition read_byte :: "nat reader" where
  "read_byte = reading_as (\<lambda>bs. Inr (unat (hd bs))) (receive_exactly 1)"

definition encode_byte :: "nat \<Rightarrow> bytes result" where
  "encode_byte v = (if v < 256 then Inr [word_of_nat v] else Inl StructError)"

text \<open>\<open>pack(f"<{size}s", value)\<close> with the size of the value is the value.\<close>

definition encode_str :: "string \<Rightarrow> bytes" where
  "encode_str v = encode v"

text \<open>\<open>unpack(f"<{size}s", data)\<close> needs exactly that many bytes.\<close>

definition read_error :: "bytes reader" where
  "read_error s =
     bind_outcome (read_size s) (\<lambda>size.
       reading_as (\<lambda>data. if length data = size then Inr data else Inl StructError) read_data)"

section \<open>Frames one after another\<close>

text \<open>
  Something that is written by \<open>enc\<close> and read back, up to \<open>canon\<close>, by \<open>read\<close>:
  from whatever follows it, and never from less than the whole of it.
\<close>

inductive reads :: "'a reader \<Rightarrow> bytes \<Rightarrow> 'a list \<Rightarrow> bytes \<Rightarrow> bool" for read :: "'a reader" where
  reads_nothing: "reads read s [] s"
| reads_next: "read s = (Inr x, t) \<Longrightarrow> reads read t xs u \<Longrightarrow> reads read s (x # xs) u"

inductive_simps reads_Nil [simp]: "reads read s [] t"
inductive_simps reads_Cons: "reads read s (x # xs) t"

fun encode_all :: "('a \<Rightarrow> bytes result) \<Rightarrow> 'a list \<Rightarrow> bytes result" where
  "encode_all enc [] = Inr []"
| "encode_all enc (x # xs) =
     bind_result (enc x) (\<lambda>bs. bind_result (encode_all enc xs) (\<lambda>rest. Inr (bs @ rest)))"

definition cut_short :: "'a reader \<Rightarrow> bytes \<Rightarrow> bool" where
  "cut_short read s \<longleftrightarrow> fst (read s) = Inl IncompleteRead"

locale framing =
  fixes ok :: "'a \<Rightarrow> bool" and enc :: "'a \<Rightarrow> bytes result" and read :: "'b reader" and canon :: "'a \<Rightarrow> 'b"
  assumes read_enc: "ok x \<Longrightarrow> enc x = Inr bs \<Longrightarrow> read (bs @ rest) = (Inr (canon x), rest)"
    and read_part: "ok x \<Longrightarrow> enc x = Inr bs \<Longrightarrow> strict_prefix p bs \<Longrightarrow> cut_short read p"
    and read_Nil: "cut_short read []"
begin

lemma reads_all:
  "\<forall>x\<in>set xs. ok x \<Longrightarrow> encode_all enc xs = Inr bs \<Longrightarrow> reads read (bs @ rest) (map canon xs) rest"
proof (induction xs arbitrary: bs)
  case (Cons x xs)
  then obtain b bs' where b: "enc x = Inr b" "encode_all enc xs = Inr bs'" "bs = b @ bs'"
    by (auto simp: bind_result_eq_Inr)
  with Cons read_enc [of x b "bs' @ rest"] show ?case by (auto intro: reads_next)
qed simp

text \<open>
  A stream of frames that ends early: the frames that arrived whole are read, and the next read
  finds the end.
\<close>

lemma reads_cut:
  "\<forall>x\<in>set xs. ok x \<Longrightarrow> encode_all enc xs = Inr bs \<Longrightarrow> prefix p bs \<Longrightarrow>
     \<exists>k r. reads read p (map canon (take k xs)) r \<and> cut_short read r \<and> (p = bs \<longrightarrow> k = length xs)"
proof (induction xs arbitrary: bs p)
  case Nil
  with read_Nil show ?case by simp
next
  case (Cons x xs)
  then obtain b bs' where b: "enc x = Inr b" "encode_all enc xs = Inr bs'" "bs = b @ bs'"
    by (auto simp: bind_result_eq_Inr)
  show ?case
  proof (cases "strict_prefix p b")
    case True
    then have "cut_short read p" "p \<noteq> bs" using Cons.prems(1) b read_part [of x b p] by (auto dest: prefix_length_less)
    then show ?thesis by (intro exI [of _ 0] exI [of _ p]) simp
  next
    case False
    with Cons.prems(3) b(3) obtain q where q: "p = b @ q" "prefix q bs'"
      by (metis prefix_append prefix_order.le_less same_prefix_prefix self_append_conv prefix_order.order_refl Nil_prefix)
    from Cons.IH [OF _ b(2) q(2)] Cons.prems(1) obtain k r
      where "reads read q (map canon (take k xs)) r" "cut_short read r" "q = bs' \<longrightarrow> k = length xs"
      by auto
    moreover have "read (b @ q) = (Inr (canon x), q)" using Cons.prems(1) b(1) by (simp add: read_enc)
    ultimately show ?thesis
      using q(1) b(3) by (intro exI [of _ "Suc k"] exI [of _ r]) (auto intro: reads_next)
  qed
qed

end

text \<open>A frame is its length and its bytes.\<close>

definition encode_frame :: "bytes \<Rightarrow> bytes result" where
  "encode_frame bs = bind_result (pack_I (length bs)) (\<lambda>size. Inr (size @ bs))"

lemma read_size_pack:
  "pack_I n = Inr sz \<Longrightarrow> read_size (sz @ s) = (Inr n, s)"
  by (simp add: read_size_def reading_as_def length_pack_I unpack_pack_I)

lemma read_size_short [simp]: "length s < 4 \<Longrightarrow> read_size s = (Inl IncompleteRead, s)"
  by (simp add: read_size_def reading_as_def)

lemma encode_frame_eq_Inr:
  "encode_frame x = Inr bs \<longleftrightarrow> (\<exists>sz. pack_I (length x) = Inr sz \<and> bs = sz @ x)"
  by (auto simp: encode_frame_def bind_result_eq_Inr)

lemma strict_prefix_frame:
  assumes "pack_I n = Inr sz" "strict_prefix p (sz @ x)" "length x = n"
  shows "length p < 4 \<or> (\<exists>q. p = sz @ q \<and> length q < n)"
proof (cases "length p < 4")
  case False
  with assms have "prefix sz p"
    by (metis length_pack_I not_less prefix_length_prefix prefixI prefix_order.less_imp_le)
  then obtain q where "p = sz @ q" by (auto simp: prefix_def)
  with assms show ?thesis by (auto dest: prefix_length_less)
qed simp

text \<open>Whatever is read by its sz is framed.\<close>

lemma read_sized:
  assumes "encode_frame x = Inr bs"
  shows "bind_outcome (read_size (bs @ rest)) (\<lambda>sz. receive_exactly sz) = (Inr x, rest)"
    and "strict_prefix p bs \<Longrightarrow>
      \<exists>s. bind_outcome (read_size p) (\<lambda>sz. receive_exactly sz) = (Inl IncompleteRead, s)"
proof -
  from assms obtain sz where sz: "pack_I (length x) = Inr sz" "bs = sz @ x"
    by (auto simp: encode_frame_eq_Inr)
  then show "bind_outcome (read_size (bs @ rest)) (\<lambda>sz. receive_exactly sz) = (Inr x, rest)"
    by (simp add: read_size_pack)
  assume "strict_prefix p bs"
  with strict_prefix_frame [OF sz(1), of p x] sz(2)
  show "\<exists>s. bind_outcome (read_size p) (\<lambda>sz. receive_exactly sz) = (Inl IncompleteRead, s)"
    by (auto simp: read_size_pack [OF sz(1)])
qed

interpretation frame: framing "\<lambda>_. True" encode_frame read_data "\<lambda>x. x"
proof unfold_locales
  fix x bs rest p assume e: "encode_frame x = Inr bs"
  show "read_data (bs @ rest) = (Inr x, rest)" unfolding read_data_def by (rule read_sized(1) [OF e])
  assume "strict_prefix p bs"
  from read_sized(2) [OF e this] show "cut_short read_data p" by (auto simp: cut_short_def read_data_def)
qed (simp add: cut_short_def read_data_def)

interpretation byte: framing "\<lambda>_. True" encode_byte read_byte "\<lambda>x. x"
proof unfold_locales
  fix x bs rest p assume e: "encode_byte x = Inr bs"
  then have "x < 256" "bs = [word_of_nat x]" by (simp_all add: encode_byte_def split: if_splits)
  then show "read_byte (bs @ rest) = (Inr x, rest)"
    by (simp add: read_byte_def reading_as_def receive_exactly_def unat_of_nat take_bit_nat_eq_self)
  assume "strict_prefix p bs"
  with \<open>bs = _\<close> have "p = []" by (cases p) auto
  then show "cut_short read_byte p" by (simp add: cut_short_def read_byte_def reading_as_def)
qed (simp add: cut_short_def read_byte_def reading_as_def)

section \<open>The round trip of headers\<close>

text \<open>
  A header whose keys survive the way back: no empty key, no \<open>=\<close> in a key but in front, no
  white space around a key.
\<close>

definition field_ok :: "string \<times> string \<Rightarrow> bool" where
  "field_ok kv \<longleftrightarrow>
     fst kv \<noteq> [] \<and> CHR ''='' \<notin> set (tl (fst kv)) \<and> strip (fst kv) = fst kv \<and>
     text_ok (fst kv) \<and> text_ok (snd kv)"

definition header_ok :: "header \<Rightarrow> bool" where
  "header_ok h \<longleftrightarrow> distinct (map fst h) \<and> list_all field_ok h"

lemma find_equals_field:
  assumes "k \<noteq> []" "CHR ''='' \<notin> set (tl k)"
  shows "find_equals (k @ ''='' @ v) = Some (length k)"
proof -
  have k: "1 \<le> length k" using assms(1) by (cases k) auto
  have hit: "(k @ ''='' @ v) ! length k = CHR ''=''" by simp
  have miss: "(k @ ''='' @ v) ! i \<noteq> CHR ''=''" if "1 \<le> i" "i < length k" for i
  proof -
    from that have "(k @ ''='' @ v) ! i = tl k ! (i - 1)" by (simp add: nth_append nth_tl)
    moreover have "tl k ! (i - 1) \<in> set (tl k)" using that by (intro nth_mem) simp
    ultimately show ?thesis using assms(2) by metis
  qed
  show ?thesis
  proof (cases "find_equals (k @ ''='' @ v)")
    case None
    with k hit show ?thesis unfolding find_equals_def find_upt_None by auto
  next
    case (Some i)
    then have "1 \<le> i \<and> (k @ ''='' @ v) ! i = CHR ''='' \<and>
        (\<forall>j. 1 \<le> j \<and> j < i \<longrightarrow> (k @ ''='' @ v) ! j \<noteq> CHR ''='')"
      using find_upt_Some unfolding find_equals_def by blast
    with k hit miss [of i] have "i = length k" by (metis linorder_neqE_nat)
    with Some show ?thesis by simp
  qed
qed

lemma add_field_ok: "field_ok (k, v) \<Longrightarrow> add_field (k @ ''='' @ v) h = AList.update k v h"
  by (simp add: add_field_def find_equals_field [simplified] field_ok_def)

lemma decode_encode_fields:
  "list_all field_ok kvs \<Longrightarrow> encode_fields kvs = Inr bs \<Longrightarrow>
     decode_fields h (bs @ rest) = decode_fields (fold (\<lambda>(k, v). AList.update k v) kvs h) rest"
proof (induction kvs arbitrary: bs h)
  case (Cons kv kvs)
  obtain k v where kv: "kv = (k, v)" by fastforce
  from Cons.prems(2) kv obtain sz bs'
    where sz: "pack_I (length (k @ ''='' @ v)) = Inr sz"
      and bs: "bs = sz @ encode (k @ ''='' @ v) @ bs'" "encode_fields kvs = Inr bs'"
    by (auto simp: bind_result_eq_Inr encode_field_def Let_def)
  have ok: "field_ok (k, v)" using Cons.prems(1) kv by simp
  then have "text_ok k" "text_ok v" by (simp_all add: field_ok_def)
  moreover have "text_ok ''=''" by (rule text_ok_ascii) simp
  ultimately have both: "text_ok (k @ ''='' @ v)" by (metis text_ok_append)
  have "decode_fields h (bs @ rest) = decode_fields (add_field (k @ ''='' @ v) h) (bs' @ rest)"
    using length_pack_I [OF sz] unpack_pack_I [OF sz] decode_encode [OF both]
    by (subst decode_fields.simps) (auto simp: bs(1))
  with Cons.IH [OF _ bs(2)] Cons.prems(1) kv show ?case
    by (simp add: add_field_ok [OF ok, simplified])
qed simp

lemma header_ok_sort: "header_ok h \<Longrightarrow> header_ok (sort_key fst h)"
  by (simp add: header_ok_def distinct_map list_all_iff)

lemma decode_encode_header:
  assumes "header_ok h" "encode_fields h = Inr bs"
  shows "decode_header bs = Inr h"
  using decode_encode_fields [of h bs "[]" "[]"] fold_update_fresh [of "[]" h] assms
  by (simp add: decode_header_def header_ok_def decode_fields.simps [of _ "[]"])

lemma encode_header_frame:
  "encode_header h = bind_result (encode_fields (sort_key fst h)) encode_frame"
  by (simp add: encode_header_def encode_frame_def [abs_def])

interpretation head: framing header_ok encode_header read_header "sort_key fst"
proof unfold_locales
  fix h bs rest p assume ok: "header_ok h" and "encode_header h = Inr bs"
  then obtain x where x: "encode_fields (sort_key fst h) = Inr x" "encode_frame x = Inr bs"
    by (auto simp: encode_header_frame bind_result_eq_Inr)
  have read: "read_header s = bind_outcome (bind_outcome (read_size s) (\<lambda>size. receive_exactly size))
      (\<lambda>y s. (decode_header y, s))" for s
    unfolding read_header_def reading_as_def by (cases "read_size s"; cases "fst (read_size s)") simp_all
  from decode_encode_header [OF header_ok_sort [OF ok] x(1)]
  show "read_header (bs @ rest) = (Inr (sort_key fst h), rest)"
    by (simp add: read read_sized(1) [OF x(2)])
  assume "strict_prefix p bs"
  with read_sized(2) [OF x(2), of p] show "cut_short read_header p"
    by (auto simp: cut_short_def read)
qed (simp add: cut_short_def read_header_def)

end
