(* ===== verification/Tcpros_Messages.thy ===== *)
theory Tcpros_Messages
  imports Tcpros_Protocol
begin

text \<open>
  Serialisation of messages, \<open>serialize\<close> and \<open>Serializer\<close> of
  \<open>aioros/_node/_tcpros/_protocol.py\<close>, the message class \<open>RawMessage\<close> of
  \<open>aioros/_node/_raw_message.py\<close>, and the addresses and header checks of
  \<open>_tcpros/_utils.py\<close>.

  Message classes are generated code outside the repository; the model takes their
  \<open>serialize\<close> and \<open>deserialize\<close> as parameters \<open>ser\<close> and \<open>deser\<close>, and
  \<open>RawMessage\<close> is the one class the repository defines.
\<close>

section \<open>\<open>BytesIO\<close>\<close>

record bytesio =
  buf_bytes :: bytes
  buf_pos :: nat

definition new_buffer :: bytesio where
  "new_buffer = \<lparr>buf_bytes = [], buf_pos = 0\<rparr>"

lemma new_buffer_empty [simp]: "buf_bytes new_buffer = []"
  by (simp add: new_buffer_def)

definition buf_seek :: "nat \<Rightarrow> bytesio \<Rightarrow> bytesio" where
  "buf_seek n b = b\<lparr>buf_pos := n\<rparr>"

text \<open>Writing behind the end fills the gap with zeros.\<close>

definition buf_write :: "bytes \<Rightarrow> bytesio \<Rightarrow> bytesio" where
  "buf_write data b =
     (if data = [] then b
      else
        let old = buf_bytes b; pos = buf_pos b; pad = replicate (pos - length old) 0 in
        \<lparr>buf_bytes = take pos old @ pad @ data @ drop (pos + length data) old,
         buf_pos = pos + length data\<rparr>)"

definition buf_truncate :: "nat \<Rightarrow> bytesio \<Rightarrow> bytesio" where
  "buf_truncate n b = b\<lparr>buf_bytes := take n (buf_bytes b)\<rparr>"

section \<open>Messages\<close>

record msg_header =
  hdr_seq :: "nat option"
  hdr_frame_id :: "string option"

record 'b message =
  msg_header :: "msg_header option"
  msg_body :: 'b

type_synonym 'm serializing = "'m \<Rightarrow> bytesio \<Rightarrow> (unit, bytesio) outcome"

text \<open>\<open>serialize(message, buf)\<close>: a gap of four bytes, the message, then its size into the gap.\<close>

definition serialize :: "'m serializing \<Rightarrow> 'm \<Rightarrow> bytesio \<Rightarrow> (bytes, bytesio) outcome" where
  "serialize ser m buf =
     bind_outcome (ser m (buf_seek 4 buf)) (\<lambda>_ b.
       let size = buf_pos b - 4; b0 = buf_seek 0 b in
       case pack_I size of
         Inl e \<Rightarrow> (Inl e, b0)
       | Inr bs \<Rightarrow> (let b1 = buf_write bs b0 in (Inr (buf_bytes b1), b1)))"

text \<open>\<open>Serializer\<close>: a buffer used again and again, and the next sequence number.\<close>

record serializer =
  ser_buf :: bytesio
  ser_seq :: nat

definition new_serializer :: serializer where
  "new_serializer = \<lparr>ser_buf = new_buffer, ser_seq = 1\<rparr>"

definition number_header :: "msg_header \<Rightarrow> nat \<Rightarrow> msg_header \<times> nat" where
  "number_header h n =
     (case hdr_seq h of None \<Rightarrow> (h\<lparr>hdr_seq := Some n\<rparr>, Suc n) | Some _ \<Rightarrow> (h, n))"

definition fill_header :: "'b message \<Rightarrow> nat \<Rightarrow> 'b message \<times> nat" where
  "fill_header m n =
     (case msg_header m of
        None \<Rightarrow> (m, n)
      | Some h \<Rightarrow>
          let (h', n') = number_header h n in
          (m\<lparr>msg_header := Some
              (if hdr_frame_id h' = None then h'\<lparr>hdr_frame_id := Some ''0''\<rparr> else h')\<rparr>, n'))"

definition serializer_serialize ::
    "'b message serializing \<Rightarrow> 'b message \<Rightarrow> serializer \<Rightarrow> (bytes, serializer) outcome" where
  "serializer_serialize ser m s =
     (let (m', n) = fill_header m (ser_seq s);
          (res, b) = serialize ser m' (ser_buf s)
      in case res of
           Inl e \<Rightarrow> (Inl e, \<lparr>ser_buf = b, ser_seq = n\<rparr>)
         | Inr data \<Rightarrow> (Inr data, \<lparr>ser_buf = buf_seek 0 (buf_truncate 0 b), ser_seq = n\<rparr>))"

text \<open>What a message class promises: \<open>serialize\<close> writes the body at the position it finds.\<close>

definition writes :: "'m serializing \<Rightarrow> 'm \<Rightarrow> bytes \<Rightarrow> bool" where
  "writes ser m body \<longleftrightarrow> (\<forall>b. ser m b = (Inr (), buf_write body b))"

text \<open>On an empty buffer the result is the frame of the body, unless it is too long.\<close>

lemma serialize_empty:
  assumes "writes ser m body" "buf_bytes buf = []"
  shows "fst (serialize ser m buf) = encode_frame body"
proof (cases "body = []")
  case True
  with assms show ?thesis
    by (auto simp: serialize_def writes_def buf_seek_def buf_write_def Let_def encode_frame_def pack_I_def)
next
  case False
  let ?b = "buf_write body (buf_seek 4 buf)"
  have b: "buf_bytes ?b = replicate 4 0 @ body" "buf_pos ?b = 4 + length body"
    using False assms(2) by (simp_all add: buf_write_def buf_seek_def Let_def)
  have "buf_bytes (buf_write sz (buf_seek 0 ?b)) = sz @ body" if "length sz = 4" for sz
  proof -
    from that have "sz \<noteq> []" by auto
    then show ?thesis
      unfolding buf_write_def [of sz] Let_def using that b(1) by (simp add: buf_seek_def)
  qed
  with assms(1) b(2) show ?thesis
    by (auto simp: serialize_def writes_def Let_def encode_frame_def dest: length_pack_I split: sum.split)
qed

lemma serializer_reset:
  assumes "serializer_serialize ser m s = (Inr data, s')"
  shows "buf_bytes (ser_buf s') = []"
  using assms
  by (auto simp: serializer_serialize_def buf_seek_def buf_truncate_def Let_def split: prod.splits sum.splits)

section \<open>\<open>RawMessage\<close>\<close>

type_synonym raw_message = "bytes option"

definition new_raw_message :: raw_message where
  "new_raw_message = None"

definition raw :: "raw_message \<Rightarrow> bytes result" where
  "raw m = (case m of None \<Rightarrow> Inl RuntimeError | Some bs \<Rightarrow> Inr bs)"

definition raw_serialize :: "raw_message serializing" where
  "raw_serialize m b = (case raw m of Inl e \<Rightarrow> (Inl e, b) | Inr bs \<Rightarrow> (Inr (), buf_write bs b))"

definition raw_deserialize :: "bytes \<Rightarrow> raw_message" where
  "raw_deserialize str = Some str"

text \<open>
  A message class: what it writes is what it reads back. Then a frame read from a stream gives
  back the message.
\<close>

definition read_message :: "(bytes \<Rightarrow> 'm result) \<Rightarrow> 'm reader" where
  "read_message deser = reading_as deser read_data"

locale message_class =
  fixes ser :: "'m serializing" and deser :: "bytes \<Rightarrow> 'm result" and valid :: "'m \<Rightarrow> bool"
  assumes writes_body: "valid m \<Longrightarrow> \<exists>body. writes ser m body \<and> deser body = Inr m"
begin

lemma serialize_frame:
  assumes "valid m" "buf_bytes buf = []" "fst (serialize ser m buf) = Inr bs"
  shows "\<exists>body. encode_frame body = Inr bs \<and> deser body = Inr m"
  using writes_body [OF assms(1)] serialize_empty [OF _ assms(2), of ser m] assms(3) by metis

lemma read_serialized:
  "valid m \<Longrightarrow> buf_bytes buf = [] \<Longrightarrow> fst (serialize ser m buf) = Inr bs \<Longrightarrow>
     read_message deser (bs @ rest) = (Inr m, rest)"
  by (drule (2) serialize_frame) (auto simp: read_message_def reading_as_def frame.read_enc)

lemma read_serialized_part:
  "valid m \<Longrightarrow> buf_bytes buf = [] \<Longrightarrow> fst (serialize ser m buf) = Inr bs \<Longrightarrow> strict_prefix p bs \<Longrightarrow>
     cut_short (read_message deser) p"
  by (drule (2) serialize_frame; cases "read_data p")
    (auto simp: read_message_def reading_as_def cut_short_def dest: frame.read_part [OF TrueI])

end

sublocale message_class \<subseteq> messages: framing valid "\<lambda>m. fst (serialize ser m new_buffer)" "read_message deser" "\<lambda>m. m"
proof unfold_locales
  show "cut_short (read_message deser) []"
    by (simp add: cut_short_def read_message_def reading_as_def read_data_def)
qed (auto intro: read_serialized [OF _ new_buffer_empty] read_serialized_part [OF _ new_buffer_empty])

context message_class begin

lemma messages_cut:
  "\<forall>m\<in>set ms. valid m \<Longrightarrow> encode_all (\<lambda>m. fst (serialize ser m new_buffer)) ms = Inr bs \<Longrightarrow> prefix p bs \<Longrightarrow>
     \<exists>k r. reads (read_message deser) p (take k ms) r \<and> cut_short (read_message deser) r \<and>
       (p = bs \<longrightarrow> k = length ms)"
  using messages.reads_cut by simp

end

interpretation raw_class: message_class raw_serialize "\<lambda>bs. Inr (raw_deserialize bs)" "\<lambda>m. m \<noteq> None"
  by unfold_locales (auto simp: writes_def raw_serialize_def raw_def raw_deserialize_def)

section \<open>Addresses and required fields\<close>

definition split_tcpros_uri :: "string \<Rightarrow> (string \<times> int) result" where
  "split_tcpros_uri uri =
     (case split_on (CHR '':'') (remove_all ''/'' (remove_all ''rosrpc://'' uri)) of
        host # port # _ \<Rightarrow> bind_result (parse_int port) (\<lambda>p. Inr (host, p))
      | _ \<Rightarrow> Inl ValueError)"

definition split_udsros_uri :: "string \<Rightarrow> string \<times> string" where
  "split_udsros_uri uri =
     (let bits = split_on slash (remove_all ''udsros://'' uri) in (hd bits, join_with ''/'' (tl bits)))"

definition hget :: "header \<Rightarrow> string \<Rightarrow> string result" where
  "hget h key = (case map_of h key of None \<Rightarrow> Inl (KeyError key) | Some v \<Rightarrow> Inr v)"

fun require_fields :: "header \<Rightarrow> string list \<Rightarrow> unit result" where
  "require_fields h [] = Inr ()"
| "require_fields h (field # needed) =
     (if field \<notin> dom (map_of h)
      then Inl (ProtocolError (''Missing required '' @ [CHR 0x27] @ field @ [CHR 0x27] @ '' field''))
      else require_fields h needed)"

definition check_md5sum :: "header \<Rightarrow> string \<Rightarrow> unit result" where
  "check_md5sum h md5sum =
     bind_result (hget h ''md5sum'') (\<lambda>theirs.
       if theirs = ''*'' \<or> theirs = md5sum then Inr ()
       else bind_result (hget h ''callerid'') (\<lambda>caller.
         Inl (ProtocolError (''request from ['' @ caller @ '']: md5sums do not match: ['' @ theirs @
           ''] vs. ['' @ md5sum @ '']''))))"

lemma require_fields_eq_Inr: "require_fields h needed = Inr () \<longleftrightarrow> set needed \<subseteq> dom (map_of h)"
  by (induction needed) auto

lemma require_fields_Inl:
  "require_fields h needed = Inl e \<Longrightarrow> \<exists>msg. e = ProtocolError msg"
  by (induction needed) (auto split: if_splits)

lemma not_digit: "digit_value c = None \<Longrightarrow> d < 10 \<Longrightarrow> c \<noteq> digit_char d"
  by auto

lemma no_digits: "digit_value slash = None" "digit_value (CHR '':'') = None"
  by (simp_all add: digit_value_def)

text \<open>What \<open>init_node\<close> formats the addresses of its two listeners as.\<close>

definition format_tcpros_uri :: "string \<Rightarrow> int \<Rightarrow> string" where
  "format_tcpros_uri host port = ''rosrpc://'' @ host @ '':'' @ show_int port"

definition format_udsros_uri :: "string \<Rightarrow> string \<Rightarrow> string" where
  "format_udsros_uri host path = ''udsros://'' @ host @ ''/'' @ path"

lemma split_tcpros_uri_format:
  assumes "slash \<notin> set host" "CHR '':'' \<notin> set host"
  shows "split_tcpros_uri (format_tcpros_uri host port) = Inr (host, port)"
proof -
  have "slash \<notin> set (show_int port)" "CHR '':'' \<notin> set (show_int port)"
    by (auto dest!: show_int_chars simp: not_digit no_digits)
  with assms have plain: "slash \<notin> set (host @ '':'' @ show_int port)"
      and colon: "split_on (CHR '':'') (host @ CHR '':'' # show_int port) = [host, show_int port]"
    by (auto simp: split_on_append)
  have "remove_all ''/'' (remove_all ''rosrpc://'' (''rosrpc://'' @ host @ '':'' @ show_int port)) =
      host @ '':'' @ show_int port"
    using remove_all_absent [of slash _ "host @ '':'' @ show_int port"] plain
    by (subst remove_all_front) simp_all
  with colon show ?thesis by (simp add: split_tcpros_uri_def format_tcpros_uri_def)
qed

lemma split_udsros_uri_format:
  assumes "slash \<notin> set host" "prefix ''/'' path" "\<not> sublist ''udsros://'' (host @ ''/'' @ path)"
  shows "split_udsros_uri (format_udsros_uri host path) = (host, path)"
proof -
  have absent: "remove_all old xs = xs" if "\<not> sublist old xs" for old xs :: string
    using that by (induction xs) (auto simp: sublist_Cons_right)
  have "remove_all ''udsros://'' (''udsros://'' @ host @ ''/'' @ path) = host @ ''/'' @ path"
    using absent [OF assms(3)] by (subst remove_all_front) simp_all
  moreover have "split_on slash (host @ slash # path) = host # split_on slash path"
    using assms(1) by (simp add: split_on_append)
  ultimately show ?thesis by (simp add: split_udsros_uri_def format_udsros_uri_def join_with_split_on)
qed

section \<open>Properties\<close>

text \<open>C15: A header written by \<open>encode_header\<close> is read back by \<open>read_header\<close> with the same
  fields, sorted by key, and exactly its bytes are consumed; and when the peer closes the connection
  before the header is complete, \<open>IncompleteRead\<close> is raised.\<close>

theorem header_roundtrip:
  assumes "header_ok h" and "encode_header h = Inr bs"
  shows "read_header (bs @ rest) = (Inr (sort_key fst h), rest) \<and>
    map_of (sort_key fst h) = map_of h \<and>
    (strict_prefix p bs \<longrightarrow> fst (read_header p) = Inl IncompleteRead)"
proof (intro conjI impI)
  show "read_header (bs @ rest) = (Inr (sort_key fst h), rest)" by (rule head.read_enc [OF assms])
  show "map_of (sort_key fst h) = map_of h"
    using assms(1) header_ok_sort [OF assms(1)]
    by (intro map_of_inject_set [THEN iffD2]) (simp_all add: header_ok_def)
  assume "strict_prefix p bs"
  from head.read_part [OF assms this] show "fst (read_header p) = Inl IncompleteRead"
    by (simp add: cut_short_def)
qed

text \<open>A header of two fields.\<close>

definition demo_header :: header where
  "demo_header = [(''topic'', ''/chat''), (''callerid'', ''/n'')]"

lemma demo_header_ok: "header_ok demo_header"
proof -
  have "text_ok ''topic'' \<and> text_ok ''/chat'' \<and> text_ok ''callerid'' \<and> text_ok ''/n''"
    by (intro conjI; rule text_ok_ascii; auto)
  moreover have "strip ''topic'' = ''topic'' \<and> strip ''callerid'' = ''callerid''"
    by (simp add: strip_graphic graphic_def)
  ultimately show ?thesis by (simp add: header_ok_def demo_header_def field_ok_def)
qed

theorem header_roundtrip_witness:
  "\<exists>bs. encode_header demo_header = Inr bs \<and> read_header (bs @ [1, 2]) = (Inr (rev demo_header), [1, 2])"
proof -
  have e: "\<exists>bs. encode_header demo_header = Inr bs"
    by (simp add: encode_header_def demo_header_def encode_field_def pack_I_def)
  have "sort_key fst demo_header = rev demo_header" by (simp add: demo_header_def)
  with e header_roundtrip [OF demo_header_ok] show ?thesis by fastforce
qed

text \<open>
  The buffer of a \<open>Serializer\<close> is emptied only when a message was serialised completely.
\<close>

lemma buf_write_over:
  "data \<noteq> [] \<Longrightarrow> length pre = 4 \<Longrightarrow>
     buf_write data (buf_seek 4 \<lparr>buf_bytes = pre @ old, buf_pos = n\<rparr>) =
       \<lparr>buf_bytes = pre @ data @ drop (length data) old, buf_pos = 4 + length data\<rparr>"
  by (simp add: buf_write_def buf_seek_def)

lemma buf_write_size:
  "length sz = 4 \<Longrightarrow> length pre = 4 \<Longrightarrow>
     buf_bytes (buf_write sz (buf_seek 0 \<lparr>buf_bytes = pre @ rest, buf_pos = n\<rparr>)) = sz @ rest"
  by (cases sz) (simp_all add: buf_write_def buf_seek_def)

lemma failed_serialize:
  assumes "\<And>b. ser m b = (Inl e, buf_write part b)" "msg_header m = None" "part \<noteq> []"
  shows "serializer_serialize ser m new_serializer =
    (Inl e, \<lparr>ser_buf = \<lparr>buf_bytes = replicate 4 0 @ part, buf_pos = 4 + length part\<rparr>, ser_seq = 1\<rparr>)"
  using assms
  by (simp add: serializer_serialize_def fill_header_def serialize_def new_serializer_def new_buffer_def
      buf_write_def buf_seek_def)

lemma serialize_over:
  assumes "writes ser m body" "msg_header m = None" "body \<noteq> []" "pack_I (length body) = Inr sz"
  shows "fst (serializer_serialize ser m
      \<lparr>ser_buf = \<lparr>buf_bytes = replicate 4 0 @ old, buf_pos = n\<rparr>, ser_seq = i\<rparr>) =
    Inr (sz @ body @ drop (length body) old)"
proof -
  have "ser m (buf_seek 4 \<lparr>buf_bytes = replicate 4 0 @ old, buf_pos = n\<rparr>) =
      (Inr (), \<lparr>buf_bytes = replicate 4 0 @ body @ drop (length body) old, buf_pos = 4 + length body\<rparr>)"
    using assms(1) buf_write_over [OF assms(3), of "replicate 4 0" old n] by (simp add: writes_def)
  then show ?thesis
    using assms(2,4) buf_write_size [OF length_pack_I [OF assms(4)], of "replicate 4 0"]
    by (simp add: serializer_serialize_def fill_header_def serialize_def Let_def split: prod.splits)
qed

text \<open>When the serialisation of a message raises after it has written some bytes, and the next
  message has a shorter body, the end of the failed one is sent behind it: the receiver reads the
  body of the second message and finds the left-over bytes in front of the third.\<close>

theorem serializer_leftover:
  assumes fails: "\<And>b. ser bad b = (Inl e, buf_write part b)" and "writes ser good body"
    and "msg_header bad = None" "msg_header good = None"
    and "body \<noteq> []" "length body < length part" "length body < 2 ^ 32"
  shows "\<exists>data. fst (serializer_serialize ser good (snd (serializer_serialize ser bad new_serializer))) =
      Inr data \<and> read_data data = (Inr body, drop (length body) part)"
proof -
  obtain sz where sz: "pack_I (length body) = Inr sz" using assms(7) by (simp add: pack_I_def)
  have "part \<noteq> []" using assms(6) by auto
  from failed_serialize [of ser, OF fails assms(3) this] serialize_over [OF assms(2,4,5) sz]
  have "fst (serializer_serialize ser good (snd (serializer_serialize ser bad new_serializer))) =
      Inr (sz @ body @ drop (length body) part)" by simp
  moreover have "read_data ((sz @ body) @ drop (length body) part) = (Inr body, drop (length body) part)"
    by (rule frame.read_enc) (simp_all add: encode_frame_def sz)
  ultimately show ?thesis by simp
qed

text \<open>A class of messages whose last field may be out of range.\<close>

definition demo_ser :: "(bytes \<times> bool) message serializing" where
  "demo_ser m b =
     (let (bs, in_range) = msg_body m in (if in_range then Inr () else Inl StructError, buf_write bs b))"

theorem serializer_leftover_witness:
  "\<exists>data. fst (serializer_serialize demo_ser \<lparr>msg_header = None, msg_body = ([7], True)\<rparr>
      (snd (serializer_serialize demo_ser \<lparr>msg_header = None, msg_body = ([1, 2, 3], False)\<rparr> new_serializer))) =
      Inr data \<and> read_data data = (Inr [7], [2, 3])"
  using serializer_leftover [of demo_ser "\<lparr>msg_header = None, msg_body = ([1, 2, 3], False)\<rparr>" StructError
      "[1, 2, 3]" "\<lparr>msg_header = None, msg_body = ([7], True)\<rparr>" "[7]"]
  by (simp add: demo_ser_def writes_def)

text \<open>The addresses a node announces are taken apart by its own \<open>requestTopic\<close>: host and
  port of the TCP listener, host and path of the Unix socket.\<close>

theorem listener_addresses:
  assumes "slash \<notin> set host" "CHR '':'' \<notin> set host"
    and "prefix ''/'' path" "\<not> sublist ''udsros://'' (host @ ''/'' @ path)"
  shows "split_tcpros_uri (format_tcpros_uri host port) = Inr (host, port) \<and>
    split_udsros_uri (format_udsros_uri host path) = (host, path)"
  using split_tcpros_uri_format [OF assms(1,2)] split_udsros_uri_format [OF assms(1,3,4)] by blast

theorem listener_addresses_witness:
  "split_tcpros_uri (format_tcpros_uri ''pc'' 7400) = Inr (''pc'', 7400) \<and>
    split_udsros_uri (format_udsros_uri ''pc'' ''/tmp/s'') = (''pc'', ''/tmp/s'')"
  by (rule listener_addresses) (simp_all add: sublist_Cons_right)

end
