(* ===== verification/Topic_Publisher.thy ===== *)
theory Topic_Publisher
  imports Master_Client Tcpros_Messages
begin

text \<open>
  A topic this node publishes, \<open>aioros/_node/_tcpros/_topic_publisher.py\<close>: registration
  at the master, the subscribers that are connected, and the publishing of messages to them.

  Each connected subscriber has a queue (a memory stream) its handler forwards to the socket. The
  tasks interleave at every \<open>await\<close>: what is between two of them is one step of
  \<open>publication_step\<close>. Serialisation runs in a worker thread, so a \<open>Publish\<close> step is what
  happens after it. \<open>conn_sent\<close> records what was written to the socket behind the header.
\<close>

section \<open>State\<close>

record topic_type =
  type_name :: string
  type_md5sum :: string
  type_full_text :: string

record connection =
  conn_id :: nat
  conn_protocol :: string
  conn_node :: string
  conn_queue :: "bytes list"
  conn_open :: bool
  conn_sent :: "bytes list"

record publication =
  pub_topic :: string
  pub_type :: topic_type
  pub_node :: string
  pub_latched :: bool
  pub_instances :: int
  pub_seq :: nat
  pub_connections :: "connection list"
  pub_latch :: "bytes option"
  pub_next_id :: nat

definition new_publication :: "string \<Rightarrow> topic_type \<Rightarrow> string \<Rightarrow> bool \<Rightarrow> publication" where
  "new_publication topic ty node latched =
     \<lparr>pub_topic = topic, pub_type = ty, pub_node = node, pub_latched = latched, pub_instances = 0,
      pub_seq = 1, pub_connections = [], pub_latch = None, pub_next_id = 0\<rparr>"

text \<open>The header a publisher answers with; a latched one differs in \<open>latching\<close>.\<close>

definition pub_header :: "publication \<Rightarrow> header" where
  "pub_header p =
     [(''callerid'', pub_node p), (''latching'', if pub_latched p then ''1'' else ''0''),
      (''md5sum'', type_md5sum (pub_type p)), (''message_definition'', type_full_text (pub_type p)),
      (''topic'', pub_topic p), (''type'', type_name (pub_type p))]"

section \<open>Registration\<close>

text \<open>\<open>__aenter__\<close>: the first user registers the topic at the master.\<close>

definition pub_enter :: "ros_node \<Rightarrow> publication \<times> world \<Rightarrow> (unit, publication \<times> world) outcome" where
  "pub_enter n pw =
     (let (p, w) = pw in
      if pub_instances p = 0 then
        let p' = p\<lparr>pub_instances := 1\<rparr>;
            (res, w') = master_register_publisher n (pub_topic p) (type_name (pub_type p)) w
        in (case res of Inl e \<Rightarrow> (Inl e, (p', w')) | Inr _ \<Rightarrow> (Inr (), (p', w')))
      else (Inr (), (p\<lparr>pub_instances := pub_instances p + 1\<rparr>, w)))"

definition map_connection :: "nat \<Rightarrow> (connection \<Rightarrow> connection) \<Rightarrow> publication \<Rightarrow> publication" where
  "map_connection i f p =
     p\<lparr>pub_connections := map (\<lambda>c. if conn_id c = i then f c else c) (pub_connections p)\<rparr>"

definition discard_connection :: "nat \<Rightarrow> publication \<Rightarrow> publication" where
  "discard_connection i p =
     p\<lparr>pub_connections := filter (\<lambda>c. conn_id c \<noteq> i) (pub_connections p)\<rparr>"

text \<open>
  The loop of \<open>aclose\<close> over the set of subscribers, with the number of elements the iterator
  was made for. During each \<open>await\<close> the handlers in \<open>woken\<close> may go on, see the end of their
  stream and remove themselves from the set; the iterator then raises on its next step, the last
  one included.
\<close>

fun close_streams :: "nat \<Rightarrow> (nat \<times> nat list) list \<Rightarrow> publication \<Rightarrow> (unit, publication) outcome" where
  "close_streams used [] p =
     (if length (pub_connections p) \<noteq> used then (Inl RuntimeError, p) else (Inr (), p))"
| "close_streams used ((i, woken) # rest) p =
     (if length (pub_connections p) \<noteq> used then (Inl RuntimeError, p)
      else close_streams used rest
        (fold discard_connection woken (map_connection i (\<lambda>c. c\<lparr>conn_open := False\<rparr>) p)))"

definition pub_close ::
    "ros_node \<Rightarrow> (nat \<Rightarrow> nat list) \<Rightarrow> publication \<times> world \<Rightarrow> (unit, publication \<times> world) outcome" where
  "pub_close n woken pw =
     (let (p, w) = pw in
      if pub_instances p = 1 then
        let p1 = p\<lparr>pub_instances := 0\<rparr>; (res, w') = master_unregister_publisher n (pub_topic p) w in
        (case res of
           Inl e \<Rightarrow> (Inl e, (p1, w'))
         | Inr _ \<Rightarrow>
             let (closed, p2) =
               close_streams (length (pub_connections p1)) (map (\<lambda>c. (conn_id c, woken (conn_id c))) (pub_connections p1)) p1
             in (case closed of
                   Inl e \<Rightarrow> (Inl e, (p2, w'))
                 | Inr _ \<Rightarrow> (Inr (), (p2\<lparr>pub_connections := []\<rparr>, w'))))
      else (Inr (), (p, w)))"

section \<open>Messages\<close>

definition serialization_needed :: "publication \<Rightarrow> bool" where
  "serialization_needed p \<longleftrightarrow> pub_latched p \<or> pub_connections p \<noteq> []"

definition enqueue :: "bytes \<Rightarrow> connection \<Rightarrow> connection" where
  "enqueue data c = c\<lparr>conn_queue := conn_queue c @ [data]\<rparr>"

definition internal_publish :: "bytes \<Rightarrow> publication \<Rightarrow> publication" where
  "internal_publish data p =
     p\<lparr>pub_latch := (if pub_latched p then Some data else pub_latch p),
       pub_connections := map (enqueue data) (pub_connections p)\<rparr>"

text \<open>\<open>publish\<close> with no other task running in between.\<close>

definition publish :: "'b message serializing \<Rightarrow> 'b message \<Rightarrow> publication \<Rightarrow> (unit, publication) outcome" where
  "publish ser m p =
     (if \<not> serialization_needed p then (Inr (), p)
      else
        let (m', n) =
              (case msg_header m of
                 None \<Rightarrow> (m, pub_seq p)
               | Some h \<Rightarrow> let (h', n) = number_header h (pub_seq p) in (m\<lparr>msg_header := Some h'\<rparr>, n));
            p' = p\<lparr>pub_seq := n\<rparr>
        in (case fst (serialize ser m' new_buffer) of
              Inl e \<Rightarrow> (Inl e, p')
            | Inr data \<Rightarrow> (Inr (), internal_publish data p')))"

section \<open>Connections\<close>

text \<open>
  \<open>handle_tcpros\<close> up to the registration of the subscriber: the checks, the header sent to the
  client (the result), the new entry. Then \<open>_on_new_subscriber\<close>, and one round of the loop.
\<close>

definition accept :: "string \<Rightarrow> header \<Rightarrow> publication \<Rightarrow> (bytes, publication) outcome" where
  "accept protocol h p =
     (case bind_result (require_fields h [''topic'', ''md5sum'', ''callerid'']) (\<lambda>_.
             bind_result (check_md5sum h (type_md5sum (pub_type p))) (\<lambda>_.
               bind_result (encode_header (pub_header p)) (\<lambda>reply.
                 bind_result (hget h ''callerid'') (\<lambda>caller. Inr (reply, caller))))) of
        Inl e \<Rightarrow> (Inl e, p)
      | Inr (reply, caller) \<Rightarrow>
          (Inr reply,
           p\<lparr>pub_connections := pub_connections p @
               [\<lparr>conn_id = pub_next_id p, conn_protocol = protocol, conn_node = caller, conn_queue = [],
                 conn_open = True, conn_sent = []\<rparr>],
             pub_next_id := Suc (pub_next_id p)\<rparr>))"

definition on_new_subscriber :: "nat \<Rightarrow> publication \<Rightarrow> publication" where
  "on_new_subscriber i p =
     (case pub_latch p of None \<Rightarrow> p | Some data \<Rightarrow> map_connection i (enqueue data) p)"

definition forward_next :: "connection \<Rightarrow> connection" where
  "forward_next c =
     c\<lparr>conn_queue := tl (conn_queue c), conn_sent := conn_sent c @ [hd (conn_queue c)]\<rparr>"

definition forward :: "nat \<Rightarrow> bool \<Rightarrow> publication \<Rightarrow> publication" where
  "forward i sent p = (if sent then map_connection i forward_next p else discard_connection i p)"

definition find_connection :: "nat \<Rightarrow> publication \<Rightarrow> connection option" where
  "find_connection i p = find (\<lambda>c. conn_id c = i) (pub_connections p)"

datatype publication_event =
    Connect string header
  | Greet nat
  | Publish bytes
  | Forward nat bool
  | Ended nat

inductive publication_step :: "publication_event \<Rightarrow> publication \<Rightarrow> publication \<Rightarrow> bool" where
  step_connect: "accept protocol h p = (Inr reply, p') \<Longrightarrow> publication_step (Connect protocol h) p p'"
| step_greet: "publication_step (Greet i) p (on_new_subscriber i p)"
| step_publish: "serialization_needed p \<Longrightarrow> publication_step (Publish data) p (internal_publish data p)"
| step_forward: "find_connection i p = Some c \<Longrightarrow> conn_queue c \<noteq> [] \<Longrightarrow>
    publication_step (Forward i sent) p (forward i sent p)"
| step_ended: "find_connection i p = Some c \<Longrightarrow> conn_queue c = [] \<Longrightarrow> \<not> conn_open c \<Longrightarrow>
    publication_step (Ended i) p (discard_connection i p)"

inductive publication_run :: "publication_event list \<Rightarrow> publication \<Rightarrow> publication \<Rightarrow> bool" where
  run_nothing: "publication_run [] p p"
| run_step: "publication_step ev p q \<Longrightarrow> publication_run evs q r \<Longrightarrow> publication_run (ev # evs) p r"

inductive_cases publication_stepE: "publication_step ev p q"
inductive_simps publication_run_Nil [simp]: "publication_run [] p q"
inductive_simps publication_run_Cons: "publication_run (ev # evs) p q"

section \<open>What a connection is due\<close>

text \<open>
  The contract of a publication: every connection is due each message published while it is there,
  in order, and once, when it is greeted, the latest one of a latched topic. What is due is what was
  sent and what is queued.
\<close>

record feed =
  feed_due :: "nat \<Rightarrow> bytes list option"
  feed_latest :: "bytes option"
  feed_latched :: bool
  feed_next :: nat

definition due_also :: "bytes \<Rightarrow> bytes list option \<Rightarrow> bytes list option" where
  "due_also data = map_option (\<lambda>xs. xs @ [data])"

fun feed_step :: "publication_event \<Rightarrow> feed \<Rightarrow> feed" where
  "feed_step (Connect protocol h) f =
     f\<lparr>feed_due := (feed_due f)(feed_next f := Some []), feed_next := Suc (feed_next f)\<rparr>"
| "feed_step (Greet i) f =
     (case feed_latest f of
        None \<Rightarrow> f
      | Some data \<Rightarrow> f\<lparr>feed_due := (feed_due f)(i := due_also data (feed_due f i))\<rparr>)"
| "feed_step (Publish data) f =
     f\<lparr>feed_latest := (if feed_latched f then Some data else feed_latest f),
       feed_due := (\<lambda>i. due_also data (feed_due f i))\<rparr>"
| "feed_step (Forward i sent) f = (if sent then f else f\<lparr>feed_due := (feed_due f)(i := None)\<rparr>)"
| "feed_step (Ended i) f = f\<lparr>feed_due := (feed_due f)(i := None)\<rparr>"

definition due :: "nat \<Rightarrow> publication \<Rightarrow> bytes list option" where
  "due i p = map_option (\<lambda>c. conn_sent c @ conn_queue c) (find_connection i p)"

definition feed_of :: "publication \<Rightarrow> feed" where
  "feed_of p =
     \<lparr>feed_due = (\<lambda>i. due i p), feed_latest = pub_latch p, feed_latched = pub_latched p,
      feed_next = pub_next_id p\<rparr>"

definition publication_ok :: "publication \<Rightarrow> bool" where
  "publication_ok p \<longleftrightarrow> (\<forall>c\<in>set (pub_connections p). conn_id c < pub_next_id p)"

lemma find_map_same: "(\<And>c. P (f c) = P c) \<Longrightarrow> find P (map f xs) = map_option f (find P xs)"
  by (induction xs) auto

lemma find_append: "find P (xs @ ys) = (case find P xs of None \<Rightarrow> find P ys | Some x \<Rightarrow> Some x)"
  by (induction xs) auto

named_theorems publication_simps "connections after a step"

lemma find_map_connection [publication_simps]:
  assumes "\<And>c. conn_id (f c) = conn_id c"
  shows "find_connection j (map_connection i f p) =
    (if j = i then map_option f (find_connection i p) else find_connection j p)"
proof -
  have "find (\<lambda>c. conn_id c = j) (map (\<lambda>c. if conn_id c = i then f c else c) xs) =
      (if j = i then map_option f (find (\<lambda>c. conn_id c = i) xs) else find (\<lambda>c. conn_id c = j) xs)" for xs
    by (induction xs) (auto simp: assms)
  then show ?thesis by (simp add: find_connection_def map_connection_def)
qed

lemma find_discard_connection [publication_simps]:
  "find_connection j (discard_connection i p) = (if j = i then None else find_connection j p)"
proof -
  have "find (\<lambda>c. conn_id c = j) (filter (\<lambda>c. conn_id c \<noteq> i) xs) =
      (if j = i then None else find (\<lambda>c. conn_id c = j) xs)" for xs :: "connection list"
    by (induction xs) auto
  then show ?thesis by (simp add: find_connection_def discard_connection_def)
qed

lemma conn_id_updates [publication_simps]:
  "conn_id (enqueue data c) = conn_id c" "conn_id (forward_next c) = conn_id c"
  by (simp_all add: enqueue_def forward_next_def)

lemma due_enqueue: "due_also data (map_option (\<lambda>c. conn_sent c @ conn_queue c) x) =
    map_option (\<lambda>c. conn_sent c @ conn_queue c) (map_option (enqueue data) x)"
  by (cases x) (simp_all add: due_also_def enqueue_def)

lemma due_internal_publish [publication_simps]: "due i (internal_publish data p) = due_also data (due i p)"
  unfolding due_def due_enqueue
  by (simp add: find_connection_def internal_publish_def find_map_same publication_simps)

lemma due_on_new_subscriber [publication_simps]:
  "due j (on_new_subscriber i p) =
     (case pub_latch p of None \<Rightarrow> due j p | Some data \<Rightarrow> if j = i then due_also data (due i p) else due j p)"
  by (simp add: due_def due_enqueue on_new_subscriber_def publication_simps split: option.split)

lemma due_forward [publication_simps]:
  assumes "find_connection i p = Some c" "conn_queue c \<noteq> []"
  shows "due j (forward i sent p) = (if sent \<or> j \<noteq> i then due j p else None)"
  using assms by (auto simp: due_def forward_def forward_next_def publication_simps)

lemma due_discard_connection [publication_simps]:
  "due j (discard_connection i p) = (if j = i then None else due j p)"
  by (simp add: due_def publication_simps)

lemma fresh_connection: "publication_ok p \<Longrightarrow> find_connection (pub_next_id p) p = None"
  by (auto simp: publication_ok_def find_connection_def find_None_iff)

lemma accept_Inr:
  "accept protocol h p = (Inr reply, p') \<Longrightarrow>
     \<exists>caller. encode_header (pub_header p) = Inr reply \<and> p' = p\<lparr>pub_connections := pub_connections p @
       [\<lparr>conn_id = pub_next_id p, conn_protocol = protocol, conn_node = caller, conn_queue = [],
         conn_open = True, conn_sent = []\<rparr>], pub_next_id := Suc (pub_next_id p)\<rparr>"
  by (auto simp: accept_def bind_result_eq_Inr split: sum.splits prod.splits)

lemma due_accept [publication_simps]:
  assumes "accept protocol h p = (Inr reply, p')" "publication_ok p"
  shows "due j p' = (if j = pub_next_id p then Some [] else due j p)"
proof -
  from accept_Inr [OF assms(1)] obtain caller where
    p': "p' = p\<lparr>pub_connections := pub_connections p @
       [\<lparr>conn_id = pub_next_id p, conn_protocol = protocol, conn_node = caller, conn_queue = [],
         conn_open = True, conn_sent = []\<rparr>], pub_next_id := Suc (pub_next_id p)\<rparr>" by blast
  then have "find_connection j p' = (case find_connection j p of Some c \<Rightarrow> Some c | None \<Rightarrow>
      if j = pub_next_id p then Some \<lparr>conn_id = pub_next_id p, conn_protocol = protocol, conn_node = caller,
        conn_queue = [], conn_open = True, conn_sent = []\<rparr> else None)"
    by (auto simp: find_connection_def find_append split: option.split)
  with fresh_connection [OF assms(2)] show ?thesis by (auto simp: due_def split: option.splits)
qed

lemma publication_fields [publication_simps]:
  "pub_latch (map_connection i f p) = pub_latch p" "pub_latched (map_connection i f p) = pub_latched p"
  "pub_next_id (map_connection i f p) = pub_next_id p"
  "pub_latch (discard_connection i p) = pub_latch p" "pub_latched (discard_connection i p) = pub_latched p"
  "pub_next_id (discard_connection i p) = pub_next_id p"
  "pub_latch (on_new_subscriber i p) = pub_latch p" "pub_latched (on_new_subscriber i p) = pub_latched p"
  "pub_next_id (on_new_subscriber i p) = pub_next_id p"
  by (simp_all add: map_connection_def discard_connection_def on_new_subscriber_def split: option.split)

lemma publication_step_feed:
  assumes "publication_step ev p q" "publication_ok p"
  shows "feed_of q = feed_step ev (feed_of p)"
  using assms(1)
proof cases
  case (step_connect protocol h reply)
  have "due j q = (if j = pub_next_id p then Some [] else due j p)" for j
    by (rule due_accept [OF step_connect(2) assms(2)])
  with accept_Inr [OF step_connect(2)] step_connect(1) show ?thesis
    by (auto simp: feed_of_def)
next
  case (step_greet i)
  then show ?thesis
    by (auto simp: feed_of_def publication_simps fun_eq_iff split: option.split)
next
  case (step_publish data)
  then show ?thesis by (simp add: feed_of_def publication_simps) (simp add: internal_publish_def)
next
  case (step_forward i c sent)
  then show ?thesis by (auto simp: feed_of_def publication_simps) (auto simp: forward_def publication_simps)
next
  case (step_ended i c)
  then show ?thesis by (auto simp: feed_of_def publication_simps)
qed

lemma publication_ok_step: "publication_step ev p q \<Longrightarrow> publication_ok p \<Longrightarrow> publication_ok q"
proof (induction rule: publication_step.induct)
  case (step_connect protocol h p reply p')
  with accept_Inr [OF step_connect(1)] show ?case by (auto simp: publication_ok_def less_Suc_eq)
qed (auto simp: publication_ok_def on_new_subscriber_def internal_publish_def forward_def
    map_connection_def discard_connection_def enqueue_def forward_next_def split: option.split)

text \<open>A run of the publication is a run of its contract.\<close>

lemma publication_run_feed:
  "publication_run evs p q \<Longrightarrow> publication_ok p \<Longrightarrow>
     publication_ok q \<and> feed_of q = fold feed_step evs (feed_of p)"
  by (induction rule: publication_run.induct) (auto simp: publication_step_feed publication_ok_step)

section \<open>Properties\<close>

fun published :: "publication_event list \<Rightarrow> bytes list" where
  "published [] = []"
| "published (Publish data # evs) = data # published evs"
| "published (_ # evs) = published evs"

text \<open>A connection that is gone does not come back, for its number is not given again.\<close>

lemma feed_gone:
  "i < feed_next f \<Longrightarrow> feed_due f i = None \<Longrightarrow> feed_due (fold feed_step evs f) i = None"
proof (induction evs arbitrary: f)
  case (Cons ev evs)
  have "i < feed_next (feed_step ev f)" "feed_due (feed_step ev f) i = None"
    using Cons.prems by (cases ev; auto simp: due_also_def split: option.split)+
  with Cons.IH show ?case by simp
qed simp

text \<open>Nothing of the latch comes in between: no greeting, or a topic that is not latched.\<close>

definition no_latch :: "nat \<Rightarrow> publication_event list \<Rightarrow> feed \<Rightarrow> bool" where
  "no_latch i evs f \<longleftrightarrow> Greet i \<notin> set evs \<or> \<not> feed_latched f \<and> feed_latest f = None"

lemma no_latch_step: "no_latch i (ev # evs) f \<Longrightarrow> no_latch i evs (feed_step ev f)"
  by (cases ev) (auto simp: no_latch_def split: option.split)

lemma feed_kept:
  "i < feed_next f \<Longrightarrow> feed_due f i = Some xs \<Longrightarrow> no_latch i evs f \<Longrightarrow>
     feed_due (fold feed_step evs f) i = Some ys \<Longrightarrow> ys = xs @ published evs"
proof (induction evs arbitrary: f xs)
  case (Cons ev evs)
  have next_i: "i < feed_next (feed_step ev f)"
    using Cons.prems(1) by (cases ev) (auto split: option.split)
  show ?case
  proof (cases "feed_due (feed_step ev f) i")
    case None
    with feed_gone [OF next_i] Cons.prems(4) show ?thesis by simp
  next
    case (Some zs)
    with Cons.prems have "zs @ published evs = xs @ published (ev # evs)"
      by (cases ev) (auto simp: no_latch_def due_also_def split: option.splits if_splits)
    with Cons.IH [OF next_i Some no_latch_step [OF Cons.prems(3)]] Cons.prems show ?thesis by simp
  qed
qed simp

lemma feed_latest_run:
  "feed_latest (fold feed_step evs f) =
     (if feed_latched f \<and> published evs \<noteq> [] then Some (last (published evs)) else feed_latest f)
   \<and> feed_latched (fold feed_step evs f) = feed_latched f"
proof (induction evs arbitrary: f)
  case (Cons ev evs)
  show ?case by (cases ev) (auto simp: Cons.IH split: option.split)
qed simp

lemma feed_next_mono: "feed_next f \<le> feed_next (fold feed_step evs f)"
proof (induction evs arbitrary: f)
  case (Cons ev evs)
  have "feed_next f \<le> feed_next (feed_step ev f)" by (cases ev) (auto split: option.split)
  with Cons.IH [of "feed_step ev f"] show ?case by simp
qed simp

lemma due_connection: "find_connection i p = Some c \<Longrightarrow> due i p = Some (conn_sent c @ conn_queue c)"
  by (simp add: due_def)

lemma feed_of_sel [simp]:
  "feed_due (feed_of p) i = due i p" "feed_latest (feed_of p) = pub_latch p"
  "feed_latched (feed_of p) = pub_latched p" "feed_next (feed_of p) = pub_next_id p"
  by (simp_all add: feed_of_def)

lemma feed_run:
  assumes "publication_ok p" and "publication_run evs p q"
    and "Greet i \<notin> set evs \<or> \<not> pub_latched p \<and> pub_latch p = None"
    and "find_connection i p = Some c" and "find_connection i q = Some c'"
  shows "conn_sent c' @ conn_queue c' = (conn_sent c @ conn_queue c) @ published evs"
proof (rule feed_kept)
  have "conn_id c = i" "c \<in> set (pub_connections p)"
    using assms(4) by (auto simp: find_connection_def find_Some_iff)
  with assms(1) show "i < feed_next (feed_of p)" by (auto simp: publication_ok_def)
  show "feed_due (feed_of p) i = Some (conn_sent c @ conn_queue c)"
    using assms(4) by (simp add: due_connection)
  show "feed_due (fold feed_step evs (feed_of p)) i = Some (conn_sent c' @ conn_queue c')"
    using publication_run_feed [OF assms(2,1)] due_connection [OF assms(5)] by (metis feed_of_sel(1))
  show "no_latch i evs (feed_of p)" using assms(3) by (simp add: no_latch_def)
qed



text \<open>A latched topic with one subscriber, which a message overtakes before it is greeted.\<close>

definition demo_type :: topic_type where
  "demo_type = \<lparr>type_name = ''std_msgs/String'', type_md5sum = ''992c'', type_full_text = ''string data''\<rparr>"

definition demo_publication :: publication where
  "demo_publication = new_publication ''/chat'' demo_type ''/s'' True"

definition demo_request :: header where
  "demo_request = [(''topic'', ''/chat''), (''md5sum'', ''*''), (''callerid'', ''/n'')]"

definition demo_connection :: "bytes list \<Rightarrow> bytes list \<Rightarrow> connection" where
  "demo_connection sent queued =
     \<lparr>conn_id = 0, conn_protocol = ''TCPROS'', conn_node = ''/n'', conn_queue = queued, conn_open = True,
      conn_sent = sent\<rparr>"

definition demo_connected :: "bytes list \<Rightarrow> bytes list \<Rightarrow> bytes option \<Rightarrow> publication" where
  "demo_connected sent queued latch =
     demo_publication\<lparr>pub_connections := [demo_connection sent queued], pub_latch := latch, pub_next_id := 1\<rparr>"

lemma demo_publication_ok: "publication_ok demo_publication"
  by (simp add: publication_ok_def demo_publication_def new_publication_def)

lemma demo_accept:
  "\<exists>reply. accept ''TCPROS'' demo_request demo_publication = (Inr reply, demo_connected [] [] None)"
  by (simp add: accept_def demo_request_def demo_publication_def new_publication_def demo_type_def
      check_md5sum_def hget_def encode_header_def encode_field_def pack_I_def pub_header_def
      demo_connected_def demo_connection_def)

lemma demo_run_1:
  "publication_run [Connect ''TCPROS'' demo_request, Publish [1], Greet 0, Publish [2]]
     demo_publication (demo_connected [] [[1], [1], [2]] (Some [2]))"
proof -
  have "publication_step (Connect ''TCPROS'' demo_request) demo_publication (demo_connected [] [] None)"
    using demo_accept by (auto intro: step_connect)
  moreover have "publication_step (Publish [1]) (demo_connected [] [] None) (demo_connected [] [[1]] (Some [1]))"
    using step_publish [of "demo_connected [] [] None" "[1]"]
    by (simp add: serialization_needed_def internal_publish_def demo_connected_def demo_publication_def
        new_publication_def demo_connection_def enqueue_def)
  moreover have "publication_step (Greet 0) (demo_connected [] [[1]] (Some [1])) (demo_connected [] [[1], [1]] (Some [1]))"
    using step_greet [of 0 "demo_connected [] [[1]] (Some [1])"]
    by (simp add: on_new_subscriber_def map_connection_def demo_connected_def demo_publication_def
        new_publication_def demo_connection_def enqueue_def)
  moreover have "publication_step (Publish [2]) (demo_connected [] [[1], [1]] (Some [1]))
      (demo_connected [] [[1], [1], [2]] (Some [2]))"
    using step_publish [of "demo_connected [] [[1], [1]] (Some [1])" "[2]"]
    by (simp add: serialization_needed_def internal_publish_def demo_connected_def demo_publication_def
        new_publication_def demo_connection_def enqueue_def)
  ultimately show ?thesis by (auto simp: publication_run_Cons)
qed

lemma demo_find: "find_connection 0 (demo_connected sent queued latch) = Some (demo_connection sent queued)"
  by (simp add: find_connection_def demo_connected_def demo_connection_def)


lemma demo_run_2:
  "publication_run [Publish [3], Forward 0 True] (demo_connected [] [[1]] (Some [1]))
     (demo_connected [[1]] [[3]] (Some [3]))"
proof -
  have "publication_step (Publish [3]) (demo_connected [] [[1]] (Some [1])) (demo_connected [] [[1], [3]] (Some [3]))"
    using step_publish [of "demo_connected [] [[1]] (Some [1])" "[3]"]
    by (simp add: serialization_needed_def internal_publish_def demo_connected_def demo_publication_def
        new_publication_def demo_connection_def enqueue_def)
  moreover have "publication_step (Forward 0 True) (demo_connected [] [[1], [3]] (Some [3]))
      (demo_connected [[1]] [[3]] (Some [3]))"
    using step_forward [OF demo_find [of "[]" "[[1], [3]]" "Some [3]"], of True]
    by (simp add: forward_def map_connection_def forward_next_def demo_connected_def demo_connection_def
        demo_publication_def new_publication_def)
  ultimately show ?thesis by (auto simp: publication_run_Cons)
qed


section \<open>Users of a publication\<close>

text \<open>When two users enter a publication and both leave it, it stays registered at the master:
  \<open>aclose\<close> counts down from one only, so a publication with two users is never closed.\<close>

theorem shared_publication_leaks:
  assumes "pub_instances p = 0"
    and "pub_enter n (p, w) = (Inr (), s1)" and "pub_enter n s1 = (Inr (), s2)"
    and "pub_close n woken s2 = (Inr (), s3)" and "pub_close n woken' s3 = (Inr (), (p', w'))"
  shows "own_registration n \<in> set (publishers_of (the_master w') (pub_topic p)) \<and> pub_instances p' = 2"
proof -
  have "s1 = (p\<lparr>pub_instances := 1\<rparr>, snd (master_register_publisher n (pub_topic p) (type_name (pub_type p)) w))"
    using assms(1,2) by (auto simp: pub_enter_def Let_def split: prod.splits sum.splits)
  with assms(3-5) register_publisher_members [of n "pub_topic p" "type_name (pub_type p)" w] show ?thesis
    by (auto simp: pub_enter_def pub_close_def)
qed

theorem shared_publication_leaks_witness:
  "\<exists>p' w'. pub_close demo_node (\<lambda>_. []) (snd (pub_close demo_node (\<lambda>_. [])
      (snd (pub_enter demo_node (snd (pub_enter demo_node (demo_publication, demo_world []))))))) = (Inr (), (p', w')) \<and>
     own_registration demo_node \<in> set (publishers_of (the_master w') ''/chat'') \<and> pub_instances p' = 2"
proof -
  let ?w = "snd (master_register_publisher demo_node ''/chat'' ''std_msgs/String'' (demo_world []))"
  have 0: "pub_instances demo_publication = 0" "pub_topic demo_publication = ''/chat''"
      "type_name (pub_type demo_publication) = ''std_msgs/String''"
    by (simp_all add: demo_publication_def new_publication_def demo_type_def)
  have 1: "pub_enter demo_node (demo_publication, demo_world []) = (Inr (), (demo_publication\<lparr>pub_instances := 1\<rparr>, ?w))"
    by (simp add: pub_enter_def 0 node_simps Let_def)
  have 2: "pub_enter demo_node (demo_publication\<lparr>pub_instances := 1\<rparr>, ?w) =
      (Inr (), (demo_publication\<lparr>pub_instances := 2\<rparr>, ?w))"
    by (simp add: pub_enter_def)
  have 3: "pub_close demo_node woken (demo_publication\<lparr>pub_instances := 2\<rparr>, ?w) =
      (Inr (), (demo_publication\<lparr>pub_instances := 2\<rparr>, ?w))" for woken
    by (simp add: pub_close_def)
  from shared_publication_leaks [OF 0(1) 1 2 3 3] show ?thesis
    by (simp only: 1 2 3 snd_conv 0) blast
qed

section \<open>Closing while handlers go on\<close>

lemma length_map_connection [simp]:
  "length (pub_connections (map_connection i f p)) = length (pub_connections p)"
  by (simp add: map_connection_def)

lemma ids_map_connection [simp]:
  "(\<And>c. conn_id (f c) = conn_id c) \<Longrightarrow>
     map conn_id (pub_connections (map_connection i f p)) = map conn_id (pub_connections p)"
  by (simp add: map_connection_def comp_def if_distrib)

lemma fold_discard_ids:
  "map conn_id (pub_connections (fold discard_connection is p)) =
     filter (\<lambda>i. i \<notin> set is) (map conn_id (pub_connections p))"
proof (induction "is" arbitrary: p)
  case (Cons i "is")
  have "map conn_id (pub_connections (discard_connection i p)) =
      filter (\<lambda>j. j \<noteq> i) (map conn_id (pub_connections p))"
    by (simp add: discard_connection_def filter_map comp_def)
  with Cons.IH [of "discard_connection i p"] show ?case by (simp add: conj_commute)
qed simp

lemma close_streams_shrunk:
  "length (pub_connections p) < used \<Longrightarrow> close_streams used todo p = (Inl RuntimeError, p)"
  by (cases todo; cases "hd todo") auto

lemma close_streams_woken:
  assumes "length (pub_connections p) \<le> used" "(i, woken) \<in> set todo"
    "i \<in> conn_id ` set (pub_connections p)" "i \<in> set woken"
  shows "fst (close_streams used todo p) = Inl RuntimeError"
  using assms
proof (induction todo arbitrary: p)
  case (Cons jw todo)
  obtain j ws where jw: "jw = (j, ws)" by fastforce
  let ?q = "fold discard_connection ws (map_connection j (\<lambda>c. c\<lparr>conn_open := False\<rparr>) p)"
  have ids: "map conn_id (pub_connections ?q) = filter (\<lambda>i. i \<notin> set ws) (map conn_id (pub_connections p))"
    by (simp add: fold_discard_ids)
  then have len: "length (pub_connections ?q) = length (filter (\<lambda>i. i \<notin> set ws) (map conn_id (pub_connections p)))"
    by (metis length_map)
  show ?case
  proof (cases "i \<in> set ws")
    case True
    with Cons.prems(3) have "length (pub_connections ?q) < length (map conn_id (pub_connections p))"
      unfolding len by (intro length_filter_less [of i]) auto
    with Cons.prems(1) jw show ?thesis by (simp add: close_streams_shrunk)
  next
    case False
    with Cons.prems jw have "(i, woken) \<in> set todo" by auto
    moreover have "i \<in> set (map conn_id (pub_connections ?q))" unfolding ids using False Cons.prems(3) by auto
    moreover have "length (pub_connections ?q) \<le> used"
      unfolding len using Cons.prems(1) length_filter_le [of _ "map conn_id (pub_connections p)"]
      by (metis le_trans length_map)
    ultimately show ?thesis using Cons.IH [of ?q] Cons.prems(4) jw by simp
  qed
qed simp

text \<open>\<open>aclose\<close> of the last user raises \<open>RuntimeError\<close> as soon as the handler of one
  connected subscriber gets to run while its stream is being closed: the handler removes its subscriber
  from the set the loop iterates over. The topic is then no longer registered at the master.\<close>

theorem close_race:
  assumes "pub_instances p = 1" and "c \<in> set (pub_connections p)" and "conn_id c \<in> set (woken (conn_id c))"
    and "pub_close n woken (p, w) = (res, (p', w'))"
  shows "res = Inl RuntimeError \<and> own_registration n \<notin> set (publishers_of (the_master w') (pub_topic p))"
proof -
  have "fst (close_streams (length (pub_connections p))
      (map (\<lambda>c. (conn_id c, woken (conn_id c))) (pub_connections p)) (p\<lparr>pub_instances := 0\<rparr>)) = Inl RuntimeError"
    using assms(2,3) by (intro close_streams_woken [of _ _ "conn_id c" "woken (conn_id c)"]) auto
  with assms(1,4) unregister_publisher_members [of n "pub_topic p" w] show ?thesis
    by (auto simp: pub_close_def Let_def node_simps split: prod.splits)
qed

theorem close_race_witness:
  "\<exists>p' w'. pub_close demo_node (\<lambda>i. [i]) ((demo_connected [] [] None)\<lparr>pub_instances := 1\<rparr>, demo_world []) =
     (Inl RuntimeError, (p', w'))"
proof -
  obtain res p' w' where r:
    "pub_close demo_node (\<lambda>i. [i]) ((demo_connected [] [] None)\<lparr>pub_instances := 1\<rparr>, demo_world []) = (res, (p', w'))"
    by (metis prod.exhaust)
  have c: "demo_connection [] [] \<in> set (pub_connections ((demo_connected [] [] None)\<lparr>pub_instances := 1\<rparr>))"
    by (simp add: demo_connected_def)
  from close_race [OF _ c _ r] r show ?thesis by auto
qed

end
