(* ===== verification/Topic_Subscriber.thy ===== *)
theory Topic_Subscriber
  imports Topic_Publisher
begin

text \<open>
  A topic this node subscribes, \<open>aioros/_node/_tcpros/_topic_subscriber.py\<close>: one
  \<open>SubscriptionManager\<close> per topic, its registration at the master, a task per publisher that
  negotiates a connection and reads messages, and the streams of the \<open>Subscription\<close> objects the
  messages go to.

  A \<open>ConnectedPublisher\<close> is shared by the dict \<open>connected_publishers\<close> and its task, so
  the dict holds its id and \<open>sub_peers\<close> the objects. Cancelling its scope is the flag
  \<open>peer_cancelled\<close>; the task ends some time later.
\<close>

section \<open>State\<close>

record peer =
  peer_uri :: string
  peer_cancelled :: bool
  peer_connected :: bool
  peer_protocol :: string
  peer_params :: "pyval list"

text \<open>The two ends of a memory stream: what is queued, and whether the receiving end is open.\<close>

record 'm stream =
  stream_queue :: "'m list"
  stream_receiving :: bool

record 'm manager =
  sub_topic :: string
  sub_type :: topic_type
  sub_node :: string
  sub_streams :: "(nat \<times> 'm stream) list"
  sub_publishers :: "(string \<times> nat) list"
  sub_peers :: "nat \<Rightarrow> peer option"
  sub_registered :: bool
  sub_next_id :: nat

definition new_manager :: "string \<Rightarrow> topic_type \<Rightarrow> string \<Rightarrow> 'm manager" where
  "new_manager topic ty node =
     \<lparr>sub_topic = topic, sub_type = ty, sub_node = node, sub_streams = [], sub_publishers = [],
      sub_peers = Map.empty, sub_registered = False, sub_next_id = 0\<rparr>"

definition new_peer :: "string \<Rightarrow> peer" where
  "new_peer uri =
     \<lparr>peer_uri = uri, peer_cancelled = False, peer_connected = False, peer_protocol = '''',
      peer_params = []\<rparr>"

definition sub_header :: "'m manager \<Rightarrow> header" where
  "sub_header m =
     [(''topic'', sub_topic m), (''message_definition'', type_full_text (sub_type m)),
      (''tcp_nodelay'', ''1''), (''md5sum'', type_md5sum (sub_type m)),
      (''type'', type_name (sub_type m)), (''callerid'', sub_node m)]"

definition map_peer :: "nat \<Rightarrow> (peer \<Rightarrow> peer) \<Rightarrow> 'm manager \<Rightarrow> 'm manager" where
  "map_peer i f m = m\<lparr>sub_peers := (sub_peers m)(i := map_option f (sub_peers m i))\<rparr>"

section \<open>The publishers of the topic\<close>

text \<open>\<open>self.connected_publishers.pop(uri).cancel_scope.cancel()\<close>\<close>

definition drop_peer :: "string \<Rightarrow> 'm manager \<Rightarrow> 'm manager" where
  "drop_peer uri m =
     (case map_of (sub_publishers m) uri of
        None \<Rightarrow> m
      | Some i \<Rightarrow>
          map_peer i (\<lambda>p. p\<lparr>peer_cancelled := True\<rparr>)
            (m\<lparr>sub_publishers := AList.delete uri (sub_publishers m)\<rparr>))"

text \<open>A new \<open>ConnectedPublisher\<close> and its task.\<close>

definition connect_peer :: "string \<Rightarrow> 'm manager \<Rightarrow> 'm manager" where
  "connect_peer uri m =
     m\<lparr>sub_publishers := AList.update uri (sub_next_id m) (sub_publishers m),
       sub_peers := (sub_peers m)(sub_next_id m \<mapsto> new_peer uri),
       sub_next_id := Suc (sub_next_id m)\<rparr>"

definition update_publishers :: "string list \<Rightarrow> 'm manager \<Rightarrow> 'm manager" where
  "update_publishers uris m =
     (let current = map fst (sub_publishers m);
          to_discard = filter (\<lambda>uri. uri \<notin> set uris) current;
          to_connect = filter (\<lambda>uri. uri \<notin> set current) (remdups uris)
      in fold connect_peer to_connect (fold drop_peer to_discard m))"

text \<open>The end of a task, \<open>finally\<close>: its address leaves the dict, whoever has it there.\<close>

definition task_ends :: "nat \<Rightarrow> 'm manager \<Rightarrow> 'm manager" where
  "task_ends i m =
     (case sub_peers m i of
        None \<Rightarrow> m
      | Some p \<Rightarrow> m\<lparr>sub_publishers := AList.delete (peer_uri p) (sub_publishers m)\<rparr>)"

definition has_peers :: "'m manager \<Rightarrow> bool" where
  "has_peers m \<longleftrightarrow>
     list_ex (\<lambda>(uri, i). case sub_peers m i of None \<Rightarrow> False | Some p \<Rightarrow> peer_connected p) (sub_publishers m)"

section \<open>Registration\<close>

text \<open>The answer of the master as the list of addresses it is.\<close>

fun as_strings :: "pyval list \<Rightarrow> string list result" where
  "as_strings [] = Inr []"
| "as_strings (PStr s # vs) = bind_result (as_strings vs) (\<lambda>ss. Inr (s # ss))"
| "as_strings (_ # vs) = Inl TypeError"

definition answered_uris :: "pyval \<Rightarrow> string list result" where
  "answered_uris v = (case v of PList vs \<Rightarrow> as_strings vs | _ \<Rightarrow> Inl TypeError)"

definition new_stream :: "'m stream" where
  "new_stream = \<lparr>stream_queue = [], stream_receiving = True\<rparr>"

definition sub_register ::
    "ros_node \<Rightarrow> nat \<Rightarrow> 'm manager \<times> world \<Rightarrow> (unit, 'm manager \<times> world) outcome" where
  "sub_register n stream mw =
     (let (m, w) = mw;
          add = (\<lambda>m. m\<lparr>sub_streams := AList.update stream new_stream (sub_streams m)\<rparr>)
      in if sub_registered m then (Inr (), (add m, w))
         else
           let (res, w') = master_register_subscriber n (sub_topic m) (type_name (sub_type m)) w in
           (case res of
              Inl e \<Rightarrow> (Inl e, (m, w'))
            | Inr v \<Rightarrow>
                (case answered_uris v of
                   Inl e \<Rightarrow> (Inl e, (m\<lparr>sub_registered := True\<rparr>, w'))
                 | Inr uris \<Rightarrow> (Inr (), (add (update_publishers uris (m\<lparr>sub_registered := True\<rparr>)), w')))))"

definition sub_unregister ::
    "ros_node \<Rightarrow> nat \<Rightarrow> 'm manager \<times> world \<Rightarrow> (unit, 'm manager \<times> world) outcome" where
  "sub_unregister n stream mw =
     (let (m, w) = mw; m' = m\<lparr>sub_streams := AList.delete stream (sub_streams m)\<rparr> in
      if sub_streams m' \<noteq> [] then (Inr (), (m', w))
      else
        let (res, w') = master_unregister_subscriber n (sub_topic m) w in
        (case res of
           Inl e \<Rightarrow> (Inl e, (m', w'))
         | Inr _ \<Rightarrow> (Inr (), (update_publishers [] (m'\<lparr>sub_registered := False\<rparr>), w'))))"

text \<open>
  \<open>Subscription.aclose\<close> closes the receiving end, then waits for the lock and unregisters: two
  steps.
\<close>

definition close_receiving :: "nat \<Rightarrow> 'm manager \<Rightarrow> 'm manager" where
  "close_receiving stream m =
     m\<lparr>sub_streams :=
         map (\<lambda>(i, s). (i, if i = stream then s\<lparr>stream_receiving := False\<rparr> else s)) (sub_streams m)\<rparr>"

section \<open>The task of a publisher\<close>

text \<open>
  \<open>NodeApiClient.request_topic\<close> and \<open>_get_publisher_connection_params\<close>; the peer's
  answer to the call is a parameter.
\<close>

type_synonym topic_request = "string list list \<Rightarrow> (int \<times> string \<times> pyval list) result"

definition request_topic :: "topic_request \<Rightarrow> string list list \<Rightarrow> pyval list result" where
  "request_topic peer protocols =
     bind_result (peer protocols) (\<lambda>(code, msg, v). if code \<noteq> 1 then Inl (XMLRPCError msg) else Inr v)"

definition connection_params :: "topic_request \<Rightarrow> string list \<Rightarrow> (pyval \<times> pyval list) result" where
  "connection_params peer protocols =
     bind_result (request_topic peer (map (\<lambda>p. [p]) protocols)) (\<lambda>topic.
       case topic of [] \<Rightarrow> Inl IndexError | protocol # params \<Rightarrow> Inr (protocol, params))"

text \<open>
  Where the task connects to: a Unix socket, or a host and a port (to which \<open>int\<close> is applied).
\<close>

datatype endpoint = UnixSocket pyval | TcpSocket pyval pyval

definition tcp_endpoint :: "pyval \<times> pyval list \<Rightarrow> (pyval \<times> pyval list \<times> endpoint) result" where
  "tcp_endpoint topic =
     (case topic of
        (protocol, host # port # others) \<Rightarrow> Inr (protocol, host # port # others, TcpSocket host port)
      | _ \<Rightarrow> Inl IndexError)"

definition negotiate :: "topic_request \<Rightarrow> string \<Rightarrow> (pyval \<times> pyval list \<times> endpoint) result" where
  "negotiate peer local_address =
     bind_result (connection_params peer [''UDSROS'', ''TCPROS'']) (\<lambda>(protocol, params).
       if protocol = PStr ''UDSROS'' then
         (case params of
            [] \<Rightarrow> Inl IndexError
          | address # rest \<Rightarrow>
              if address = PStr local_address then
                (case rest of
                   [] \<Rightarrow> Inl IndexError
                 | path # _ \<Rightarrow> Inr (protocol, params, UnixSocket path))
              else bind_result (connection_params peer [''TCPROS'']) tcp_endpoint)
       else tcp_endpoint (protocol, params))"

text \<open>
  Once connected: the messages read from what the publisher sends, and the exception that ends the
  loop.
\<close>

function receive_messages :: "(bytes \<Rightarrow> 'm result) \<Rightarrow> bytes \<Rightarrow> 'm list \<times> py_error" where
  "receive_messages deser s =
     (case read_data s of
        (Inl e, _) \<Rightarrow> ([], e)
      | (Inr data, s') \<Rightarrow>
          (case deser data of
             Inl e \<Rightarrow> ([], e)
           | Inr m \<Rightarrow> let (ms, e) = receive_messages deser s' in (m # ms, e)))"
  by pat_completeness auto

lemma read_data_shorter: "read_data s = (Inr data, s') \<Longrightarrow> length s' < length s"
  by (auto simp: read_data_def read_size_def reading_as_def receive_exactly_def bind_outcome_def
      split: if_splits prod.splits sum.splits)

termination receive_messages
  by (relation "measure (length o snd)") (auto dest: read_data_shorter [OF sym] read_data_shorter)

declare receive_messages.simps [simp del]

text \<open>
  The whole conversation after the request header was sent: \<open>IncompleteRead\<close> ends the task in
  peace, every other exception leaves it.
\<close>

definition subscribe_task :: "(bytes \<Rightarrow> 'm result) \<Rightarrow> bytes \<Rightarrow> 'm list \<times> unit result" where
  "subscribe_task deser s =
     (let (ms, e) =
            (case read_header s of
               (Inl e, _) \<Rightarrow> ([], e)
             | (Inr h, s') \<Rightarrow>
                 if ''error'' \<in> dom (map_of h) then ([], RuntimeError) else receive_messages deser s')
      in (ms, if e = IncompleteRead then Inr () else Inl e))"

text \<open>\<open>for stream in self.subscriptions: stream.send_nowait(msg)\<close>\<close>

definition send_nowait :: "'m \<Rightarrow> nat \<Rightarrow> 'm manager \<Rightarrow> (unit, 'm manager) outcome" where
  "send_nowait msg i m =
     (case map_of (sub_streams m) i of
        None \<Rightarrow> (Inr (), m)
      | Some s \<Rightarrow>
          if stream_receiving s then
            (Inr (), m\<lparr>sub_streams :=
               AList.update i (s\<lparr>stream_queue := stream_queue s @ [msg]\<rparr>) (sub_streams m)\<rparr>)
          else (Inl BrokenResourceError, m))"

definition deliver_message :: "'m \<Rightarrow> 'm manager \<Rightarrow> (unit, 'm manager) outcome" where
  "deliver_message msg m = for_each (send_nowait msg) (map fst (sub_streams m)) m"

text \<open>\<open>Subscription.__anext__\<close>: the next queued message, if there is one.\<close>

definition next_message :: "nat \<Rightarrow> 'm manager \<Rightarrow> ('m \<times> 'm manager) option" where
  "next_message i m =
     (case map_of (sub_streams m) i of
        Some s \<Rightarrow>
          (case stream_queue s of
             [] \<Rightarrow> None
           | msg # rest \<Rightarrow>
               Some (msg, m\<lparr>sub_streams := AList.update i (s\<lparr>stream_queue := rest\<rparr>) (sub_streams m)\<rparr>))
      | None \<Rightarrow> None)"

section \<open>What updates keep\<close>

text \<open>
  The dict names peers that are not cancelled, under their own address, and numbers are given once.
\<close>

definition manager_ok :: "'m manager \<Rightarrow> bool" where
  "manager_ok m \<longleftrightarrow>
     distinct (map fst (sub_publishers m)) \<and>
     (\<forall>i. sub_peers m i \<noteq> None \<longrightarrow> i < sub_next_id m) \<and>
     (\<forall>uri i. map_of (sub_publishers m) uri = Some i \<longrightarrow>
        (\<exists>p. sub_peers m i = Some p \<and> peer_uri p = uri \<and> \<not> peer_cancelled p))"

definition peer_of :: "'m manager \<Rightarrow> string \<Rightarrow> nat option" where
  "peer_of m uri = map_of (sub_publishers m) uri"

definition cancelled :: "'m manager \<Rightarrow> nat \<Rightarrow> bool" where
  "cancelled m i \<longleftrightarrow> (case sub_peers m i of None \<Rightarrow> False | Some p \<Rightarrow> peer_cancelled p)"

lemma manager_okI:
  assumes "distinct (map fst (sub_publishers m))" "\<And>i. sub_peers m i \<noteq> None \<Longrightarrow> i < sub_next_id m"
    and "\<And>uri i. peer_of m uri = Some i \<Longrightarrow> \<exists>p. sub_peers m i = Some p \<and> peer_uri p = uri \<and> \<not> peer_cancelled p"
  shows "manager_ok m"
  using assms by (auto simp: manager_ok_def peer_of_def)

lemma manager_okD:
  assumes "manager_ok m"
  shows "distinct (map fst (sub_publishers m))" "sub_peers m i \<noteq> None \<Longrightarrow> i < sub_next_id m"
    and "peer_of m uri = Some i \<Longrightarrow> \<exists>p. sub_peers m i = Some p \<and> peer_uri p = uri \<and> \<not> peer_cancelled p"
  using assms by (auto simp: manager_ok_def peer_of_def)

lemma peer_of_known: "peer_of m uri \<noteq> None \<longleftrightarrow> uri \<in> set (map fst (sub_publishers m))"
  by (simp add: peer_of_def map_of_eq_None_iff)

lemma peer_of_inj:
  assumes "manager_ok m" "peer_of m uri = Some i" "peer_of m uri' = Some i"
  shows "uri' = uri"
  using manager_okD(3) [OF assms(1,2)] manager_okD(3) [OF assms(1,3)] by auto

lemma drop_peer_props:
  assumes "manager_ok m"
  shows "manager_ok (drop_peer uri m)"
    and "peer_of (drop_peer uri m) = (peer_of m)(uri := None)"
    and "peer_of m uri = Some i \<Longrightarrow> cancelled (drop_peer uri m) i"
    and "cancelled m j \<Longrightarrow> cancelled (drop_peer uri m) j"
    and "peer_of m uri \<noteq> Some j \<Longrightarrow> sub_peers (drop_peer uri m) j = sub_peers m j"
    and "sub_next_id (drop_peer uri m) = sub_next_id m"
    and "sub_streams (drop_peer uri m) = sub_streams m"
proof -
  show p: "peer_of (drop_peer uri m) = (peer_of m)(uri := None)"
    by (auto simp: peer_of_def drop_peer_def map_peer_def split: option.split)
  show o: "sub_peers (drop_peer uri m) j = sub_peers m j" if "peer_of m uri \<noteq> Some j" for j
    using that by (auto simp: peer_of_def drop_peer_def map_peer_def split: option.splits)
  show n: "sub_next_id (drop_peer uri m) = sub_next_id m"
    by (simp add: drop_peer_def map_peer_def split: option.split)
  show "sub_streams (drop_peer uri m) = sub_streams m"
    by (simp add: drop_peer_def map_peer_def split: option.split)
  show "cancelled (drop_peer uri m) i" if "peer_of m uri = Some i" for i
    using that manager_okD(3) [OF assms that] by (auto simp: peer_of_def drop_peer_def map_peer_def cancelled_def)
  show "cancelled m j \<Longrightarrow> cancelled (drop_peer uri m) j" for j
    by (auto simp: drop_peer_def map_peer_def cancelled_def split: option.splits)
  show "manager_ok (drop_peer uri m)"
  proof (rule manager_okI)
    show "distinct (map fst (sub_publishers (drop_peer uri m)))"
      using manager_okD(1) [OF assms] by (simp add: drop_peer_def map_peer_def split: option.split)
    show "sub_peers (drop_peer uri m) i \<noteq> None \<Longrightarrow> i < sub_next_id (drop_peer uri m)" for i
      using manager_okD(2) [OF assms, of i] by (auto simp: n drop_peer_def map_peer_def split: option.splits if_splits)
    fix uri' i assume a: "peer_of (drop_peer uri m) uri' = Some i"
    then have "peer_of m uri' = Some i" "uri' \<noteq> uri" by (auto simp: p split: if_splits)
    then have "peer_of m uri \<noteq> Some i" using peer_of_inj [OF assms] by blast
    with o [of i] manager_okD(3) [OF assms \<open>peer_of m uri' = Some i\<close>]
    show "\<exists>pa. sub_peers (drop_peer uri m) i = Some pa \<and> peer_uri pa = uri' \<and> \<not> peer_cancelled pa" by auto
  qed
qed

lemma connect_peer_props:
  assumes "manager_ok m"
  shows "manager_ok (connect_peer uri m)"
    and "peer_of (connect_peer uri m) = (peer_of m)(uri \<mapsto> sub_next_id m)"
    and "i < sub_next_id m \<Longrightarrow> sub_peers (connect_peer uri m) i = sub_peers m i"
    and "sub_next_id (connect_peer uri m) = Suc (sub_next_id m)"
    and "sub_streams (connect_peer uri m) = sub_streams m"
proof -
  show p: "peer_of (connect_peer uri m) = (peer_of m)(uri \<mapsto> sub_next_id m)"
    by (auto simp: peer_of_def connect_peer_def)
  show "i < sub_next_id m \<Longrightarrow> sub_peers (connect_peer uri m) i = sub_peers m i"
    by (simp add: connect_peer_def)
  show "sub_next_id (connect_peer uri m) = Suc (sub_next_id m)"
    "sub_streams (connect_peer uri m) = sub_streams m" by (simp_all add: connect_peer_def)
  show "manager_ok (connect_peer uri m)"
  proof (rule manager_okI)
    show "distinct (map fst (sub_publishers (connect_peer uri m)))"
      using manager_okD(1) [OF assms] by (simp add: connect_peer_def)
    show "sub_peers (connect_peer uri m) i \<noteq> None \<Longrightarrow> i < sub_next_id (connect_peer uri m)" for i
      using manager_okD(2) [OF assms, of i] by (auto simp: connect_peer_def split: if_splits)
    fix uri' i assume a: "peer_of (connect_peer uri m) uri' = Some i"
    show "\<exists>p. sub_peers (connect_peer uri m) i = Some p \<and> peer_uri p = uri' \<and> \<not> peer_cancelled p"
    proof (cases "uri' = uri")
      case True
      with a show ?thesis by (simp add: p) (simp add: connect_peer_def new_peer_def)
    next
      case False
      with a have "peer_of m uri' = Some i" by (simp add: p)
      with manager_okD(3) [OF assms this] manager_okD(2) [OF assms, of i] show ?thesis
        by (auto simp: connect_peer_def)
    qed
  qed
qed

lemma update_publishers_registered [simp]:
  "sub_registered (update_publishers uris m) = sub_registered m"
proof -
  have "sub_registered (fold drop_peer xs k) = sub_registered k" for xs and k :: "'a manager"
    by (induction xs arbitrary: k) (auto simp: drop_peer_def map_peer_def split: option.split)
  moreover have "sub_registered (fold connect_peer ys k) = sub_registered k" for ys and k :: "'a manager"
    by (induction ys arbitrary: k) (simp_all add: connect_peer_def)
  ultimately show ?thesis by (simp add: update_publishers_def Let_def)
qed

lemma drop_peers:
  "manager_ok m \<Longrightarrow>
     manager_ok (fold drop_peer uris m) \<and>
     peer_of (fold drop_peer uris m) = (\<lambda>uri. if uri \<in> set uris then None else peer_of m uri) \<and>
     (\<forall>i. cancelled m i \<longrightarrow> cancelled (fold drop_peer uris m) i) \<and>
     (\<forall>uri\<in>set uris. \<forall>i. peer_of m uri = Some i \<longrightarrow> cancelled (fold drop_peer uris m) i) \<and>
     (\<forall>uri i. uri \<notin> set uris \<and> peer_of m uri = Some i \<longrightarrow> sub_peers (fold drop_peer uris m) i = sub_peers m i) \<and>
     sub_next_id (fold drop_peer uris m) = sub_next_id m \<and>
     sub_streams (fold drop_peer uris m) = sub_streams m"
proof (induction uris arbitrary: m)
  case (Cons uri uris)
  note d = drop_peer_props [OF Cons.prems]
  note IH = Cons.IH [OF d(1) [of uri]]
  have "sub_peers (fold drop_peer (uri # uris) m) i = sub_peers m i"
    if "uri' \<notin> set (uri # uris)" "peer_of m uri' = Some i" for uri' i
  proof -
    have "peer_of m uri \<noteq> Some i" using peer_of_inj [OF Cons.prems that(2)] that(1) by auto
    moreover have "sub_peers (fold drop_peer uris (drop_peer uri m)) i = sub_peers (drop_peer uri m) i"
      using IH that d(2) [of uri] by fastforce
    ultimately show ?thesis using d(5) [of uri i] by simp
  qed
  moreover have "cancelled (fold drop_peer (uri # uris) m) i"
    if "uri' \<in> set (uri # uris)" "peer_of m uri' = Some i" for uri' i
    using that IH d(2) [of uri] d(3) [of uri i] by (cases "uri' = uri") auto
  ultimately show ?case using IH d(2,4,6,7) [where uri = uri] by (auto simp: fun_eq_iff)
qed simp

lemma connect_peers:
  "manager_ok m \<Longrightarrow> distinct uris \<Longrightarrow>
     manager_ok (fold connect_peer uris m) \<and>
     (\<forall>uri. uri \<notin> set uris \<longrightarrow> peer_of (fold connect_peer uris m) uri = peer_of m uri) \<and>
     (\<forall>uri\<in>set uris. \<exists>i\<ge>sub_next_id m. peer_of (fold connect_peer uris m) uri = Some i) \<and>
     (\<forall>i. i < sub_next_id m \<longrightarrow> sub_peers (fold connect_peer uris m) i = sub_peers m i) \<and>
     sub_next_id (fold connect_peer uris m) = sub_next_id m + length uris \<and>
     sub_streams (fold connect_peer uris m) = sub_streams m"
proof (induction uris arbitrary: m)
  case (Cons uri uris)
  note c = connect_peer_props [OF Cons.prems(1), where uri = uri]
  note IH = Cons.IH [OF c(1)]
  have "\<exists>i\<ge>sub_next_id m. peer_of (fold connect_peer (uri # uris) m) uri' = Some i"
    if "uri' \<in> set (uri # uris)" for uri'
  proof (cases "uri' \<in> set uris")
    case True
    with IH Cons.prems(2) c(4) show ?thesis by (fastforce dest: Suc_leD)
  next
    case False
    with that IH Cons.prems(2) c(2) show ?thesis by auto
  qed
  with IH Cons.prems(2) c show ?case by auto
qed simp

lemma update_publishers_props:
  fixes m :: "'m manager" and uris :: "string list"
  assumes "manager_ok m"
  defines "m' \<equiv> update_publishers uris m"
  shows "manager_ok m'" and "peer_of m' uri \<noteq> None \<longleftrightarrow> uri \<in> set uris"
    and "uri \<in> set uris \<Longrightarrow> peer_of m uri = Some i \<Longrightarrow> peer_of m' uri = Some i \<and> sub_peers m' i = sub_peers m i"
    and "uri \<in> set uris \<Longrightarrow> peer_of m uri = None \<Longrightarrow> \<exists>i\<ge>sub_next_id m. peer_of m' uri = Some i"
    and "uri \<notin> set uris \<Longrightarrow> peer_of m uri = Some i \<Longrightarrow> cancelled m' i"
    and "sub_streams m' = sub_streams m"
proof -
  define gone where "gone = filter (\<lambda>uri. uri \<notin> set uris) (map fst (sub_publishers m))"
  define fresh where "fresh = filter (\<lambda>uri. uri \<notin> set (map fst (sub_publishers m))) (remdups uris)"
  define m1 where "m1 = fold drop_peer gone m"
  have m': "m' = fold connect_peer fresh m1"
    by (simp add: m'_def update_publishers_def gone_def fresh_def m1_def Let_def)
  have gone: "uri \<in> set gone \<longleftrightarrow> uri \<notin> set uris \<and> peer_of m uri \<noteq> None" for uri
    unfolding gone_def peer_of_known by auto
  have fresh: "uri \<in> set fresh \<longleftrightarrow> uri \<in> set uris \<and> peer_of m uri = None" for uri
    unfolding fresh_def using peer_of_known [of m uri] by auto
  have m1: "manager_ok m1" "sub_next_id m1 = sub_next_id m" "sub_streams m1 = sub_streams m"
    "\<And>uri. peer_of m1 uri = (if uri \<in> set gone then None else peer_of m uri)"
    "\<And>uri i. uri \<in> set gone \<Longrightarrow> peer_of m uri = Some i \<Longrightarrow> cancelled m1 i"
    "\<And>uri i. uri \<notin> set gone \<Longrightarrow> peer_of m uri = Some i \<Longrightarrow> sub_peers m1 i = sub_peers m i"
    using drop_peers [OF assms(1), of gone] unfolding m1_def by auto
  have "distinct fresh" by (simp add: fresh_def)
  note c = connect_peers [OF m1(1) this, folded m']
  show "manager_ok m'" using c by blast
  show "sub_streams m' = sub_streams m" using c m1(3) by simp
  show "peer_of m' uri \<noteq> None \<longleftrightarrow> uri \<in> set uris"
  proof (cases "uri \<in> set fresh")
    case True
    with c fresh [of uri] show ?thesis by fastforce
  next
    case False
    with c m1(4) [of uri] gone [of uri] fresh [of uri] show ?thesis by auto
  qed
  have known: "i < sub_next_id m" if "peer_of m uri = Some i" for uri i
    using manager_okD(2,3) [OF assms(1)] that by fastforce
  show "peer_of m' uri = Some i \<and> sub_peers m' i = sub_peers m i"
    if "uri \<in> set uris" "peer_of m uri = Some i"
    using that c m1(2,4,6) known [OF that(2)] gone [of uri] fresh [of uri] by auto
  show "\<exists>i\<ge>sub_next_id m. peer_of m' uri = Some i" if "uri \<in> set uris" "peer_of m uri = None"
    using that c m1(2) fresh [of uri] by auto
  show "cancelled m' i" if "uri \<notin> set uris" "peer_of m uri = Some i"
    using that c m1(2,5) gone [of uri] known [OF that(2)] by (auto simp: cancelled_def)
qed

lemma update_publishers_exact_set:
  assumes "manager_ok m"
  shows "manager_ok (update_publishers uris m)"
    and "fst ` set (sub_publishers (update_publishers uris m)) = set uris"
proof -
  note u = update_publishers_props [OF assms, where uris = uris]
  show "manager_ok (update_publishers uris m)" by (rule u(1))
  have "uri \<in> fst ` set (sub_publishers (update_publishers uris m)) \<longleftrightarrow> uri \<in> set uris" for uri
    using u(2) [of uri] peer_of_known [of "update_publishers uris m" uri] by simp
  then show "fst ` set (sub_publishers (update_publishers uris m)) = set uris" by blast
qed

end
