(* ===== verification/Subscriber_Properties.thy ===== *)
theory Subscriber_Properties
  imports Topic_Subscriber
begin

text \<open>
  What a subscription promises: the connections follow the publishers it is told, registration
  connects to those the master knows, messages arrive whole and in order; and two races.
\<close>

section \<open>Following the publishers\<close>

text \<open>C18: After \<open>update_publishers\<close> there is exactly one peer per given address: peers that were
  known already are untouched, the others are new objects, the peers of addresses no longer given are
  cancelled, and the invariant of the manager (peers under their own address, none cancelled) holds.\<close>

theorem update_publishers_exact:
  assumes "manager_ok m"
  shows "manager_ok (update_publishers uris m) \<and>
    fst ` set (sub_publishers (update_publishers uris m)) = set uris \<and>
    (\<forall>uri i. peer_of m uri = Some i \<and> uri \<in> set uris \<longrightarrow>
       peer_of (update_publishers uris m) uri = Some i \<and>
       sub_peers (update_publishers uris m) i = sub_peers m i) \<and>
    (\<forall>uri i. peer_of m uri = Some i \<and> uri \<notin> set uris \<longrightarrow> cancelled (update_publishers uris m) i) \<and>
    (\<forall>uri\<in>set uris. peer_of m uri = None \<longrightarrow>
       (\<exists>i\<ge>sub_next_id m. peer_of (update_publishers uris m) uri = Some i))"
  using update_publishers_exact_set [OF assms] update_publishers_props(3,4,5) [OF assms, where uris = uris]
  by blast

lemma new_manager_ok: "manager_ok (new_manager topic ty node)"
  by (simp add: manager_ok_def new_manager_def)

theorem update_publishers_exact_witness:
  "fst ` set (sub_publishers (update_publishers [''http://u''] (new_manager ''/chat'' demo_type ''/n'' :: bytes manager))) =
     {''http://u''}"
  using update_publishers_exact [OF new_manager_ok [of "''/chat''" demo_type "''/n''"], of "[''http://u'']",
      THEN conjunct2, THEN conjunct1]
  by simp

lemma as_strings_strings: "as_strings (map PStr ss) = Inr ss"
  by (induction ss) simp_all

lemma answered_uris_strings: "answered_uris (strings ss) = Inr ss"
  by (simp add: answered_uris_def strings_def as_strings_strings)

text \<open>Entering the first subscription of a topic registers the node at the master and connects
  to exactly the publishers the master knows then; the stream is added.\<close>

theorem register_connects:
  assumes "manager_ok m" and "\<not> sub_registered m"
    and "sub_register n stream (m, w) = (res, (m', w'))"
  shows "res = Inr () \<and> sub_registered m' \<and> manager_ok m' \<and>
    own_registration n \<in> set (subscribers_of (the_master w') (sub_topic m)) \<and>
    fst ` set (sub_publishers m') = reg_api ` set (publishers_of (the_master w') (sub_topic m)) \<and>
    map_of (sub_streams m') stream = Some new_stream"
proof -
  from register_subscriber_answer [of n "sub_topic m" "type_name (sub_type m)" w] obtain ms where
    a: "master_register_subscriber n (sub_topic m) (type_name (sub_type m)) w =
        (Inr (strings (map reg_api (publishers_of ms (sub_topic m)))), w\<lparr>the_master := ms\<rparr>)"
    and own: "own_registration n \<in> set (subscribers_of ms (sub_topic m))" by blast
  define uris where "uris = map reg_api (publishers_of ms (sub_topic m))"
  define m1 where "m1 = update_publishers uris (m\<lparr>sub_registered := True\<rparr>)"
  have ok: "manager_ok (m\<lparr>sub_registered := True\<rparr>)" using assms(1) by (simp add: manager_ok_def)
  have "sub_registered m1" by (simp add: m1_def)
  moreover have "res = Inr ()" "w' = w\<lparr>the_master := ms\<rparr>"
    "m' = m1\<lparr>sub_streams := AList.update stream new_stream (sub_streams m1)\<rparr>"
    using assms(2,3) a by (auto simp: sub_register_def answered_uris_strings m1_def uris_def)
  moreover have "manager_ok m1" "fst ` set (sub_publishers m1) = set uris"
    using update_publishers_exact_set [OF ok, of uris] by (simp_all add: m1_def)
  ultimately show ?thesis using own by (simp add: manager_ok_def uris_def)
qed

theorem register_connects_witness:
  "\<exists>m' w'. sub_register demo_node 0 (new_manager ''/c'' demo_type ''/s'' :: bytes manager, demo_world []) = (Inr (), (m', w')) \<and>
     fst ` set (sub_publishers m') = reg_api ` set (publishers_of (the_master w') ''/c'')"
proof -
  obtain res m' w' where
    r: "sub_register demo_node 0 (new_manager ''/c'' demo_type ''/s'' :: bytes manager, demo_world []) = (res, (m', w'))"
    by (metis prod.exhaust)
  have "\<not> sub_registered (new_manager ''/c'' demo_type ''/s'' :: bytes manager)"
    "sub_topic (new_manager ''/c'' demo_type ''/s'' :: bytes manager) = ''/c''" by (simp_all add: new_manager_def)
  with register_connects [OF new_manager_ok _ r] r show ?thesis by auto
qed

section \<open>Messages\<close>

lemma reads_receive_messages:
  "reads (read_message deser) s ms r \<Longrightarrow> cut_short (read_message deser) r \<Longrightarrow>
     receive_messages deser s = (ms, IncompleteRead)"
proof (induction rule: reads.induct)
  case (reads_nothing s)
  then show ?case
    by (subst receive_messages.simps)
      (auto simp: cut_short_def read_message_def reading_as_def bind_outcome_def split: prod.splits sum.splits)
next
  case (reads_next s m t ms r)
  then obtain data where "read_data s = (Inr data, t)" "deser data = Inr m"
    by (auto simp: read_message_def reading_as_def bind_outcome_def split: prod.splits sum.splits)
  with reads_next show ?case by (subst receive_messages.simps) simp
qed

text \<open>A task that is sent a header without \<open>error\<close> and then messages, all or a part of it.\<close>

lemma subscribe_task_stream:
  assumes "message_class ser deser valid" and "\<forall>m\<in>set msgs. valid m"
    and "encode_all (\<lambda>m. fst (serialize ser m new_buffer)) msgs = Inr data"
    and "header_ok h" and "encode_header h = Inr reply" and "''error'' \<notin> dom (map_of h)"
    and "prefix received (reply @ data)"
  shows "\<exists>k. subscribe_task deser received = (take k msgs, Inr ()) \<and>
    (received = reply @ data \<longrightarrow> k = length msgs)"
proof (cases "strict_prefix received reply")
  case True
  from head.read_part [OF assms(4,5) this]
  have "subscribe_task deser received = (take 0 msgs, Inr ())"
    by (cases "read_header received") (simp add: subscribe_task_def cut_short_def)
  moreover have "received \<noteq> reply @ data" using True by (auto dest: prefix_length_less)
  ultimately show ?thesis by blast
next
  case False
  with assms(7) obtain rest where rest: "received = reply @ rest" "prefix rest data"
    by (metis prefix_append prefix_order.le_less same_prefix_prefix self_append_conv Nil_prefix)
  from message_class.messages_cut [OF assms(1,2,3) rest(2)] obtain k r
    where k: "reads (read_message deser) rest (take k msgs) r" "cut_short (read_message deser) r"
      "rest = data \<longrightarrow> k = length msgs" by blast
  have "''error'' \<notin> dom (map_of (sort_key fst h))"
    using assms(6) unfolding dom_map_of_conv_image_fst by simp
  then have "subscribe_task deser received = (take k msgs, Inr ())"
    using head.read_enc [OF assms(4,5), of rest] reads_receive_messages [OF k(1,2)]
    by (simp add: subscribe_task_def rest(1))
  with k(3) rest(1) show ?thesis by auto
qed

lemma pub_header_no_error: "''error'' \<notin> dom (map_of (pub_header p))"
  by (simp add: pub_header_def)

text \<open>From a publisher to a subscriber. Whatever part of what the publisher sends (its header and
  the serialised messages, one after another) arrives before the connection ends, the subscriber's task
  yields a prefix of the messages, all of them when everything arrives, and ends without an exception.\<close>

theorem topic_pipeline:
  assumes "message_class ser deser valid" and "\<forall>m\<in>set msgs. valid m"
    and "encode_all (\<lambda>m. fst (serialize ser m new_buffer)) msgs = Inr data"
    and "header_ok (pub_header p)" and "encode_header (pub_header p) = Inr reply"
    and "prefix received (reply @ data)"
  shows "\<exists>k. subscribe_task deser received = (take k msgs, Inr ()) \<and>
    (received = reply @ data \<longrightarrow> k = length msgs)"
  by (rule subscribe_task_stream [OF assms(1-5) pub_header_no_error assms(6)])

lemma demo_pub_header_ok: "header_ok (pub_header demo_publication)"
proof -
  have "text_ok ''/s'' \<and> text_ok ''1'' \<and> text_ok ''992c'' \<and> text_ok ''string data'' \<and> text_ok ''/chat'' \<and>
      text_ok ''std_msgs/String''"
    by (intro conjI; rule text_ok_ascii; auto)
  moreover have "text_ok ''callerid'' \<and> text_ok ''latching'' \<and> text_ok ''md5sum'' \<and>
      text_ok ''message_definition'' \<and> text_ok ''topic'' \<and> text_ok ''type''"
    by (intro conjI; rule text_ok_ascii; auto)
  ultimately show ?thesis
    by (simp add: header_ok_def pub_header_def demo_publication_def new_publication_def demo_type_def field_ok_def
        strip_graphic graphic_def)
qed

lemma demo_frame:
  "encode_all (\<lambda>m. fst (serialize raw_serialize m new_buffer)) [Some [7]] = Inr [1, 0, 0, 0, 7]"
  by (simp add: serialize_def raw_serialize_def raw_def new_buffer_def buf_seek_def buf_write_def pack_I_def le32_def)

theorem topic_pipeline_witness:
  "\<exists>reply. encode_header (pub_header demo_publication) = Inr reply \<and>
     subscribe_task (\<lambda>bs. Inr (raw_deserialize bs)) (reply @ [1, 0, 0, 0, 7]) = ([Some [7]], Inr ())"
proof -
  obtain reply where reply: "encode_header (pub_header demo_publication) = Inr reply"
    using demo_accept by (auto simp: accept_def bind_result_eq_Inr split: sum.splits prod.splits)
  from topic_pipeline [OF raw_class.message_class_axioms _ demo_frame demo_pub_header_ok reply prefix_order.order_refl]
  show ?thesis using reply by auto
qed

section \<open>Two races\<close>

definition comes_back :: "string \<Rightarrow> 'm manager \<Rightarrow> 'm manager" where
  "comes_back uri m = update_publishers [uri] (update_publishers [] (update_publishers [uri] m))"

definition serves :: "'m manager \<Rightarrow> nat \<Rightarrow> string \<Rightarrow> bool" where
  "serves m i uri \<longleftrightarrow>
     (case sub_peers m i of None \<Rightarrow> False | Some p \<Rightarrow> peer_uri p = uri \<and> \<not> peer_cancelled p)"

text \<open>When a publisher leaves and comes back before its cancelled task has ended, the end of the old
  task removes the new peer from the dict; the next update then starts a second task for the same
  address beside the one that is still running.\<close>

theorem reconnect_race:
  "let back = comes_back uri (new_manager topic ty node :: 'm manager);
       m = update_publishers [uri] (task_ends 0 back)
   in peer_of back uri = Some 1 \<and> peer_of (task_ends 0 back) uri = None \<and>
      peer_of m uri = Some 2 \<and> serves m 1 uri \<and> serves m 2 uri"
  by (simp add: comes_back_def serves_def update_publishers_def Let_def connect_peer_def drop_peer_def
      map_peer_def task_ends_def new_manager_def peer_of_def new_peer_def)

text \<open>A message that arrives after \<open>Subscription.aclose\<close> has closed the receiving end of its
  stream, and before it has unregistered the stream, makes \<open>send_nowait\<close> raise
  \<open>BrokenResourceError\<close> in the task of the publisher, which only handles \<open>IncompleteRead\<close>.\<close>

theorem closing_subscription_race:
  assumes "map_of (sub_streams m) i = Some s"
  shows "fst (deliver_message msg (close_receiving i m)) = Inl BrokenResourceError"
proof -
  let ?broken = "\<lambda>k. \<exists>s. map_of (sub_streams k) i = Some s \<and> \<not> stream_receiving s"
  have "fst (for_each (send_nowait msg) ids k) = Inl BrokenResourceError"
    if "i \<in> set ids" "?broken k" for ids and k :: "'a manager"
    using that
  proof (induction ids arbitrary: k)
    case (Cons j ids)
    show ?case
    proof (cases "j = i \<or> fst (send_nowait msg j k) \<noteq> Inr ()")
      case True
      with Cons.prems(2) show ?thesis
        by (auto simp: send_nowait_def split: option.splits if_splits)
    next
      case False
      obtain k' where k': "send_nowait msg j k = (Inr (), k')"
        using False by (cases "send_nowait msg j k") auto
      with False Cons.prems(2) have "?broken k'"
        by (auto simp: send_nowait_def split: option.splits if_splits)
      with Cons.IH [of k'] Cons.prems(1) False k' show ?thesis by simp
    qed
  qed simp
  moreover have "map_of (map (\<lambda>(j, s). (j, if j = i then s\<lparr>stream_receiving := False\<rparr> else s)) xs) i =
      map_option (\<lambda>s. s\<lparr>stream_receiving := False\<rparr>) (map_of xs i)" for xs :: "(nat \<times> 'a stream) list"
    by (induction xs) auto
  then have "?broken (close_receiving i m)" using assms by (simp add: close_receiving_def)
  moreover from this have "i \<in> set (map fst (sub_streams (close_receiving i m)))"
    by (auto dest: map_of_SomeD intro: rev_image_eqI)
  ultimately show ?thesis unfolding deliver_message_def by blast
qed

theorem closing_subscription_race_witness:
  "fst (deliver_message [7] (close_receiving 0
     ((new_manager ''/chat'' demo_type ''/n'' :: bytes manager)\<lparr>sub_streams := [(0, new_stream)]\<rparr>))) =
     Inl BrokenResourceError"
  by (rule closing_subscription_race [of _ _ new_stream]) simp

end
