(* ===== verification/Services.thy ===== *)
theory Services
  imports Master_Client Tcpros_Messages
begin

text \<open>
  Services between nodes: \<open>ServiceServer\<close> of
  \<open>aioros/_node/_tcpros/_service_server.py\<close> and the clients of
  \<open>_service_client.py\<close>. A connection is the bytes each side sends; the request and response
  classes are generated code, so their (de)serialisation is a parameter, as is the user's handler,
  which gets the connection header with the request. Cancellation of the handler is not modelled.
\<close>

section \<open>The server\<close>

record service_type =
  srv_type_name :: string
  srv_md5sum :: string

record service_server =
  srv_name :: string
  srv_type :: service_type
  srv_node :: string

definition server_header :: "service_server \<Rightarrow> header" where
  "server_header s =
     [(''callerid'', srv_node s), (''md5sum'', srv_md5sum (srv_type s)), (''service'', srv_name s),
      (''type'', srv_type_name (srv_type s))]"

text \<open>\<open>serve\<close>: registration, then, when it is cancelled, the end of it.\<close>

definition serve_start :: "ros_node \<Rightarrow> service_server \<Rightarrow> pyval node_call" where
  "serve_start n s = master_register_service n (srv_name s)"

definition serve_cancelled :: "ros_node \<Rightarrow> service_server \<Rightarrow> pyval node_call" where
  "serve_cancelled n s = master_unregister_service n (srv_name s)"

text \<open>\<open>str.lower\<close> on ASCII; no other letter becomes one of \<open>true\<close>.\<close>

definition lower :: "string \<Rightarrow> string" where
  "lower s = map (\<lambda>c. if CHR ''A'' \<le> c \<and> c \<le> CHR ''Z'' then char_of (of_char c + (32 :: nat)) else c) s"

definition header_get :: "header \<Rightarrow> string \<Rightarrow> string" where
  "header_get h key = (case map_of h key of None \<Rightarrow> [] | Some v \<Rightarrow> v)"

definition is_persistent :: "header \<Rightarrow> bool" where
  "is_persistent h \<longleftrightarrow> lower (header_get h ''persistent'') \<in> {''1'', ''true''}"

definition error_reply :: bytes where
  "error_reply = 0 # encode_str ''error processing request''"

text \<open>One round: a request is read and answered. The result is what is sent.\<close>

definition serve_one ::
    "(bytes \<Rightarrow> 'q result) \<Rightarrow> ('q \<Rightarrow> 'r message result) \<Rightarrow> 'r message serializing \<Rightarrow> serializer \<Rightarrow>
     (bytes \<times> serializer) reader" where
  "serve_one deser handler ser sz s =
     bind_outcome (read_data s) (\<lambda>data s'.
       case deser data of
         Inl e \<Rightarrow> (Inl e, s')
       | Inr request \<Rightarrow>
           (case handler request of
              Inl e \<Rightarrow> (Inr (error_reply, sz), s')
            | Inr response \<Rightarrow>
                (case serializer_serialize ser response sz of
                   (Inl e, _) \<Rightarrow> (Inl e, s')
                 | (Inr out, sz') \<Rightarrow> (Inr (1 # out, sz'), s'))))"

lemma read_data_consumes: "read_data s = (Inr data, s') \<Longrightarrow> length s' < length s"
  by (auto simp: read_data_def read_size_def reading_as_def receive_exactly_def bind_outcome_def
      split: if_splits prod.splits sum.splits)

lemma serve_one_consumes: "serve_one deser handler ser sz s = (Inr x, s') \<Longrightarrow> length s' < length s"
  by (auto simp: serve_one_def bind_outcome_def dest: read_data_consumes split: prod.splits sum.splits)

function server_loop ::
    "(bytes \<Rightarrow> 'q result) \<Rightarrow> ('q \<Rightarrow> 'r message result) \<Rightarrow> 'r message serializing \<Rightarrow> bool \<Rightarrow> serializer \<Rightarrow>
     bytes \<Rightarrow> bytes list \<times> unit result" where
  "server_loop deser handler ser persistent sz s =
     (case serve_one deser handler ser sz s of
        (Inl e, _) \<Rightarrow> ([], Inl e)
      | (Inr (out, sz'), s') \<Rightarrow>
          if persistent then
            let (outs, res) = server_loop deser handler ser persistent sz' s' in (out # outs, res)
          else ([out], Inr ()))"
  by pat_completeness auto

termination server_loop
  by (relation "measure (\<lambda>(d, h, r, p, sz, s). length s)") (auto dest: serve_one_consumes [OF sym] serve_one_consumes)

declare server_loop.simps [simp del]

definition handle_service ::
    "(bytes \<Rightarrow> 'q result) \<Rightarrow> (header \<Rightarrow> 'q \<Rightarrow> 'r message result) \<Rightarrow> 'r message serializing \<Rightarrow>
     service_server \<Rightarrow> header \<Rightarrow> bytes \<Rightarrow> bytes list \<times> unit result" where
  "handle_service deser handler ser server h s =
     (case bind_result (require_fields h [''service'', ''md5sum'', ''callerid'']) (\<lambda>_.
             bind_result (check_md5sum h (srv_md5sum (srv_type server))) (\<lambda>_.
               encode_header (server_header server))) of
        Inl e \<Rightarrow> ([], Inl e)
      | Inr reply \<Rightarrow>
          if map_of h ''probe'' = Some ''1'' then ([reply], Inr ())
          else
            let (outs, res) = server_loop deser (handler h) ser (is_persistent h) new_serializer s
            in (reply # outs, res))"

section \<open>The client\<close>

datatype client_error =
    Raised py_error
  | ServiceClientInitError string
  | ServiceClientError bytes

type_synonym 'a client_reader = "bytes \<Rightarrow> (client_error + 'a) \<times> bytes"

definition service_header :: "string \<Rightarrow> service_type \<Rightarrow> string \<Rightarrow> bool \<Rightarrow> header" where
  "service_header name ty node persistent =
     [(''callerid'', node), (''md5sum'', srv_md5sum ty), (''service'', name)] @
     (if persistent then [(''persistent'', ''1'')] else [])"

text \<open>\<open>_get_client_stream\<close>: where to connect to, and the check of the server's header.\<close>

definition service_address :: "ros_node \<Rightarrow> string \<Rightarrow> (string \<times> int) node_call" where
  "service_address n service w =
     bind_outcome (master_lookup_service n service w) (\<lambda>v w'.
       case v of PStr uri \<Rightarrow> (split_tcpros_uri uri, w') | _ \<Rightarrow> (Inl AttributeError, w'))"

definition check_reply :: "unit client_reader" where
  "check_reply s =
     (case read_header s of
        (Inl e, s') \<Rightarrow> (Inl (Raised e), s')
      | (Inr h, s') \<Rightarrow>
          (case map_of h ''error'' of
             Some msg \<Rightarrow> (Inl (ServiceClientInitError msg), s')
           | None \<Rightarrow> (Inr (), s')))"

text \<open>\<open>_call\<close>: what is sent, and how the answer is read.\<close>

definition read_response :: "(bytes \<Rightarrow> 'r result) \<Rightarrow> 'r client_reader" where
  "read_response deser s =
     (case read_byte s of
        (Inl e, s') \<Rightarrow> (Inl (Raised e), s')
      | (Inr ok, s') \<Rightarrow>
          if ok = 0 then
            (case read_error s' of
               (Inl e, s'') \<Rightarrow> (Inl (Raised e), s'')
             | (Inr error, s'') \<Rightarrow> (Inl (ServiceClientError error), s''))
          else
            (case read_message deser s' of
               (Inl e, s'') \<Rightarrow> (Inl (Raised e), s'')
             | (Inr m, s'') \<Rightarrow> (Inr m, s'')))"

text \<open>
  A client keeps its serializer from call to call; the persistent one also keeps its connection
  (here: the bytes that came in and were not read) until it is closed.
\<close>

record service_client =
  client_serializer :: serializer
  client_stream :: "bytes option"

definition new_client :: service_client where
  "new_client = \<lparr>client_serializer = new_serializer, client_stream = None\<rparr>"

text \<open>
  \<open>call\<close> of the persistent client. The server is a function from the bytes of the request to
  those it sends then; \<open>connect\<close> is the connection with what the server sends first.
\<close>

definition persistent_call ::
    "'q message serializing \<Rightarrow> (bytes \<Rightarrow> 'r result) \<Rightarrow> bytes result \<Rightarrow> (bytes \<Rightarrow> bytes) \<Rightarrow> 'q message \<Rightarrow>
     service_client \<Rightarrow> (client_error + 'r) \<times> service_client" where
  "persistent_call ser deser connect server request c =
     (let opened =
            (case client_stream c of
               Some s \<Rightarrow> Inr s
             | None \<Rightarrow>
                 (case connect of
                    Inl e \<Rightarrow> Inl (Raised e)
                  | Inr s \<Rightarrow> (case check_reply s of (Inl e, _) \<Rightarrow> Inl e | (Inr _, s') \<Rightarrow> Inr s')))
      in case opened of
           Inl e \<Rightarrow> (Inl e, c)
         | Inr s \<Rightarrow>
             let (sent, sz) = serializer_serialize ser request (client_serializer c) in
             (case sent of
                Inl e \<Rightarrow> (Inl (Raised e), c\<lparr>client_serializer := sz, client_stream := Some s\<rparr>)
              | Inr data \<Rightarrow>
                  let (res, s') = read_response deser (s @ server data)
                  in (res, c\<lparr>client_serializer := sz, client_stream := Some s'\<rparr>)))"

definition client_close :: "service_client \<Rightarrow> service_client" where
  "client_close c = c\<lparr>client_stream := None\<rparr>"

text \<open>\<open>call\<close> of the other client: a connection of its own for each call.\<close>

definition non_persistent_call ::
    "'q message serializing \<Rightarrow> (bytes \<Rightarrow> 'r result) \<Rightarrow> bytes result \<Rightarrow> (bytes \<Rightarrow> bytes) \<Rightarrow> 'q message \<Rightarrow>
     service_client \<Rightarrow> (client_error + 'r) \<times> service_client" where
  "non_persistent_call ser deser connect server request c =
     (let (res, c') = persistent_call ser deser connect server request (client_close c)
      in (res, client_close c'))"

section \<open>Requests and responses on the wire\<close>

definition fits :: "'m serializing \<Rightarrow> 'm \<Rightarrow> bool" where
  "fits ser m \<longleftrightarrow> (\<exists>bs. fst (serialize ser m new_buffer) = Inr bs)"

definition plain :: "'b message \<Rightarrow> bool" where
  "plain m \<longleftrightarrow> msg_header m = None"

definition clean :: "serializer \<Rightarrow> bool" where
  "clean s \<longleftrightarrow> buf_bytes (ser_buf s) = []"

lemma clean_new [simp]: "clean new_serializer"
  by (simp add: clean_def new_serializer_def)

lemma serializer_plain:
  "plain m \<Longrightarrow> fst (serializer_serialize ser m s) = fst (serialize ser m (ser_buf s))"
  by (simp add: serializer_serialize_def fill_header_def plain_def Let_def split: prod.splits sum.splits)

lemma serializer_fits:
  assumes "message_class ser deser valid" "valid m" "plain m" "clean s" "fits ser m"
  shows "\<exists>bs s'. serializer_serialize ser m s = (Inr bs, s') \<and> clean s' \<and>
    (\<forall>rest. read_message deser (bs @ rest) = (Inr m, rest))"
proof -
  obtain body where body: "writes ser m body"
    using message_class.writes_body [OF assms(1,2)] by blast
  have same: "fst (serialize ser m (ser_buf s)) = fst (serialize ser m new_buffer)"
    unfolding serialize_empty [OF body assms(4) [unfolded clean_def]]
      serialize_empty [OF body new_buffer_empty] ..
  from assms(5) obtain bs where bs: "fst (serialize ser m new_buffer) = Inr bs" by (auto simp: fits_def)
  have "fst (serializer_serialize ser m s) = Inr bs"
    unfolding serializer_plain [OF assms(3)] same by (rule bs)
  then obtain s' where s': "serializer_serialize ser m s = (Inr bs, s')"
    by (metis prod.collapse)
  moreover have "clean s'" using serializer_reset [OF s'] by (simp add: clean_def)
  ultimately show ?thesis
    using message_class.read_serialized [OF assms(1,2) new_buffer_empty bs] by blast
qed

lemma read_message_data:
  "read_message deser s = (Inr m, t) \<Longrightarrow> \<exists>data. read_data s = (Inr data, t) \<and> deser data = Inr m"
  by (auto simp: read_message_def reading_as_def bind_outcome_def split: prod.splits sum.splits)

text \<open>One round of the server on a request it can read, and the answer as the client reads it.\<close>

lemma serve_one_answers:
  assumes "\<forall>rest. read_message deser_q (bs @ rest) = (Inr q, rest)" "handler q = Inr r"
    and r: "message_class ser_r deser_r valid_r" "valid_r r" "plain r" "clean sz" "fits ser_r r"
  shows "\<exists>out sz'. serve_one deser_q handler ser_r sz (bs @ rest) = (Inr (out, sz'), rest) \<and> clean sz' \<and>
    (\<forall>more. read_response deser_r (out @ more) = (Inr r, more))"
proof -
  from read_message_data [OF assms(1) [rule_format, of rest]] obtain data where
    data: "read_data (bs @ rest) = (Inr data, rest)" "deser_q data = Inr q" by (elim exE conjE)
  from serializer_fits [OF r] obtain out sz' where
    out: "serializer_serialize ser_r r sz = (Inr out, sz')" "clean sz'"
      "\<forall>rest. read_message deser_r (out @ rest) = (Inr r, rest)" by blast
  have "read_byte (1 # out @ more) = (Inr 1, out @ more)" for more
    using byte.read_enc [of 1 "[1]" "out @ more"] by (simp add: encode_byte_def)
  with out data assms(2) show ?thesis
    by (intro exI [of _ "1 # out"] exI [of _ sz']) (simp add: serve_one_def read_response_def)
qed

fun serialize_all :: "'b message serializing \<Rightarrow> 'b message list \<Rightarrow> serializer \<Rightarrow> bytes result" where
  "serialize_all ser [] s = Inr []"
| "serialize_all ser (m # ms) s =
     (case serializer_serialize ser m s of
        (Inl e, _) \<Rightarrow> Inl e
      | (Inr bs, s') \<Rightarrow> bind_result (serialize_all ser ms s') (\<lambda>rest. Inr (bs @ rest)))"

text \<open>The requests and their answers fit the wire.\<close>

definition servable ::
    "('q message \<Rightarrow> bool) \<Rightarrow> 'q message serializing \<Rightarrow> ('r message \<Rightarrow> bool) \<Rightarrow> 'r message serializing \<Rightarrow>
     ('q message \<Rightarrow> 'r message result) \<Rightarrow> ('q message \<Rightarrow> 'r message) \<Rightarrow> 'q message \<Rightarrow> bool" where
  "servable valid_q ser_q valid_r ser_r handler f q \<longleftrightarrow>
     valid_q q \<and> plain q \<and> fits ser_q q \<and> handler q = Inr (f q) \<and> valid_r (f q) \<and> plain (f q) \<and> fits ser_r (f q)"

lemma server_loop_answers:
  assumes q: "message_class ser_q deser_q valid_q" and r: "message_class ser_r deser_r valid_r"
  shows "\<forall>q\<in>set qs. servable valid_q ser_q valid_r ser_r handler f q \<Longrightarrow> clean s \<Longrightarrow> clean sz \<Longrightarrow>
    serialize_all ser_q qs s = Inr bs \<Longrightarrow>
    \<exists>outs. server_loop deser_q handler ser_r True sz bs = (outs, Inl IncompleteRead) \<and>
      list_all2 (\<lambda>q out. \<forall>more. read_response deser_r (out @ more) = (Inr (f q), more)) qs outs"
proof (induction qs arbitrary: s sz bs)
  case Nil
  then show ?case
    by (subst server_loop.simps) (simp add: serve_one_def read_data_def)
next
  case (Cons x qs)
  from Cons.prems(1) have x: "valid_q x" "plain x" "fits ser_q x" "handler x = Inr (f x)"
    "valid_r (f x)" "plain (f x)" "fits ser_r (f x)" by (auto simp: servable_def)
  from serializer_fits [OF q x(1,2) Cons.prems(2) x(3)] obtain b s' where
    b: "serializer_serialize ser_q x s = (Inr b, s')" "clean s'"
      "\<forall>rest. read_message deser_q (b @ rest) = (Inr x, rest)" by blast
  with Cons.prems(4) obtain bs' where bs': "serialize_all ser_q qs s' = Inr bs'" "bs = b @ bs'"
    by (auto simp: bind_result_eq_Inr)
  from serve_one_answers [where handler = handler and q = x and r = "f x" and bs = b and rest = bs',
      OF b(3) x(4) r x(5,6) Cons.prems(3) x(7)] obtain out sz' where
    out: "serve_one deser_q handler ser_r sz (b @ bs') = (Inr (out, sz'), bs')" "clean sz'"
      "\<forall>more. read_response deser_r (out @ more) = (Inr (f x), more)" by blast
  from Cons.IH [OF _ b(2) out(2) bs'(1)] Cons.prems(1) obtain outs where
    outs: "server_loop deser_q handler ser_r True sz' bs' = (outs, Inl IncompleteRead)"
      "list_all2 (\<lambda>q out. \<forall>more. read_response deser_r (out @ more) = (Inr (f q), more)) qs outs" by auto
  have "server_loop deser_q handler ser_r True sz bs = (out # outs, Inl IncompleteRead)"
    unfolding bs'(2) by (subst server_loop.simps) (simp add: out(1) outs(1))
  with out(3) outs(2) show ?case by auto
qed

section \<open>Properties\<close>

text \<open>C11: Over a persistent connection every request of a series is answered in turn: the server sends
  one answer per request, the client reads from each exactly the response the handler gave, and the
  server's loop ends when the client closes the connection.\<close>

theorem service_session:
  assumes "message_class ser_q deser_q valid_q" and "message_class ser_r deser_r valid_r"
    and "\<forall>q\<in>set qs. servable valid_q ser_q valid_r ser_r handler f q"
    and "serialize_all ser_q qs new_serializer = Inr bs"
  shows "\<exists>outs. server_loop deser_q handler ser_r True new_serializer bs = (outs, Inl IncompleteRead) \<and>
    list_all2 (\<lambda>q out. \<forall>more. read_response deser_r (out @ more) = (Inr (f q), more)) qs outs"
  by (rule server_loop_answers [OF assms(1-3) clean_new clean_new assms(4)])

text \<open>A class of messages: the bytes of the body; and a service that reverses them.\<close>

definition bytes_ser :: "bytes message serializing" where
  "bytes_ser m b = (Inr (), buf_write (msg_body m) b)"

definition bytes_deser :: "bytes \<Rightarrow> bytes message result" where
  "bytes_deser bs = Inr \<lparr>msg_header = None, msg_body = bs\<rparr>"

definition bytes_message :: "bytes \<Rightarrow> bytes message" where
  "bytes_message bs = \<lparr>msg_header = None, msg_body = bs\<rparr>"

definition rev_message :: "bytes message \<Rightarrow> bytes message" where
  "rev_message m = m\<lparr>msg_body := rev (msg_body m)\<rparr>"

interpretation bytes_class: message_class bytes_ser bytes_deser "\<lambda>m. msg_header m = None"
proof unfold_locales
  fix m :: "bytes message" assume "msg_header m = None"
  then show "\<exists>body. writes bytes_ser m body \<and> bytes_deser body = Inr m"
    by (intro exI [of _ "msg_body m"]) (cases m, simp add: writes_def bytes_ser_def bytes_deser_def)
qed

lemma bytes_fits: "length (msg_body m) < 2 ^ 32 \<Longrightarrow> fits bytes_ser m"
  using serialize_empty [of bytes_ser m "msg_body m" new_buffer]
  by (simp add: fits_def writes_def bytes_ser_def encode_frame_def pack_I_def)

lemma bytes_servable:
  "length bs < 2 ^ 32 \<Longrightarrow> servable (\<lambda>m. msg_header m = None) bytes_ser (\<lambda>m. msg_header m = None) bytes_ser
     (\<lambda>q. Inr (rev_message q)) rev_message (bytes_message bs)"
  by (simp add: servable_def plain_def bytes_fits bytes_message_def rev_message_def)

theorem service_session_witness:
  "\<exists>bs outs. serialize_all bytes_ser [bytes_message [1, 2], bytes_message [3, 4]] new_serializer = Inr bs \<and>
     server_loop bytes_deser (\<lambda>q. Inr (rev_message q)) bytes_ser True new_serializer bs =
       (outs, Inl IncompleteRead) \<and>
     list_all2 (\<lambda>q out. \<forall>more. read_response bytes_deser (out @ more) = (Inr (rev_message q), more))
       [bytes_message [1, 2], bytes_message [3, 4]] outs"
proof -
  have s: "\<exists>bs. serialize_all bytes_ser [bytes_message [1, 2], bytes_message [3, 4]] new_serializer = Inr bs"
    using serializer_fits [OF bytes_class.message_class_axioms, of "bytes_message [1, 2]" new_serializer]
      serializer_fits [OF bytes_class.message_class_axioms, of "bytes_message [3, 4]"]
      bytes_servable [of "[1, 2]"] bytes_servable [of "[3, 4]"]
    by (fastforce simp: servable_def)
  then obtain bs where bs: "serialize_all bytes_ser [bytes_message [1, 2], bytes_message [3, 4]] new_serializer = Inr bs"
    by blast
  have "\<forall>q\<in>set [bytes_message [1, 2], bytes_message [3, 4]].
      servable (\<lambda>m. msg_header m = None) bytes_ser (\<lambda>m. msg_header m = None) bytes_ser
        (\<lambda>q. Inr (rev_message q)) rev_message q"
    by (simp add: bytes_servable)
  from service_session [OF bytes_class.message_class_axioms bytes_class.message_class_axioms this bs] bs
  show ?thesis by blast
qed

text \<open>C38: The client never learns why a request failed: the server sends the text of the error without
  its length, and the client takes the first bytes of the text for two lengths; unless more than 1.9
  thousand million bytes follow, it waits until the connection is closed and raises
  \<open>IncompleteRead\<close>.\<close>

theorem error_reply_unreadable:
  assumes "length rest < 1900000000"
  shows "fst (read_response deser (error_reply @ rest)) = Inl (Raised IncompleteRead)"
proof -
  have e: "error_reply @ rest = 0 # [0x65, 0x72, 0x72, 0x6F] @ [0x72, 0x20, 0x70, 0x72] @
      [0x6F, 0x63, 0x65, 0x73, 0x73, 0x69, 0x6E, 0x67, 0x20, 0x72, 0x65, 0x71, 0x75, 0x65, 0x73, 0x74] @ rest"
    by (simp add: error_reply_def encode_str_def encode_def)
  have sizes: "read_size ([0x65, 0x72, 0x72, 0x6F] @ s) = (Inr 1869771365, s)"
    "read_size ([0x72, 0x20, 0x70, 0x72] @ s) = (Inr 1919950962, s)" for s
    by (simp_all add: read_size_def reading_as_def receive_exactly_def unpack_I_def from_le32_def)
  have "read_error ([0x65, 0x72, 0x72, 0x6F] @ [0x72, 0x20, 0x70, 0x72] @
      [0x6F, 0x63, 0x65, 0x73, 0x73, 0x69, 0x6E, 0x67, 0x20, 0x72, 0x65, 0x71, 0x75, 0x65, 0x73, 0x74] @ rest) =
      (Inl IncompleteRead, [0x6F, 0x63, 0x65, 0x73, 0x73, 0x69, 0x6E, 0x67, 0x20, 0x72, 0x65, 0x71, 0x75, 0x65, 0x73, 0x74] @ rest)"
    unfolding read_error_def sizes(1)
    using assms by (simp only: bind_outcome_simps reading_as_def read_data_def sizes(2))
      (simp add: receive_exactly_def)
  moreover have "read_byte (0 # s) = (Inr 0, s)" for s
    using byte.read_enc [of 0 "[0]" s] by (simp add: encode_byte_def)
  ultimately show ?thesis unfolding e read_response_def by simp
qed

theorem error_reply_unreadable_witness:
  "fst (read_response bytes_deser (error_reply @ [1, 2, 3])) = Inl (Raised IncompleteRead)"
  by (rule error_reply_unreadable) simp

lemma lower_eq: "lower ''1'' = ''1''"
  by (simp add: lower_def)

lemma service_header_accepted:
  assumes "srv_md5sum (srv_type srv) = srv_md5sum ty"
    and "map_of h = map_of (service_header (srv_name srv) ty node persistent)"
    and "encode_header (server_header srv) = Inr reply"
  shows "handle_service deser handler ser srv h s =
    (let (outs, res) = server_loop deser (handler h) ser persistent new_serializer s in (reply # outs, res))"
proof -
  have "require_fields h [''service'', ''md5sum'', ''callerid''] = Inr ()"
    unfolding require_fields_eq_Inr by (auto simp: assms(2) service_header_def)
  moreover have "check_md5sum h (srv_md5sum (srv_type srv)) = Inr ()"
    by (simp add: check_md5sum_def hget_def assms(1,2) service_header_def)
  moreover have "map_of h ''probe'' \<noteq> Some ''1''" "is_persistent h = persistent"
    using lower_eq by (auto simp: assms(2) service_header_def is_persistent_def header_get_def lower_def)
  ultimately show ?thesis using assms(3) by (simp add: handle_service_def)
qed

text \<open>A request and its answer over one connection: what the client sends after its header, what the
  server sends for it, and how the client reads that.\<close>

lemma service_exchange:
  assumes classes: "message_class ser_q deser_q valid_q" "message_class ser_r deser_r valid_r"
    and request: "servable valid_q ser_q valid_r ser_r (handler h) f q"
    and c: "clean s"
    and same_type: "srv_md5sum (srv_type srv) = srv_md5sum ty"
    and h: "h = sort_key fst (service_header (srv_name srv) ty node False)"
      "header_ok (service_header (srv_name srv) ty node False)"
    and reply: "encode_header (server_header srv) = Inr reply"
  obtains bs sz out where "serializer_serialize ser_q q s = (Inr bs, sz)" "clean sz"
    "handle_service deser_q handler ser_r srv h bs = ([reply, out], Inr ())"
    "read_response deser_r out = (Inr (f q), [])"
proof -
  from request have q: "valid_q q" "plain q" "fits ser_q q" "handler h q = Inr (f q)"
    "valid_r (f q)" "plain (f q)" "fits ser_r (f q)" by (auto simp: servable_def)
  from serializer_fits [OF classes(1) q(1,2) c q(3)] obtain bs sz where
    bs: "serializer_serialize ser_q q s = (Inr bs, sz)" "clean sz"
      "\<forall>rest. read_message deser_q (bs @ rest) = (Inr q, rest)" by blast
  from serve_one_answers [where handler = "handler h" and q = q and r = "f q" and bs = bs and rest = "[]",
      OF bs(3) q(4) classes(2) q(5,6) clean_new q(7)] obtain out sz' where
    out: "serve_one deser_q (handler h) ser_r new_serializer bs = (Inr (out, sz'), [])"
      "\<forall>more. read_response deser_r (out @ more) = (Inr (f q), more)" by auto
  have loop: "server_loop deser_q (handler h) ser_r False new_serializer bs = ([out], Inr ())"
    by (subst server_loop.simps) (simp add: out(1))
  have same: "map_of h = map_of (service_header (srv_name srv) ty node False)"
    unfolding h(1) using h(2) header_ok_sort [OF h(2)]
    by (intro map_of_inject_set [THEN iffD2]) (simp_all add: header_ok_def)
  have "handle_service deser_q handler ser_r srv h bs = ([reply, out], Inr ())"
    by (simp add: service_header_accepted [OF same_type same reply] loop)
  with bs(1,2) out(2) [rule_format, of "[]"] show thesis by (intro that) simp_all
qed

lemma check_server_reply:
  assumes "header_ok (server_header srv)" "encode_header (server_header srv) = Inr reply"
  shows "check_reply reply = (Inr (), [])"
proof -
  have "''error'' \<notin> dom (map_of (sort_key fst (server_header srv)))"
    unfolding dom_map_of_conv_image_fst by (simp add: server_header_def)
  then show ?thesis
    using head.read_enc [OF assms, of "[]"] by (auto simp: check_reply_def split: option.split)
qed

text \<open>A call of a service from end to end: a client that connects to the server of the same service
  type, sends its header and a request, and reads what the server answers, gets the response of the
  handler; its serializer is then as good as new for the next call.\<close>

theorem service_call:
  assumes classes: "message_class ser_q deser_q valid_q" "message_class ser_r deser_r valid_r"
    and request: "servable valid_q ser_q valid_r ser_r (handler h) f q"
    and c: "clean (client_serializer c)"
    and same_type: "srv_md5sum (srv_type srv) = srv_md5sum ty"
    and h: "h = sort_key fst (service_header (srv_name srv) ty node False)"
      "header_ok (service_header (srv_name srv) ty node False)"
    and reply: "header_ok (server_header srv)" "encode_header (server_header srv) = Inr reply"
  shows "\<exists>c'. non_persistent_call ser_q deser_r (Inr reply)
      (\<lambda>data. concat (tl (fst (handle_service deser_q handler ser_r srv h data)))) q c = (Inr (f q), c') \<and>
    clean (client_serializer c')"
proof -
  obtain bs sz out where "serializer_serialize ser_q q (client_serializer c) = (Inr bs, sz)" "clean sz"
    "handle_service deser_q handler ser_r srv h bs = ([reply, out], Inr ())"
    "read_response deser_r out = (Inr (f q), [])"
    by (rule service_exchange [where handler = handler and f = f,
          OF classes request c same_type h reply(2)])
  with check_server_reply [OF reply] show ?thesis
    by (simp add: non_persistent_call_def persistent_call_def client_close_def)
qed

definition demo_server :: service_server where
  "demo_server =
     \<lparr>srv_name = ''/rev'', srv_type = \<lparr>srv_type_name = ''t/Rev'', srv_md5sum = ''77ab''\<rparr>, srv_node = ''/s''\<rparr>"

lemma demo_service_headers:
  "header_ok (service_header ''/rev'' (srv_type demo_server) ''/n'' False)" "header_ok (server_header demo_server)"
proof -
  have "text_ok ''/n'' \<and> text_ok ''77ab'' \<and> text_ok ''/rev'' \<and> text_ok ''/s'' \<and> text_ok ''t/Rev''"
    by (intro conjI; rule text_ok_ascii; auto)
  moreover have "text_ok ''callerid'' \<and> text_ok ''md5sum'' \<and> text_ok ''service'' \<and> text_ok ''type''"
    by (intro conjI; rule text_ok_ascii; auto)
  ultimately show "header_ok (service_header ''/rev'' (srv_type demo_server) ''/n'' False)"
      "header_ok (server_header demo_server)"
    by (simp_all add: header_ok_def service_header_def server_header_def demo_server_def field_ok_def
        strip_graphic graphic_def)
qed

theorem service_call_witness:
  "\<exists>reply h c'. encode_header (server_header demo_server) = Inr reply \<and>
     non_persistent_call bytes_ser bytes_deser (Inr reply)
       (\<lambda>data. concat (tl (fst (handle_service bytes_deser (\<lambda>_ q. Inr (rev_message q)) bytes_ser demo_server h data))))
       (bytes_message [1, 2]) new_client = (Inr (bytes_message [2, 1]), c')"
proof -
  have "\<exists>reply. encode_header (server_header demo_server) = Inr reply"
    by (simp add: encode_header_def server_header_def demo_server_def encode_field_def pack_I_def)
  then obtain reply where reply: "encode_header (server_header demo_server) = Inr reply" by blast
  have n: "srv_name demo_server = ''/rev''" by (simp add: demo_server_def)
  have "servable (\<lambda>m. msg_header m = None) bytes_ser (\<lambda>m. msg_header m = None) bytes_ser
      (\<lambda>q. Inr (rev_message q)) rev_message (bytes_message [1, 2])"
    by (rule bytes_servable) simp
  from service_call [where handler = "\<lambda>_ q. Inr (rev_message q)",
      OF bytes_class.message_class_axioms bytes_class.message_class_axioms this _ refl refl
        demo_service_headers(1) [folded n] demo_service_headers(2) reply, of new_client]
  have "\<exists>c'. non_persistent_call bytes_ser bytes_deser (Inr reply)
       (\<lambda>data. concat (tl (fst (handle_service bytes_deser (\<lambda>_ q. Inr (rev_message q)) bytes_ser demo_server
          (sort_key fst (service_header (srv_name demo_server) (srv_type demo_server) ''/n'' False)) data))))
       (bytes_message [1, 2]) new_client = (Inr (bytes_message [2, 1]), c')"
    by (auto simp: new_client_def rev_message_def bytes_message_def)
  with reply show ?thesis by blast
qed

text \<open>While a service is served, every node finds it where its node listens.\<close>

lemma serve_start_found:
  assumes "node_tcpros_uri n = format_tcpros_uri host port" "slash \<notin> set host" "CHR '':'' \<notin> set host"
  shows "fst (service_address n' (srv_name s) (snd (serve_start n s w))) = Inr (host, port)"
  using split_tcpros_uri_format [OF assms(2,3)]
  by (simp add: service_address_def serve_start_def node_simps assms(1) register_service_def Let_def registry_simps)

text \<open>While a service is served, every node finds it at the address its node listens on; once its
  server is cancelled, looking it up raises \<open>XMLRPCError\<close>.\<close>

theorem service_found:
  assumes "node_tcpros_uri n = format_tcpros_uri host port" "slash \<notin> set host" "CHR '':'' \<notin> set host"
  shows "fst (service_address n' (srv_name s) (snd (serve_start n s w))) = Inr (host, port) \<and>
    fst (service_address n' (srv_name s) (snd (serve_cancelled n s w))) = Inl (XMLRPCError '''')"
proof
  show "fst (service_address n' (srv_name s) (snd (serve_start n s w))) = Inr (host, port)"
    by (rule serve_start_found [OF assms])
  show "fst (service_address n' (srv_name s) (snd (serve_cancelled n s w))) = Inl (XMLRPCError '''')"
    by (simp add: service_address_def serve_cancelled_def node_simps unregister_service_def Let_def registry_simps)
qed

theorem service_found_witness:
  "fst (service_address demo_node ''/rev'' (snd (serve_start (demo_node\<lparr>node_tcpros_uri := format_tcpros_uri ''pc'' 80\<rparr>)
     demo_server (demo_world [])))) = Inr (''pc'', 80)"
  using service_found [of "demo_node\<lparr>node_tcpros_uri := format_tcpros_uri ''pc'' 80\<rparr>" "''pc''" 80 demo_node demo_server]
  by (simp add: demo_server_def)

end
