(* ===== verification/Node_Process.thy ===== *)
theory Node_Process
  imports Subscriber_Properties Services
begin

text \<open>
  A node as a whole: the registry, the factories of publications, subscriptions, services and action
  clients, and the TCPROS listener of \<open>aioros/_node/_node.py\<close>; the node's own XML-RPC API,
  \<open>NodeApiHandle\<close> of \<open>_api.py\<close>; the set-up of an \<open>ActionClient\<close> of
  \<open>_action/_client.py\<close>.

  Objects that several users share (a publication, the manager of a subscription) live in the
  registry, and users name them by their topic.
\<close>

section \<open>State\<close>

record 'm node_registry =
  reg_services :: "(string \<times> service_server) list"
  reg_publications :: "(string \<times> publication) list"
  reg_subscriptions :: "(string \<times> 'm manager) list"

definition empty_node_registry :: "'m node_registry" where
  "empty_node_registry = \<lparr>reg_services = [], reg_publications = [], reg_subscriptions = []\<rparr>"

record 'm process =
  proc_node :: ros_node
  proc_registry :: "'m node_registry"
  proc_cache :: params
  proc_pid :: int
  proc_master_uri :: string
  proc_shutdowns :: nat

definition published_topic_types :: "'m node_registry \<Rightarrow> (string \<times> topic_type) list" where
  "published_topic_types r = map (\<lambda>(topic, p). (topic, pub_type p)) (reg_publications r)"

definition subscribed_topic_types :: "'m node_registry \<Rightarrow> (string \<times> topic_type) list" where
  "subscribed_topic_types r = map (\<lambda>(topic, m). (topic, sub_type m)) (reg_subscriptions r)"

definition peer_info :: "'m manager \<Rightarrow> string \<times> nat \<Rightarrow> pyval list" where
  "peer_info m ui =
     (case sub_peers m (snd ui) of
        None \<Rightarrow> []
      | Some p \<Rightarrow>
          [PList [PInt (int (snd ui)), PStr (peer_uri p), PStr ''i'', PStr (peer_protocol p), PStr (sub_topic m),
             PBool (peer_connected p), PStr []]])"

definition connection_infos :: "'m node_registry \<Rightarrow> pyval list" where
  "connection_infos r =
     concat (map (\<lambda>(topic, m). concat (map (peer_info m) (sub_publishers m))) (reg_subscriptions r)) @
     concat (map (\<lambda>(topic, p).
         map (\<lambda>c. PList [PInt 1, PStr (conn_node c), PStr ''o'', PStr (conn_protocol c), PStr (pub_topic p),
           PBool True, PStr []]) (pub_connections p)) (reg_publications r))"

definition publisher_update :: "string \<Rightarrow> string list \<Rightarrow> 'm node_registry \<Rightarrow> 'm node_registry" where
  "publisher_update topic publishers r =
     (case map_of (reg_subscriptions r) topic of
        None \<Rightarrow> r
      | Some m \<Rightarrow>
          r\<lparr>reg_subscriptions := AList.update topic (update_publishers publishers m) (reg_subscriptions r)\<rparr>)"

section \<open>The node's XML-RPC API\<close>

type_synonym 'm node_handler = "'m process \<Rightarrow> (reply, 'm process) outcome"

definition node_getName :: "string \<Rightarrow> 'm node_handler" where
  "node_getName c p = (Inr (1, [], PStr (full_name (proc_node p))), p)"

definition node_getUri :: "string \<Rightarrow> 'm node_handler" where
  "node_getUri c p = (Inr (1, [], PStr (node_xmlrpc_uri (proc_node p))), p)"

definition node_getBusStats :: "string \<Rightarrow> 'm node_handler" where
  "node_getBusStats c p = (Inr (1, [], PList [PList [], PList [], PList []]), p)"

definition node_getBusInfo :: "string \<Rightarrow> 'm node_handler" where
  "node_getBusInfo c p = (Inr (1, ''bus info'', PList (connection_infos (proc_registry p))), p)"

definition node_getMasterUri :: "string \<Rightarrow> 'm node_handler" where
  "node_getMasterUri c p = (Inr (1, proc_master_uri p, PStr (proc_master_uri p)), p)"

text \<open>\<open>signal_shutdown\<close> starts a task that cancels the node a second later.\<close>

definition node_shutdown_request :: "string \<Rightarrow> string \<Rightarrow> 'm node_handler" where
  "node_shutdown_request c msg p =
     (Inr (1, ''shutdown'', PInt 0), p\<lparr>proc_shutdowns := Suc (proc_shutdowns p)\<rparr>)"

definition node_getPid :: "string \<Rightarrow> 'm node_handler" where
  "node_getPid c p = (Inr (1, [], PInt (proc_pid p)), p)"

definition topic_infos :: "(string \<times> topic_type) list \<Rightarrow> pyval" where
  "topic_infos types = PList (map (\<lambda>(topic, ty). strings [topic, type_name ty]) types)"

definition node_getSubscriptions :: "string \<Rightarrow> 'm node_handler" where
  "node_getSubscriptions c p =
     (Inr (1, ''subscriptions'', topic_infos (subscribed_topic_types (proc_registry p))), p)"

definition node_getPublications :: "string \<Rightarrow> 'm node_handler" where
  "node_getPublications c p =
     (Inr (1, ''publications'', topic_infos (published_topic_types (proc_registry p))), p)"

definition node_paramUpdate :: "string \<Rightarrow> string \<Rightarrow> pyval \<Rightarrow> 'm node_handler" where
  "node_paramUpdate c key v p =
     (let (res, ps) = paramUpdate c key v (proc_cache p) in (res, p\<lparr>proc_cache := ps\<rparr>))"

definition publisherUpdate :: "string \<Rightarrow> string \<Rightarrow> string list \<Rightarrow> 'm node_handler" where
  "publisherUpdate c topic publishers p =
     (Inr (1, [], PInt 0), p\<lparr>proc_registry := publisher_update topic publishers (proc_registry p)\<rparr>)"

text \<open>\<open>for protocol, *_ in protocols\<close>: unpacking an empty list raises \<open>ValueError\<close>.\<close>

fun select_protocol :: "ros_node \<Rightarrow> pyval list list \<Rightarrow> reply result" where
  "select_protocol n [] = Inr (0, ''no supported protocol implementations'', PList [])"
| "select_protocol n ([] # protocols) = Inl ValueError"
| "select_protocol n ((protocol # _) # protocols) =
     (if protocol = PStr ''TCPROS'' then
        bind_result (split_tcpros_uri (node_tcpros_uri n)) (\<lambda>(host, port).
          Inr (1, [], PList [protocol, PStr host, PInt port]))
      else if protocol = PStr ''UDSROS'' then
        (let (host, path) = split_udsros_uri (node_udsros_uri n) in
         Inr (1, [], PList [protocol, PStr host, PStr path]))
      else select_protocol n protocols)"

definition requestTopic :: "string \<Rightarrow> string \<Rightarrow> pyval list list \<Rightarrow> 'm node_handler" where
  "requestTopic c topic protocols p =
     (if topic \<notin> dom (map_of (published_topic_types (proc_registry p)))
      then (Inr (0, ''topic not published'', PList []), p)
      else (select_protocol (proc_node p) protocols, p))"

text \<open>The calls the master queues for a node, as the node handles them.\<close>

fun node_receive :: "task \<Rightarrow> 'm node_handler" where
  "node_receive (PublisherUpdate topic publishers) p = publisherUpdate ''master'' topic publishers p"
| "node_receive (ParamUpdate key v) p = node_paramUpdate ''master'' key v p"
| "node_receive (Shutdown msg) p = node_shutdown_request ''master'' msg p"

section \<open>Factories\<close>

definition create_server ::
    "ros_node \<Rightarrow> string \<Rightarrow> service_type \<Rightarrow> 'm node_registry \<Rightarrow> (service_server, 'm node_registry) outcome" where
  "create_server n name ty r =
     (case node_resolve_name n name of
        Inl e \<Rightarrow> (Inl e, r)
      | Inr name' \<Rightarrow>
          if name' \<in> dom (map_of (reg_services r)) then (Inl ValueError, r)
          else
            let server = \<lparr>srv_name = name', srv_type = ty, srv_node = full_name n\<rparr>
            in (Inr server, r\<lparr>reg_services := AList.update name' server (reg_services r)\<rparr>))"

text \<open>The header of a new service client, by which it is known to the server.\<close>

definition create_client :: "ros_node \<Rightarrow> string \<Rightarrow> service_type \<Rightarrow> bool \<Rightarrow> (string \<times> header) result" where
  "create_client n name ty persistent =
     bind_result (node_resolve_name n name) (\<lambda>name'.
       Inr (name', service_header name' ty (full_name n) persistent))"

definition create_subscription ::
    "ros_node \<Rightarrow> string \<Rightarrow> topic_type \<Rightarrow> 'm node_registry \<Rightarrow> (string, 'm node_registry) outcome" where
  "create_subscription n topic ty r =
     (case node_resolve_name n topic of
        Inl e \<Rightarrow> (Inl e, r)
      | Inr topic' \<Rightarrow>
          (Inr topic',
           if topic' \<notin> dom (map_of (reg_subscriptions r))
           then r\<lparr>reg_subscriptions :=
                    AList.update topic' (new_manager topic' ty (full_name n)) (reg_subscriptions r)\<rparr>
           else r))"

definition create_publication ::
    "ros_node \<Rightarrow> string \<Rightarrow> topic_type \<Rightarrow> bool \<Rightarrow> 'm node_registry \<Rightarrow> (string, 'm node_registry) outcome" where
  "create_publication n topic ty latched r =
     (case node_resolve_name n topic of
        Inl e \<Rightarrow> (Inl e, r)
      | Inr topic' \<Rightarrow>
          let r' =
                (if topic' \<notin> dom (map_of (reg_publications r))
                 then r\<lparr>reg_publications :=
                          AList.update topic' (new_publication topic' ty (full_name n) latched) (reg_publications r)\<rparr>
                 else r)
          in (case map_of (reg_publications r') topic' of
                Some p \<Rightarrow> if pub_latched p \<noteq> latched then (Inl ValueError, r') else (Inr topic', r')
              | None \<Rightarrow> (Inl (KeyError topic'), r')))"

text \<open>\<open>ActionClient.__init__\<close>: two publications and three subscriptions below a namespace.\<close>

record action_type =
  goal_type :: topic_type
  cancel_type :: topic_type
  status_type :: topic_type
  feedback_type :: topic_type
  result_type :: topic_type

definition create_action_client ::
    "ros_node \<Rightarrow> string \<Rightarrow> action_type \<Rightarrow> 'm node_registry \<Rightarrow> (string list, 'm node_registry) outcome" where
  "create_action_client n namespace action r =
     (case node_resolve_name n namespace of
        Inl e \<Rightarrow> (Inl e, r)
      | Inr ns \<Rightarrow>
          bind_outcome (create_publication n (ns @ ''/goal'') (goal_type action) False r) (\<lambda>goal r.
          bind_outcome (create_publication n (ns @ ''/cancel'') (cancel_type action) False r) (\<lambda>cancel r.
          bind_outcome (create_subscription n (ns @ ''/status'') (status_type action) r) (\<lambda>status r.
          bind_outcome (create_subscription n (ns @ ''/feedback'') (feedback_type action) r) (\<lambda>feedback r.
          bind_outcome (create_subscription n (ns @ ''/result'') (result_type action) r) (\<lambda>result r.
            (Inr [goal, cancel, status, feedback, result], r)))))))"

section \<open>The TCPROS listener\<close>

text \<open>
  \<open>handle_tcpros\<close> on the bytes a peer sends: what is sent back, how it ends, and the registry
  (to which a new subscriber is added; what it is sent then are steps of its publication). The
  service servers with their user handlers are a parameter.
\<close>

definition error_header :: "string \<Rightarrow> bytes result" where
  "error_header msg = encode_header [(''error'', msg)]"

text \<open>\<open>except ProtocolError\<close> inside \<open>except IncompleteRead\<close>.\<close>

definition conclude :: "bytes list \<times> unit result \<Rightarrow> bytes list \<times> unit result" where
  "conclude session =
     (let (outs, res) = session in
      case res of
        Inl (ProtocolError msg) \<Rightarrow>
          (case error_header msg of Inl e \<Rightarrow> (outs, Inl e) | Inr bs \<Rightarrow> (outs @ [bs], Inr ()))
      | Inl IncompleteRead \<Rightarrow> (outs, Inr ())
      | _ \<Rightarrow> (outs, res))"

definition not_provided :: "string \<Rightarrow> string \<Rightarrow> unit result" where
  "not_provided key name = Inl (ProtocolError (key @ '' '' @ name @ '' is not provided by this node''))"

definition handle_tcpros ::
    "(service_server \<Rightarrow> header \<Rightarrow> bytes \<Rightarrow> bytes list \<times> unit result) \<Rightarrow> string \<Rightarrow> bytes \<Rightarrow>
     'm node_registry \<Rightarrow> (bytes list \<times> unit result) \<times> 'm node_registry" where
  "handle_tcpros serve_service protocol s r =
     (case read_header s of
        (Inl e, _) \<Rightarrow> (conclude ([], Inl e), r)
      | (Inr h, rest) \<Rightarrow>
          (case map_of h ''service'' of
             Some name \<Rightarrow>
               (case map_of (reg_services r) name of
                  None \<Rightarrow> (conclude ([], not_provided ''service'' name), r)
                | Some server \<Rightarrow> (conclude (serve_service server h rest), r))
           | None \<Rightarrow>
               (case map_of h ''topic'' of
                  Some name \<Rightarrow>
                    (case map_of (reg_publications r) name of
                       None \<Rightarrow> (conclude ([], not_provided ''topic'' name), r)
                     | Some p \<Rightarrow>
                         (case accept protocol h p of
                            (Inl e, _) \<Rightarrow> (conclude ([], Inl e), r)
                          | (Inr reply, p') \<Rightarrow>
                              (([reply], Inr ()),
                               r\<lparr>reg_publications := AList.update name p' (reg_publications r)\<rparr>)))
                | None \<Rightarrow>
                    ((case error_header ''no topic or service name detected'' of
                        Inl e \<Rightarrow> ([], Inl e) | Inr bs \<Rightarrow> ([bs], Inr ())), r))))"

end
