(* ===== verification/Action_Machine.thy ===== *)
theory Action_Machine
  imports Prelude
begin

text \<open>
  The action client's view of a goal: \<open>CommState\<close> and \<open>GoalState\<close> of
  \<open>aioros/abc/_action.py\<close>, and \<open>CommStateMachine\<close> with its table of
  transitions, \<open>aioros/_node/_action/_state_machine.py\<close>.

  The numbers of the goal states come from the message class \<open>actionlib_msgs/GoalStatus\<close>,
  which is not part of the repository: \<open>code\<close> is a parameter. \<open>@unique\<close> makes the import
  fail unless it is injective.
\<close>

section \<open>States\<close>

datatype comm_state =
    WAITING_FOR_GOAL_ACK
  | CPENDING
  | CACTIVE
  | WAITING_FOR_RESULT
  | WAITING_FOR_CANCEL_ACK
  | CRECALLING
  | CPREEMPTING
  | DONE
  | CLOST

fun comm_is_terminal :: "comm_state \<Rightarrow> bool" where
  "comm_is_terminal DONE = True"
| "comm_is_terminal CLOST = True"
| "comm_is_terminal _ = False"

datatype goal_state =
    PENDING
  | ACTIVE
  | PREEMPTED
  | SUCCEEDED
  | ABORTED
  | REJECTED
  | PREEMPTING
  | RECALLING
  | RECALLED
  | LOST

definition goal_states :: "goal_state list" where
  "goal_states =
     [PENDING, ACTIVE, PREEMPTED, SUCCEEDED, ABORTED, REJECTED, PREEMPTING, RECALLING, RECALLED, LOST]"

fun goal_is_terminal :: "goal_state \<Rightarrow> bool" where
  "goal_is_terminal RECALLED = True"
| "goal_is_terminal REJECTED = True"
| "goal_is_terminal PREEMPTED = True"
| "goal_is_terminal ABORTED = True"
| "goal_is_terminal SUCCEEDED = True"
| "goal_is_terminal LOST = True"
| "goal_is_terminal _ = False"

text \<open>\<open>GoalState(number)\<close>: \<open>None\<close> is its \<open>ValueError\<close>.\<close>

definition goal_of :: "(goal_state \<Rightarrow> int) \<Rightarrow> int \<Rightarrow> goal_state option" where
  "goal_of code number = find (\<lambda>s. code s = number) goal_states"

section \<open>The table\<close>

text \<open>
  \<open>TRANSITIONS[comm_state][goal_state]\<close>, as what iterating over the entry gives: the states
  to go through, or the error raised by \<open>InvalidTransition\<close> when its iteration starts. There is
  no entry for a lost goal, nor for the communication state \<open>LOST\<close>.
\<close>

abbreviation no_entry :: "comm_state list result" where
  "no_entry \<equiv> Inl (KeyError ''GoalState.LOST'')"

fun transitions :: "comm_state \<Rightarrow> goal_state \<Rightarrow> comm_state list result" where
  "transitions WAITING_FOR_GOAL_ACK goal =
     (case goal of
        PENDING \<Rightarrow> Inr [CPENDING]
      | ACTIVE \<Rightarrow> Inr [CACTIVE]
      | REJECTED \<Rightarrow> Inr [CPENDING, WAITING_FOR_RESULT]
      | RECALLING \<Rightarrow> Inr [CPENDING, CRECALLING]
      | RECALLED \<Rightarrow> Inr [CPENDING, WAITING_FOR_RESULT]
      | PREEMPTED \<Rightarrow> Inr [CACTIVE, CPREEMPTING, WAITING_FOR_RESULT]
      | SUCCEEDED \<Rightarrow> Inr [CACTIVE, WAITING_FOR_RESULT]
      | ABORTED \<Rightarrow> Inr [CACTIVE, WAITING_FOR_RESULT]
      | PREEMPTING \<Rightarrow> Inr [CACTIVE, CPREEMPTING]
      | LOST \<Rightarrow> no_entry)"
| "transitions CPENDING goal =
     (case goal of
        PENDING \<Rightarrow> Inr []
      | ACTIVE \<Rightarrow> Inr [CACTIVE]
      | REJECTED \<Rightarrow> Inr [WAITING_FOR_RESULT]
      | RECALLING \<Rightarrow> Inr [CRECALLING]
      | RECALLED \<Rightarrow> Inr [CRECALLING, WAITING_FOR_RESULT]
      | PREEMPTED \<Rightarrow> Inr [CACTIVE, CPREEMPTING, WAITING_FOR_RESULT]
      | SUCCEEDED \<Rightarrow> Inr [CACTIVE, WAITING_FOR_RESULT]
      | ABORTED \<Rightarrow> Inr [CACTIVE, WAITING_FOR_RESULT]
      | PREEMPTING \<Rightarrow> Inr [CACTIVE, CPREEMPTING]
      | LOST \<Rightarrow> no_entry)"
| "transitions CACTIVE goal =
     (case goal of
        PENDING \<Rightarrow> Inl InvalidTransitionError
      | ACTIVE \<Rightarrow> Inr []
      | REJECTED \<Rightarrow> Inl InvalidTransitionError
      | RECALLING \<Rightarrow> Inl InvalidTransitionError
      | RECALLED \<Rightarrow> Inl InvalidTransitionError
      | PREEMPTED \<Rightarrow> Inr [CPREEMPTING, WAITING_FOR_RESULT]
      | SUCCEEDED \<Rightarrow> Inr [WAITING_FOR_RESULT]
      | ABORTED \<Rightarrow> Inr [WAITING_FOR_RESULT]
      | PREEMPTING \<Rightarrow> Inr [CPREEMPTING]
      | LOST \<Rightarrow> no_entry)"
| "transitions WAITING_FOR_RESULT goal =
     (case goal of
        PENDING \<Rightarrow> Inl InvalidTransitionError
      | RECALLING \<Rightarrow> Inl InvalidTransitionError
      | PREEMPTING \<Rightarrow> Inl InvalidTransitionError
      | LOST \<Rightarrow> no_entry
      | _ \<Rightarrow> Inr [])"
| "transitions WAITING_FOR_CANCEL_ACK goal =
     (case goal of
        PENDING \<Rightarrow> Inr []
      | ACTIVE \<Rightarrow> Inr []
      | REJECTED \<Rightarrow> Inr [WAITING_FOR_RESULT]
      | RECALLING \<Rightarrow> Inr [CRECALLING]
      | RECALLED \<Rightarrow> Inr [CRECALLING, WAITING_FOR_RESULT]
      | PREEMPTED \<Rightarrow> Inr [CPREEMPTING, WAITING_FOR_RESULT]
      | SUCCEEDED \<Rightarrow> Inr [CPREEMPTING, WAITING_FOR_RESULT]
      | ABORTED \<Rightarrow> Inr [CPREEMPTING, WAITING_FOR_RESULT]
      | PREEMPTING \<Rightarrow> Inr [CPREEMPTING]
      | LOST \<Rightarrow> no_entry)"
| "transitions CRECALLING goal =
     (case goal of
        PENDING \<Rightarrow> Inl InvalidTransitionError
      | ACTIVE \<Rightarrow> Inl InvalidTransitionError
      | REJECTED \<Rightarrow> Inr [WAITING_FOR_RESULT]
      | RECALLING \<Rightarrow> Inr []
      | RECALLED \<Rightarrow> Inr [WAITING_FOR_RESULT]
      | PREEMPTED \<Rightarrow> Inr [CPREEMPTING, WAITING_FOR_RESULT]
      | SUCCEEDED \<Rightarrow> Inr [CPREEMPTING, WAITING_FOR_RESULT]
      | ABORTED \<Rightarrow> Inr [CPREEMPTING, WAITING_FOR_RESULT]
      | PREEMPTING \<Rightarrow> Inr [CPREEMPTING]
      | LOST \<Rightarrow> no_entry)"
| "transitions CPREEMPTING goal =
     (case goal of
        PREEMPTED \<Rightarrow> Inr [WAITING_FOR_RESULT]
      | SUCCEEDED \<Rightarrow> Inr [WAITING_FOR_RESULT]
      | ABORTED \<Rightarrow> Inr [WAITING_FOR_RESULT]
      | PREEMPTING \<Rightarrow> Inr []
      | LOST \<Rightarrow> no_entry
      | _ \<Rightarrow> Inl InvalidTransitionError)"
| "transitions DONE goal =
     (case goal of
        PENDING \<Rightarrow> Inl InvalidTransitionError
      | ACTIVE \<Rightarrow> Inl InvalidTransitionError
      | RECALLING \<Rightarrow> Inl InvalidTransitionError
      | PREEMPTING \<Rightarrow> Inl InvalidTransitionError
      | LOST \<Rightarrow> no_entry
      | _ \<Rightarrow> Inr [])"
| "transitions CLOST goal = Inl (KeyError ''CommState.LOST'')"

section \<open>The machine\<close>

record goal_status =
  status_goal_id :: string
  status_number :: int

record machine =
  goal_id :: string
  goal_state :: goal_state
  comm_state :: comm_state

definition new_machine :: "string \<Rightarrow> machine" where
  "new_machine gid =
     \<lparr>goal_id = gid, goal_state = PENDING, comm_state = WAITING_FOR_GOAL_ACK\<rparr>"

text \<open>
  \<open>update_status\<close>. The \<open>except InvalidTransitionError\<close> of the code is around the body of
  the loop; the error is raised by the loop itself and leaves the method.
\<close>

definition update_status :: "(goal_state \<Rightarrow> int) \<Rightarrow> goal_status list \<Rightarrow> machine \<Rightarrow> (unit, machine) outcome" where
  "update_status code status_list m =
     (case find (\<lambda>status. status_goal_id status = goal_id m) status_list of
        None \<Rightarrow>
          (Inr (),
           if comm_state m \<notin> {WAITING_FOR_GOAL_ACK, WAITING_FOR_RESULT, DONE}
           then m\<lparr>goal_state := LOST, comm_state := DONE\<rparr> else m)
      | Some status \<Rightarrow>
          (case goal_of code (status_number status) of
             None \<Rightarrow> (Inr (), m)
           | Some goal \<Rightarrow>
               let m' = m\<lparr>goal_state := goal\<rparr> in
               case transitions (comm_state m') goal of
                 Inl e \<Rightarrow> (Inl e, m')
               | Inr states \<Rightarrow> (Inr (), fold (\<lambda>s m. m\<lparr>comm_state := s\<rparr>) states m')))"

definition update_on_result_status ::
    "(goal_state \<Rightarrow> int) \<Rightarrow> goal_status \<Rightarrow> machine \<Rightarrow> (bool, machine) outcome" where
  "update_on_result_status code status m =
     (case goal_of code (status_number status) of
        None \<Rightarrow> (Inl ValueError, m)
      | Some goal \<Rightarrow>
          let m' = m\<lparr>goal_state := goal\<rparr> in
          if comm_is_terminal (comm_state m') then (Inr False, m')
          else bind_outcome (update_status code [status] m')
                 (\<lambda>_ m''. (Inr True, m''\<lparr>comm_state := DONE\<rparr>)))"

end
