(* ===== verification/Action_Call.thy ===== *)
theory Action_Call
  imports Action_Machine
begin

text \<open>
  A goal sent by an action client: \<open>ActionCall\<close> of
  \<open>aioros/_node/_action/_client.py\<close>. Three trackers run concurrently, one per subscription;
  each message is handled without interruption, so a run is a sequence of such steps in any order.
  \<open>track\<close> cancels the trackers once it sees the event \<open>terminated\<close>, which may take a
  while. An exception in a tracker cancels the others and leaves \<open>track\<close> (\<open>failure\<close>).
\<close>

section \<open>State and steps\<close>

record ('f, 'r) call =
  machine :: machine
  terminated :: bool
  call_result :: "'r option"
  feedback_stream :: "'f list"
  status_tracking :: bool
  feedback_tracking :: bool
  result_tracking :: bool
  failure :: "py_error option"

definition new_call :: "string \<Rightarrow> ('f, 'r) call" where
  "new_call gid =
     \<lparr>machine = new_machine gid, terminated = False, call_result = None, feedback_stream = [],
      status_tracking = True, feedback_tracking = True, result_tracking = True, failure = None\<rparr>"

text \<open>All trackers stop: \<open>cancel_scope.cancel()\<close>.\<close>

definition stop_tracking :: "('f, 'r) call \<Rightarrow> ('f, 'r) call" where
  "stop_tracking c = c\<lparr>status_tracking := False, feedback_tracking := False, result_tracking := False\<rparr>"

definition tracker_raises :: "py_error \<Rightarrow> ('f, 'r) call \<Rightarrow> ('f, 'r) call" where
  "tracker_raises e c = (stop_tracking c)\<lparr>failure := Some e\<rparr>"

text \<open>The bodies of the loops of \<open>_track_status\<close>, \<open>_track_feedback\<close> and \<open>_track_result\<close>.\<close>

definition track_status :: "(goal_state \<Rightarrow> int) \<Rightarrow> goal_status list \<Rightarrow> ('f, 'r) call \<Rightarrow> ('f, 'r) call" where
  "track_status code statuses c =
     (let (res, m) = update_status code statuses (machine c); c' = c\<lparr>machine := m\<rparr> in
      case res of
        Inl e \<Rightarrow> tracker_raises e c'
      | Inr _ \<Rightarrow>
          if comm_is_terminal (comm_state m)
          then c'\<lparr>terminated := True, status_tracking := False\<rparr> else c')"

definition track_feedback :: "goal_status \<Rightarrow> 'f \<Rightarrow> ('f, 'r) call \<Rightarrow> ('f, 'r) call" where
  "track_feedback status f c =
     (if status_goal_id status = goal_id (machine c)
      then c\<lparr>feedback_stream := feedback_stream c @ [f]\<rparr> else c)"

definition track_result :: "(goal_state \<Rightarrow> int) \<Rightarrow> goal_status \<Rightarrow> 'r \<Rightarrow> ('f, 'r) call \<Rightarrow> ('f, 'r) call" where
  "track_result code status r c =
     (if status_goal_id status = goal_id (machine c) then
        let (res, m) = update_on_result_status code status (machine c); c' = c\<lparr>machine := m\<rparr> in
        case res of
          Inl e \<Rightarrow> tracker_raises e c'
        | Inr True \<Rightarrow> c'\<lparr>call_result := Some r, terminated := True, result_tracking := False\<rparr>
        | Inr False \<Rightarrow> c'
      else c)"

datatype ('f, 'r) call_event =
    StatusMsg "goal_status list"
  | FeedbackMsg goal_status 'f
  | ResultMsg goal_status 'r
  | Finish

text \<open>Which events can happen, and what they do. \<open>Finish\<close> is \<open>track\<close> waking up.\<close>

fun enabled :: "('f, 'r) call_event \<Rightarrow> ('f, 'r) call \<Rightarrow> bool" where
  "enabled (StatusMsg _) c = status_tracking c"
| "enabled (FeedbackMsg _ _) c = feedback_tracking c"
| "enabled (ResultMsg _ _) c = result_tracking c"
| "enabled Finish c = terminated c"

fun perform :: "(goal_state \<Rightarrow> int) \<Rightarrow> ('f, 'r) call_event \<Rightarrow> ('f, 'r) call \<Rightarrow> ('f, 'r) call" where
  "perform code (StatusMsg statuses) c = track_status code statuses c"
| "perform code (FeedbackMsg status f) c = track_feedback status f c"
| "perform code (ResultMsg status r) c = track_result code status r c"
| "perform code Finish c = stop_tracking c"

inductive call_steps ::
    "(goal_state \<Rightarrow> int) \<Rightarrow> ('f, 'r) call_event list \<Rightarrow> ('f, 'r) call \<Rightarrow> ('f, 'r) call \<Rightarrow> bool"
  for code :: "goal_state \<Rightarrow> int" where
  call_stop: "call_steps code [] c c"
| call_step: "enabled ev c \<Longrightarrow> call_steps code evs (perform code ev c) c' \<Longrightarrow>
    call_steps code (ev # evs) c c'"

inductive_cases call_stepsE: "call_steps code evs c c'"
inductive_simps call_steps_Nil [simp]: "call_steps code [] c c'"
inductive_simps call_steps_Cons [simp]: "call_steps code (ev # evs) c c'"

text \<open>\<open>wait_for_result\<close>: \<^const>\<open>None\<close> as long as it waits.\<close>

definition wait_for_result :: "('f, 'r) call \<Rightarrow> 'r option option" where
  "wait_for_result c = (if terminated c then Some (call_result c) else None)"

definition get_goal_state :: "('f, 'r) call \<Rightarrow> goal_state" where
  "get_goal_state c = machine.goal_state (machine c)"

definition get_comm_state :: "('f, 'r) call \<Rightarrow> comm_state" where
  "get_comm_state c = comm_state (machine c)"

text \<open>One round of the iterator \<open>feedback\<close>, when there is something to take.\<close>

definition provide_feedback :: "('f, 'r) call \<Rightarrow> ('f \<times> ('f, 'r) call) option" where
  "provide_feedback c =
     (case feedback_stream c of [] \<Rightarrow> None | f # rest \<Rightarrow> Some (f, c\<lparr>feedback_stream := rest\<rparr>))"

section \<open>The table\<close>

text \<open>How far a goal is, from its acknowledgement to its end.\<close>

fun progress :: "comm_state \<Rightarrow> nat" where
  "progress WAITING_FOR_GOAL_ACK = 0"
| "progress CPENDING = 1"
| "progress WAITING_FOR_CANCEL_ACK = 1"
| "progress CACTIVE = 2"
| "progress CRECALLING = 2"
| "progress CPREEMPTING = 3"
| "progress WAITING_FOR_RESULT = 4"
| "progress CLOST = 5"
| "progress DONE = 6"

text \<open>An entry of the table leads upwards, one state after another, and never to the end.\<close>

lemma transitions_sorted:
  "transitions comm goal = Inr states \<Longrightarrow> sorted_wrt (<) (map progress (comm # states))"
  by (cases comm; cases goal) auto

lemma transitions_states:
  "transitions comm goal = Inr states \<Longrightarrow>
     set states \<subseteq> {CPENDING, CACTIVE, CRECALLING, CPREEMPTING, WAITING_FOR_RESULT}"
  by (cases comm; cases goal) auto

lemma fold_comm_state:
  "fold (\<lambda>s m. m\<lparr>comm_state := s\<rparr>) states m = m\<lparr>comm_state := last (comm_state m # states)\<rparr>"
  by (induction states arbitrary: m) auto

lemma sorted_last_le: "sorted_wrt (<) (map f (x # xs)) \<Longrightarrow> (f x :: nat) \<le> f (last (x # xs))"
  by (induction xs arbitrary: x) (auto simp: less_imp_le intro: order_trans)

text \<open>The cases of \<open>update_status\<close>.\<close>

lemma update_status_cases:
  obtains (absent) "find (\<lambda>s. status_goal_id s = goal_id m) statuses = None"
      "comm_state m \<in> {WAITING_FOR_GOAL_ACK, WAITING_FOR_RESULT, DONE}"
      "update_status code statuses m = (Inr (), m)"
  | (lost) "find (\<lambda>s. status_goal_id s = goal_id m) statuses = None"
      "comm_state m \<notin> {WAITING_FOR_GOAL_ACK, WAITING_FOR_RESULT, DONE}"
      "update_status code statuses m = (Inr (), m\<lparr>goal_state := LOST, comm_state := DONE\<rparr>)"
  | (unknown) s where "find (\<lambda>s. status_goal_id s = goal_id m) statuses = Some s"
      "goal_of code (status_number s) = None" "update_status code statuses m = (Inr (), m)"
  | (refused) s goal e where "find (\<lambda>s. status_goal_id s = goal_id m) statuses = Some s"
      "goal_of code (status_number s) = Some goal" "transitions (comm_state m) goal = Inl e"
      "update_status code statuses m = (Inl e, m\<lparr>goal_state := goal\<rparr>)"
  | (moved) s goal states where "find (\<lambda>s. status_goal_id s = goal_id m) statuses = Some s"
      "goal_of code (status_number s) = Some goal" "transitions (comm_state m) goal = Inr states"
      "update_status code statuses m =
         (Inr (), m\<lparr>goal_state := goal, comm_state := last (comm_state m # states)\<rparr>)"
proof (cases "find (\<lambda>s. status_goal_id s = goal_id m) statuses")
  case None
  then show thesis
    using absent lost
    by (cases "comm_state m \<in> {WAITING_FOR_GOAL_ACK, WAITING_FOR_RESULT, DONE}")
      (simp_all add: update_status_def)
next
  case (Some s)
  show thesis
  proof (cases "goal_of code (status_number s)")
    case None
    with Some unknown show thesis by (simp add: update_status_def)
  next
    case goal: (Some goal)
    show thesis
      by (cases "transitions (comm_state m) goal")
        (use Some goal refused moved in \<open>auto simp: update_status_def Let_def fold_comm_state\<close>)
  qed
qed

lemma goal_of_code: "inj code \<Longrightarrow> goal_of code (code g) = Some g"
  unfolding goal_of_def goal_states_def by (cases g) (simp_all add: inj_eq)

lemma update_status_goal_id: "goal_id (snd (update_status code statuses m)) = goal_id m"
  by (cases rule: update_status_cases [where m = m and statuses = statuses and code = code]) auto

lemma update_on_result_status_goal_id:
  "goal_id (snd (update_on_result_status code status m)) = goal_id m"
proof (cases "goal_of code (status_number status)")
  case (Some goal)
  obtain res m' where u: "update_status code [status] (m\<lparr>goal_state := goal\<rparr>) = (res, m')" by fastforce
  with update_status_goal_id [of code "[status]" "m\<lparr>goal_state := goal\<rparr>"] have "goal_id m' = goal_id m"
    by simp
  with u Some show ?thesis by (cases res) (simp_all add: update_on_result_status_def Let_def)
qed (simp add: update_on_result_status_def)

text \<open>C20: Whatever a status array says and whether or not it is refused, the communication state
  never moves backwards; when the update raises, it stays, while the goal state is already the
  reported one.\<close>

theorem update_status_monotone:
  "progress (comm_state m) \<le> progress (comm_state (snd (update_status code statuses m))) \<and>
   (case fst (update_status code statuses m) of
      Inl e \<Rightarrow> comm_state (snd (update_status code statuses m)) = comm_state m \<and>
        map_option status_number (find (\<lambda>s. status_goal_id s = goal_id m) statuses) \<noteq> None \<and>
        goal_of code (the (map_option status_number (find (\<lambda>s. status_goal_id s = goal_id m) statuses))) =
          Some (goal_state (snd (update_status code statuses m)))
    | Inr _ \<Rightarrow> True)"
proof (cases rule: update_status_cases [where m = m and statuses = statuses and code = code])
  case (moved s goal states)
  have "progress (comm_state m) \<le> progress (last (comm_state m # states))"
    by (rule sorted_last_le) (use transitions_sorted [OF moved(3)] in simp)
  with moved show ?thesis by simp
next
  case lost
  then show ?thesis by (cases "comm_state m") auto
qed auto

section \<open>Runs of a call\<close>

definition call_ok :: "string \<Rightarrow> ('f, 'r) call \<Rightarrow> bool" where
  "call_ok gid c \<longleftrightarrow> goal_id (machine c) = gid \<and>
     (terminated c \<longleftrightarrow> comm_state (machine c) = DONE) \<and>
     comm_state (machine c) \<notin> {WAITING_FOR_CANCEL_ACK, CLOST} \<and>
     (call_result c \<noteq> None \<longrightarrow> terminated c)"

text \<open>The states a machine can be in, and what an update does to them.\<close>

lemma last_states:
  assumes "transitions comm goal = Inr states"
  shows "last (comm # states) = comm \<and> states = [] \<or>
    last (comm # states) \<in> {CPENDING, CACTIVE, CRECALLING, CPREEMPTING, WAITING_FOR_RESULT}"
proof (cases "states = []")
  case False
  then have "last (comm # states) \<in> set states" by simp
  with transitions_states [OF assms] show ?thesis by blast
qed simp

lemma transitions_DONE: "transitions DONE goal = Inr states \<Longrightarrow> states = []"
  by (cases goal) auto

lemma update_status_states:
  assumes "comm_state m \<notin> {WAITING_FOR_CANCEL_ACK, CLOST}"
  shows "comm_state (snd (update_status code statuses m)) \<notin> {WAITING_FOR_CANCEL_ACK, CLOST}"
    and "comm_state m = DONE \<Longrightarrow> comm_state (snd (update_status code statuses m)) = DONE"
    and "fst (update_status code statuses m) = Inl e \<Longrightarrow>
      comm_state (snd (update_status code statuses m)) = comm_state m"
proof -
  let ?m' = "snd (update_status code statuses m)"
  have "comm_state ?m' \<notin> {WAITING_FOR_CANCEL_ACK, CLOST} \<and> (comm_state m = DONE \<longrightarrow> comm_state ?m' = DONE) \<and>
      (fst (update_status code statuses m) = Inl e \<longrightarrow> comm_state ?m' = comm_state m)"
  proof (cases rule: update_status_cases [where m = m and statuses = statuses and code = code])
    case (moved s goal states)
    have "comm_state ?m' = last (comm_state m # states)" using moved(4) by simp
    moreover have "comm_state m = DONE \<longrightarrow> states = []" using moved(3) transitions_DONE by auto
    moreover have "fst (update_status code statuses m) \<noteq> Inl e" using moved(4) by simp
    ultimately show ?thesis using last_states [OF moved(3)] assms by auto
  qed (use assms in auto)
  then show "comm_state ?m' \<notin> {WAITING_FOR_CANCEL_ACK, CLOST}"
    "comm_state m = DONE \<Longrightarrow> comm_state ?m' = DONE"
    "fst (update_status code statuses m) = Inl e \<Longrightarrow> comm_state ?m' = comm_state m"
    by blast+
qed

lemma call_ok_track_status:
  assumes "call_ok gid c" shows "call_ok gid (track_status code statuses c)"
    and "terminated c \<Longrightarrow> terminated (track_status code statuses c)"
    and "call_result (track_status code statuses c) = call_result c"
    and "feedback_stream (track_status code statuses c) = feedback_stream c"
proof -
  obtain res m where u: "update_status code statuses (machine c) = (res, m)" by fastforce
  have gm: "goal_id m = goal_id (machine c)"
    using update_status_goal_id [of code statuses "machine c"] u by simp
  have "comm_state (machine c) \<notin> {WAITING_FOR_CANCEL_ACK, CLOST}" using assms by (simp add: call_ok_def)
  note st = update_status_states [OF this, of code statuses, unfolded u fst_conv snd_conv]
  have terminal: "comm_is_terminal s \<longleftrightarrow> s = DONE \<or> s = CLOST" for s by (cases s) auto
  show "call_ok gid (track_status code statuses c)"
  proof (cases res)
    case (Inl e)
    with assms gm st(1) st(3) [of e] show ?thesis
      by (auto simp: call_ok_def track_status_def u tracker_raises_def stop_tracking_def)
  next
    case (Inr x)
    with assms gm st(1,2) show ?thesis
      by (auto simp: call_ok_def track_status_def u Let_def terminal)
  qed
  show "call_result (track_status code statuses c) = call_result c"
    "feedback_stream (track_status code statuses c) = feedback_stream c"
    by (simp_all add: track_status_def u tracker_raises_def stop_tracking_def Let_def split: sum.split)
  show "terminated (track_status code statuses c)" if "terminated c"
    unfolding track_status_def u Let_def prod.case tracker_raises_def stop_tracking_def
    using that by (auto split: sum.split)
qed

text \<open>What a result message for this goal does.\<close>

lemma track_result_cases:
  assumes "call_ok gid c"
  obtains (other) "status_goal_id status \<noteq> gid" "track_result code status r c = c"
  | (late) m where "terminated c" "status_goal_id status = gid" "comm_state m = DONE" "goal_id m = gid"
      "track_result code status r c = c\<lparr>machine := m\<rparr>"
  | (raised) m e where "status_goal_id status = gid" "goal_id m = gid"
      "comm_state m = comm_state (machine c)"
      "track_result code status r c = tracker_raises e (c\<lparr>machine := m\<rparr>)"
  | (taken) m where "\<not> terminated c" "status_goal_id status = gid" "goal_id m = gid" "comm_state m = DONE"
      "track_result code status r c =
         c\<lparr>machine := m, call_result := Some r, terminated := True, result_tracking := False\<rparr>"
proof -
  have gid: "goal_id (machine c) = gid" and fin: "terminated c \<longleftrightarrow> comm_state (machine c) = DONE"
    and st: "comm_state (machine c) \<notin> {WAITING_FOR_CANCEL_ACK, CLOST}"
    using assms by (auto simp: call_ok_def)
  show thesis
  proof (cases "status_goal_id status = gid \<and> goal_of code (status_number status) \<noteq> None")
    case False
    then show thesis
      using other raised [of "machine c" ValueError] gid
      by (auto simp: track_result_def update_on_result_status_def)
  next
    case True
    then obtain goal where g: "goal_of code (status_number status) = Some goal" by blast
    let ?m = "(machine c)\<lparr>goal_state := goal\<rparr>"
    obtain res m' where u: "update_status code [status] ?m = (res, m')" by fastforce
    have m': "goal_id m' = gid" using update_status_goal_id [of code "[status]" ?m] u gid by simp
    show thesis
    proof (cases "comm_is_terminal (comm_state (machine c))")
      case t: True
      then have "comm_state (machine c) = DONE" using st by (cases "comm_state (machine c)") auto
      with True t g gid fin late [of ?m] show thesis
        by (simp add: track_result_def update_on_result_status_def)
    next
      case nt: False
      then have nd: "\<not> terminated c" using fin by auto
      show thesis
      proof (cases res)
        case (Inl e)
        with update_status_states(3) [of ?m code "[status]" e] u st have "comm_state m' = comm_state (machine c)"
          by simp
        with True nt g gid u Inl m' raised [of m' e] show thesis
          by (simp add: track_result_def update_on_result_status_def Let_def)
      next
        case (Inr x)
        with True nt g gid u m' nd taken [of "m'\<lparr>comm_state := DONE\<rparr>"] show thesis
          by (simp add: track_result_def update_on_result_status_def Let_def)
      qed
    qed
  qed
qed

lemma call_ok_perform:
  assumes "call_ok gid c" shows "call_ok gid (perform code ev c)"
proof (cases ev)
  case (StatusMsg statuses)
  with call_ok_track_status(1) [OF assms] show ?thesis by simp
next
  case (FeedbackMsg status f)
  with assms show ?thesis by (auto simp: track_feedback_def call_ok_def)
next
  case (ResultMsg status r)
  show ?thesis
    by (cases rule: track_result_cases [OF assms, where status = status and r = r and code = code])
      (use assms ResultMsg in \<open>auto simp: call_ok_def tracker_raises_def stop_tracking_def\<close>)
next
  case Finish
  with assms show ?thesis by (auto simp: call_ok_def stop_tracking_def)
qed

text \<open>Once \<open>terminated\<close> is set the answer of \<open>wait_for_result\<close> is final.\<close>

lemma wait_final_perform:
  assumes "call_ok gid c" "wait_for_result c = Some x"
  shows "wait_for_result (perform code ev c) = Some x"
proof (cases ev)
  case (StatusMsg statuses)
  with assms call_ok_track_status(2,3) [OF assms(1)] show ?thesis
    by (simp add: wait_for_result_def split: if_splits)
next
  case (FeedbackMsg status f)
  with assms show ?thesis by (simp add: track_feedback_def wait_for_result_def split: if_splits)
next
  case (ResultMsg status r)
  show ?thesis
    by (cases rule: track_result_cases [OF assms(1), where status = status and r = r and code = code])
      (use assms ResultMsg in \<open>auto simp: wait_for_result_def tracker_raises_def stop_tracking_def
        split: if_splits\<close>)
next
  case Finish
  with assms show ?thesis by (simp add: wait_for_result_def stop_tracking_def split: if_splits)
qed

lemma call_ok_steps: "call_steps code evs c c' \<Longrightarrow> call_ok gid c \<Longrightarrow> call_ok gid c'"
  by (induction rule: call_steps.induct) (auto intro: call_ok_perform)

lemma wait_final_steps:
  "call_steps code evs c c' \<Longrightarrow> call_ok gid c \<Longrightarrow> wait_for_result c = Some x \<Longrightarrow>
     wait_for_result c' = Some x"
  by (induction rule: call_steps.induct) (auto intro: call_ok_perform wait_final_perform)

lemma call_ok_new: "call_ok gid (new_call gid)"
  by (simp add: call_ok_def new_call_def new_machine_def)

lemma call_steps_append:
  "call_steps code evs c c' \<Longrightarrow> call_steps code evs' c' c'' \<Longrightarrow> call_steps code (evs @ evs') c c''"
  by (induction rule: call_steps.induct) auto

lemma result_from_message:
  "call_steps code evs c c' \<Longrightarrow> call_ok gid c \<Longrightarrow> call_result c' = Some r \<Longrightarrow> call_result c = None \<Longrightarrow>
     \<exists>before status after. evs = before @ ResultMsg status r # after \<and> status_goal_id status = gid"
proof (induction rule: call_steps.induct)
  case (call_step ev c evs c')
  show ?case
  proof (cases "call_result (perform code ev c)")
    case None
    with call_step.IH call_step.prems call_ok_perform obtain before status after where
      "evs = before @ ResultMsg status r # after" "status_goal_id status = gid" by blast
    then show ?thesis by (intro exI [of _ "ev # before"]) auto
  next
    case (Some r')
    then obtain status where ev: "ev = ResultMsg status r'" "status_goal_id status = gid"
    proof (cases ev)
      case (ResultMsg status r'')
      with Some call_step.prems(1,3) that show thesis
        by (cases rule: track_result_cases [OF call_step.prems(1), where status = status and r = r'' and code = code])
          (auto simp: tracker_raises_def stop_tracking_def)
    qed (use call_step.prems call_ok_track_status(3) [OF call_step.prems(1)] in
        \<open>auto simp: track_feedback_def stop_tracking_def split: if_splits\<close>)
    have ok: "call_ok gid (perform code ev c)" by (rule call_ok_perform [OF call_step.prems(1)])
    then have "wait_for_result (perform code ev c) = Some (Some r')"
      using Some by (auto simp: call_ok_def wait_for_result_def)
    from wait_final_steps [OF call_step.hyps(2) ok this] call_step.prems(2) have "r' = r"
      by (simp add: wait_for_result_def split: if_splits)
    with ev show ?thesis by (intro exI [of _ "[]"]) auto
  qed
qed simp

fun feedback_for :: "string \<Rightarrow> ('f, 'r) call_event \<Rightarrow> 'f option" where
  "feedback_for gid (FeedbackMsg status f) = (if status_goal_id status = gid then Some f else None)"
| "feedback_for gid _ = None"

lemma feedback_perform:
  assumes "call_ok gid c"
  shows "feedback_stream (perform code ev c) =
    feedback_stream c @ (case feedback_for gid ev of None \<Rightarrow> [] | Some f \<Rightarrow> [f])"
proof (cases ev)
  case (StatusMsg statuses)
  with call_ok_track_status(4) [OF assms] show ?thesis by simp
next
  case (FeedbackMsg status f)
  with assms show ?thesis by (simp add: track_feedback_def call_ok_def)
next
  case (ResultMsg status r)
  show ?thesis
    by (cases rule: track_result_cases [OF assms, where status = status and r = r and code = code])
      (use ResultMsg in \<open>auto simp: tracker_raises_def stop_tracking_def\<close>)
next
  case Finish
  then show ?thesis by (simp add: stop_tracking_def)
qed

lemma feedback_steps:
  "call_steps code evs c c' \<Longrightarrow> call_ok gid c \<Longrightarrow>
     feedback_stream c' = feedback_stream c @ List.map_filter (feedback_for gid) evs"
proof (induction rule: call_steps.induct)
  case (call_step ev c evs c')
  with call_ok_perform feedback_perform [OF call_step.prems, of code ev] show ?case
    by (auto simp: List.map_filter_simps split: option.splits)
qed (simp add: List.map_filter_simps)

text \<open>The same with a user who takes feedback in between (\<^const>\<open>None\<close> among the events).\<close>

inductive followed ::
    "(goal_state \<Rightarrow> int) \<Rightarrow> ('f, 'r) call_event option list \<Rightarrow> ('f, 'r) call \<Rightarrow> 'f list \<Rightarrow> ('f, 'r) call \<Rightarrow> bool"
  for code :: "goal_state \<Rightarrow> int" where
  follow_stop: "followed code [] c [] c"
| follow_step: "enabled ev c \<Longrightarrow> followed code evs (perform code ev c) got c' \<Longrightarrow> followed code (Some ev # evs) c got c'"
| follow_take: "provide_feedback c = Some (f, c1) \<Longrightarrow> followed code evs c1 got c' \<Longrightarrow>
    followed code (None # evs) c (f # got) c'"

lemma feedback_followed:
  "followed code evs c got c' \<Longrightarrow> call_ok gid c \<Longrightarrow>
     got @ feedback_stream c' = feedback_stream c @ List.map_filter (\<lambda>ev. Option.bind ev (feedback_for gid)) evs"
proof (induction rule: followed.induct)
  case (follow_step ev c evs got c')
  with call_ok_perform feedback_perform [OF follow_step.prems, of code ev] show ?case
    by (auto simp: List.map_filter_simps split: option.splits)
next
  case (follow_take c f c1 evs got c')
  then have "call_ok gid c1" "feedback_stream c = f # feedback_stream c1"
    by (auto simp: provide_feedback_def call_ok_def split: list.splits)
  with follow_take.IH show ?case by (simp add: List.map_filter_simps)
qed (simp add: List.map_filter_simps)

section \<open>Properties of a call\<close>

text \<open>The numbers of \<open>actionlib_msgs/GoalStatus\<close>, for the witnesses.\<close>

fun ros_code :: "goal_state \<Rightarrow> int" where
  "ros_code PENDING = 0"
| "ros_code ACTIVE = 1"
| "ros_code PREEMPTED = 2"
| "ros_code SUCCEEDED = 3"
| "ros_code ABORTED = 4"
| "ros_code REJECTED = 5"
| "ros_code PREEMPTING = 6"
| "ros_code RECALLING = 7"
| "ros_code RECALLED = 8"
| "ros_code LOST = 9"

lemma inj_ros_code: "inj ros_code"
proof (rule injI)
  fix x y show "ros_code x = ros_code y \<Longrightarrow> x = y" by (cases x; cases y) simp_all
qed

abbreviation goal_7 :: "int \<Rightarrow> goal_status" where
  "goal_7 n \<equiv> \<lparr>status_goal_id = ''7'', status_number = n\<rparr>"

definition demo_events :: "(string, string) call_event list" where
  "demo_events =
     [StatusMsg [goal_7 1], FeedbackMsg (goal_7 1) ''half'',
      FeedbackMsg \<lparr>status_goal_id = ''8'', status_number = 1\<rparr> ''alien'', ResultMsg (goal_7 3) ''done'']"

definition demo_end :: "(string, string) call" where
  "demo_end = fold (perform ros_code) demo_events (new_call ''7'')"

lemmas call_eval =
  track_status_def track_feedback_def track_result_def update_status_def update_on_result_status_def
  goal_of_def goal_states_def new_call_def new_machine_def tracker_raises_def stop_tracking_def Let_def

lemma demo_steps: "call_steps ros_code demo_events (new_call ''7'') demo_end"
  by (simp add: demo_end_def demo_events_def) (simp add: call_eval)

text \<open>C10: At any point of any run of a call, \<open>wait_for_result\<close> has returned exactly when the
  communication state is \<open>DONE\<close>; what it returned is what it returns from then on; a result it
  returns is one of the received result messages for this goal; and the feedback handed on is the
  feedback received for this goal, in order.\<close>

theorem call_run:
  assumes "call_steps code evs (new_call gid) c" and "call_steps code evs' c c'"
  shows "(wait_for_result c \<noteq> None \<longleftrightarrow> comm_state (machine c) = DONE) \<and>
    (wait_for_result c \<noteq> None \<longrightarrow> wait_for_result c' = wait_for_result c) \<and>
    (\<forall>r. wait_for_result c = Some (Some r) \<longrightarrow>
       (\<exists>before status after. evs = before @ ResultMsg status r # after \<and> status_goal_id status = gid)) \<and>
    feedback_stream c = List.map_filter (feedback_for gid) evs"
proof -
  have ok: "call_ok gid c" by (rule call_ok_steps [OF assms(1) call_ok_new])
  have "call_result (new_call gid) = None" "feedback_stream (new_call gid) = []"
    by (simp_all add: new_call_def)
  moreover have "wait_for_result c' = wait_for_result c" if "wait_for_result c \<noteq> None"
    using that wait_final_steps [OF assms(2) ok] by auto
  ultimately show ?thesis
    using ok result_from_message [OF assms(1) call_ok_new] feedback_steps [OF assms(1) call_ok_new]
    by (auto simp: call_ok_def wait_for_result_def)
qed

theorem call_run_witness:
  "wait_for_result demo_end = Some (Some ''done'') \<and> feedback_stream demo_end = [''half'']"
proof -
  have "List.map_filter (feedback_for ''7'') demo_events = [''half'']"
    by (simp add: demo_events_def List.map_filter_simps)
  moreover have "wait_for_result demo_end = Some (Some ''done'')"
    by (simp add: demo_end_def demo_events_def wait_for_result_def) (simp add: call_eval)
  ultimately show ?thesis
    using call_run [OF demo_steps call_stop] by simp
qed



text \<open>C40: An order of messages the table does not foresee is fatal, in spite of the handler for
  it in \<open>update_status\<close>: after an active goal is reported pending, the tracker of the call raises
  and \<open>wait_for_result\<close> never returns.\<close>

theorem refused_status_fatal:
  assumes "inj code"
    and "call_steps code (StatusMsg [\<lparr>status_goal_id = gid, status_number = code ACTIVE\<rparr>] #
      StatusMsg [\<lparr>status_goal_id = gid, status_number = code PENDING\<rparr>] # evs) (new_call gid) c"
  shows "evs = [] \<and> failure c = Some InvalidTransitionError \<and> wait_for_result c = None \<and>
    goal_state (machine c) = PENDING \<and> comm_state (machine c) = CACTIVE"
proof -
  let ?c2 = "track_status code [\<lparr>status_goal_id = gid, status_number = code PENDING\<rparr>]
    (track_status code [\<lparr>status_goal_id = gid, status_number = code ACTIVE\<rparr>] (new_call gid))"
  have c2: "?c2 = (stop_tracking (new_call gid))\<lparr>failure := Some InvalidTransitionError,
      machine := \<lparr>goal_id = gid, goal_state = PENDING, comm_state = CACTIVE\<rparr>\<rparr>"
    by (simp add: track_status_def update_status_def goal_of_code [OF assms(1)] new_call_def
        new_machine_def Let_def tracker_raises_def stop_tracking_def)
  from assms(2) have "call_steps code evs ?c2 c" by simp
  then have "evs = []" and "c = ?c2"
    unfolding c2 by (cases rule: call_steps.cases; cases "hd evs";
      simp add: stop_tracking_def new_call_def)+
  then show ?thesis unfolding c2 by (simp add: wait_for_result_def new_call_def stop_tracking_def)
qed

theorem refused_status_fatal_witness:
  "wait_for_result (perform ros_code (StatusMsg [goal_7 0])
     (perform ros_code (StatusMsg [goal_7 1]) (new_call ''7'' :: (string, string) call))) = None"
proof -
  have "call_steps ros_code (StatusMsg [goal_7 (ros_code ACTIVE)] # StatusMsg [goal_7 (ros_code PENDING)] # [])
      (new_call ''7'') (perform ros_code (StatusMsg [goal_7 0])
        (perform ros_code (StatusMsg [goal_7 1]) (new_call ''7'' :: (string, string) call)))"
    by simp (simp add: call_eval)
  from refused_status_fatal [OF inj_ros_code this] show ?thesis by simp
qed

end
