(* ===== verification/Node_Time.thy ===== *)
theory Node_Time
  imports Node_Parameters
begin

text \<open>
  The clocks of a node, \<open>aioros/_node/_time.py\<close>, and \<open>every\<close> and \<open>init_time\<close> of
  \<open>_node.py\<close>. A \<open>Time\<close> or \<open>Duration\<close> of genpy is its number of nanoseconds.
\<close>

type_synonym time = int

section \<open>The simulated clock\<close>

text \<open>
  \<open>SimTimeManager\<close> with its calls of \<open>sleep\<close>, each under a number. A sleeper is about to
  look at the clock (\<open>Looping\<close>), waits to enter the condition (\<open>Entering\<close>), waits to be
  notified (\<open>Waiting\<close>), or has returned. The task \<open>run\<close> sets the time and then waits for the
  lock before it notifies; it reads the next message after that. In which order those waiting get the
  lock is left open.
\<close>

datatype phase = Looping | Entering | Waiting | Returned

record sleeper =
  sleep_end :: time
  sleep_phase :: phase

record sim_clock =
  sim_time :: time
  sim_notifying :: bool
  sleepers :: "nat \<Rightarrow> sleeper option"

text \<open>\<open>init_time\<close> returns once \<open>run\<close> has taken the first message, which it does not notify of.\<close>

definition first_clock :: "time \<Rightarrow> sim_clock" where
  "first_clock t = \<lparr>sim_time = t, sim_notifying = False, sleepers = (\<lambda>i. None)\<rparr>"

definition start_sleep :: "nat \<Rightarrow> time \<Rightarrow> sim_clock \<Rightarrow> sim_clock" where
  "start_sleep i duration s =
     s\<lparr>sleepers := (sleepers s)(i \<mapsto> \<lparr>sleep_end = sim_time s + duration, sleep_phase = Looping\<rparr>)\<rparr>"

definition clock_message :: "time \<Rightarrow> sim_clock \<Rightarrow> sim_clock" where
  "clock_message t s = s\<lparr>sim_time := t, sim_notifying := True\<rparr>"

definition wake :: "sleeper \<Rightarrow> sleeper" where
  "wake sl = (if sleep_phase sl = Waiting then sl\<lparr>sleep_phase := Looping\<rparr> else sl)"

definition notify_sleepers :: "sim_clock \<Rightarrow> sim_clock" where
  "notify_sleepers s = s\<lparr>sim_notifying := False, sleepers := (\<lambda>i. map_option wake (sleepers s i))\<rparr>"

definition go_on :: "time \<Rightarrow> sleeper \<Rightarrow> sleeper" where
  "go_on now sl =
     (case sleep_phase sl of
        Looping \<Rightarrow> sl\<lparr>sleep_phase := (if sleep_end sl > now then Entering else Returned)\<rparr>
      | Entering \<Rightarrow> sl\<lparr>sleep_phase := (if sleep_end sl < now then Returned else Waiting)\<rparr>
      | _ \<Rightarrow> sl)"

definition sleep_on :: "nat \<Rightarrow> sim_clock \<Rightarrow> sim_clock" where
  "sleep_on i s = s\<lparr>sleepers := (sleepers s)(i := map_option (go_on (sim_time s)) (sleepers s i))\<rparr>"

definition phase_of :: "nat \<Rightarrow> sim_clock \<Rightarrow> phase option" where
  "phase_of i s = map_option sleep_phase (sleepers s i)"

datatype clock_event = ClockMsg time | Notify | Sleep nat time | Sleeper nat

inductive clock_step :: "clock_event \<Rightarrow> sim_clock \<Rightarrow> sim_clock \<Rightarrow> bool" where
  clock_msg: "\<not> sim_notifying s \<Longrightarrow> clock_step (ClockMsg t) s (clock_message t s)"
| clock_notify: "sim_notifying s \<Longrightarrow> clock_step Notify s (notify_sleepers s)"
| clock_sleep: "sleepers s i = None \<Longrightarrow> clock_step (Sleep i duration) s (start_sleep i duration s)"
| clock_sleeper: "phase_of i s \<in> {Some Looping, Some Entering} \<Longrightarrow> clock_step (Sleeper i) s (sleep_on i s)"

inductive clock_run :: "clock_event list \<Rightarrow> sim_clock \<Rightarrow> sim_clock \<Rightarrow> bool" where
  clock_stop: "clock_run [] s s"
| clock_more: "clock_step ev s t \<Longrightarrow> clock_run evs t u \<Longrightarrow> clock_run (ev # evs) s u"

inductive_cases clock_stepE [elim]: "clock_step ev s t"
inductive_simps clock_run_Nil [simp]: "clock_run [] s t"
inductive_simps clock_run_Cons: "clock_run (ev # evs) s t"

lemmas clock_simps = clock_message_def notify_sleepers_def sleep_on_def start_sleep_def go_on_def wake_def
  phase_of_def

fun clock_times :: "clock_event list \<Rightarrow> time list" where
  "clock_times [] = []"
| "clock_times (ClockMsg t # evs) = t # clock_times evs"
| "clock_times (_ # evs) = clock_times evs"

text \<open>
  What a sleeper may rely on, after it was called to sleep until \<open>e\<close>: it is there and its end stays;
  if it waits for a notification while none is on its way, the clock has not passed its end. When the
  clock runs forwards, it has only returned when its time had come.
\<close>

definition never_missed :: "nat \<Rightarrow> time \<Rightarrow> sim_clock \<Rightarrow> bool" where
  "never_missed i e s \<longleftrightarrow>
     (\<exists>sl. sleepers s i = Some sl \<and> sleep_end sl = e \<and>
        (sleep_phase sl = Waiting \<and> \<not> sim_notifying s \<longrightarrow> sim_time s \<le> e))"

definition not_early :: "nat \<Rightarrow> time \<Rightarrow> sim_clock \<Rightarrow> bool" where
  "not_early i e s \<longleftrightarrow> (phase_of i s = Some Returned \<longrightarrow> e \<le> sim_time s)"

lemma sleep_end_kept [simp]: "sleep_end (wake sl) = sleep_end sl" "sleep_end (go_on now sl) = sleep_end sl"
  by (simp_all add: wake_def go_on_def split: phase.split)

lemma clock_step_sleeper:
  assumes "clock_step ev s t" and "sleepers s i = Some sl"
  obtains (message) now where "ev = ClockMsg now" "sleepers t i = Some sl" "sim_time t = now" "sim_notifying t"
    | (notified) "ev = Notify" "sleepers t i = Some (wake sl)" "sim_time t = sim_time s"
    | (other) "clock_times [ev] = []" "sleepers t i = Some sl" "sim_time t = sim_time s" "sim_notifying t = sim_notifying s"
    | (own) "ev = Sleeper i" "sleepers t i = Some (go_on (sim_time s) sl)" "sim_time t = sim_time s"
        "sim_notifying t = sim_notifying s"
  using assms(1)
proof cases
  case (clock_msg now)
  with assms(2) message show thesis by (simp add: clock_message_def)
next
  case clock_notify
  with assms(2) notified show thesis by (simp add: notify_sleepers_def)
next
  case (clock_sleep j duration)
  with assms(2) have "j \<noteq> i" by auto
  with clock_sleep assms(2) other show thesis by (simp add: start_sleep_def)
next
  case (clock_sleeper j)
  with assms(2) own other show thesis by (cases "j = i") (simp_all add: sleep_on_def)
qed

lemma never_missed_step:
  assumes "clock_step ev s t" "never_missed i e s"
  shows "never_missed i e t"
proof -
  obtain sl where sl: "sleepers s i = Some sl" "sleep_end sl = e"
    "sleep_phase sl = Waiting \<Longrightarrow> \<not> sim_notifying s \<Longrightarrow> sim_time s \<le> e"
    using assms(2) by (auto simp: never_missed_def)
  from assms(1) sl(1) show ?thesis
    by (cases rule: clock_step_sleeper)
      (use sl in \<open>auto simp: never_missed_def wake_def go_on_def split: phase.splits if_splits\<close>)
qed

lemma never_missed_run: "clock_run evs s t \<Longrightarrow> never_missed i e s \<Longrightarrow> never_missed i e t"
  by (induction rule: clock_run.induct) (auto dest: never_missed_step)

lemma not_early_step:
  assumes "clock_step ev s t" "never_missed i e s" "not_early i e s" "sorted (sim_time s # clock_times [ev])"
  shows "not_early i e t"
proof -
  obtain sl where sl: "sleepers s i = Some sl" "sleep_end sl = e" "sleep_phase sl = Returned \<Longrightarrow> e \<le> sim_time s"
    using assms(2,3) by (auto simp: never_missed_def not_early_def phase_of_def)
  from assms(1) sl(1) show ?thesis
    by (cases rule: clock_step_sleeper)
      (use sl assms(4) in \<open>auto simp: not_early_def phase_of_def wake_def go_on_def split: phase.splits if_splits\<close>)
qed

lemma not_early_run:
  "clock_run evs s t \<Longrightarrow> never_missed i e s \<Longrightarrow> not_early i e s \<Longrightarrow> sorted (sim_time s # clock_times evs) \<Longrightarrow>
     not_early i e t"
proof (induction rule: clock_run.induct)
  case (clock_more ev s t evs u)
  from clock_more.prems(3) have "sorted (sim_time s # clock_times [ev])" by (cases ev) auto
  with clock_more have "not_early i e t" by (blast intro: not_early_step)
  moreover from clock_more.hyps(1) clock_more.prems(1) have "never_missed i e t" by (rule never_missed_step)
  moreover from clock_more.hyps(1) clock_more.prems(3) have "sorted (sim_time t # clock_times evs)"
    by (auto simp: clock_simps)
  ultimately show ?case by (intro clock_more.IH)
qed

lemma started: "clock_run (Sleep i duration # evs) s t \<Longrightarrow>
    clock_run evs (start_sleep i duration s) t \<and> never_missed i (sim_time s + duration) (start_sleep i duration s) \<and>
    not_early i (sim_time s + duration) (start_sleep i duration s) \<and> sim_time (start_sleep i duration s) = sim_time s"
  by (auto simp: clock_run_Cons never_missed_def not_early_def clock_simps)

text \<open>C31: On a simulated clock that runs forwards, \<open>sleep\<close> never returns before its time, whenever it
  is called and however many others sleep.\<close>

theorem sleep_not_early:
  assumes "clock_run (Sleep i duration # evs) s t" and "sorted (sim_time s # clock_times evs)"
    and "phase_of i t = Some Returned"
  shows "sim_time s + duration \<le> sim_time t"
proof -
  have "not_early i (sim_time s + duration) t"
    using started [OF assms(1)] not_early_run [of evs "start_sleep i duration s" t i "sim_time s + duration"] assms(2)
    by simp
  with assms(3) show ?thesis by (simp add: not_early_def)
qed

text \<open>Runs are computed.\<close>

fun clock_enabled :: "clock_event \<Rightarrow> sim_clock \<Rightarrow> bool" where
  "clock_enabled (ClockMsg t) s = (\<not> sim_notifying s)"
| "clock_enabled Notify s = sim_notifying s"
| "clock_enabled (Sleep i duration) s = (sleepers s i = None)"
| "clock_enabled (Sleeper i) s = (phase_of i s \<in> {Some Looping, Some Entering})"

fun clock_perform :: "clock_event \<Rightarrow> sim_clock \<Rightarrow> sim_clock" where
  "clock_perform (ClockMsg t) s = clock_message t s"
| "clock_perform Notify s = notify_sleepers s"
| "clock_perform (Sleep i duration) s = start_sleep i duration s"
| "clock_perform (Sleeper i) s = sleep_on i s"

fun can_run :: "clock_event list \<Rightarrow> sim_clock \<Rightarrow> bool" where
  "can_run [] s \<longleftrightarrow> True"
| "can_run (ev # evs) s \<longleftrightarrow> clock_enabled ev s \<and> can_run evs (clock_perform ev s)"

lemma clock_step_iff: "clock_step ev s t \<longleftrightarrow> clock_enabled ev s \<and> t = clock_perform ev s"
  by (cases ev) (auto intro: clock_step.intros)

lemma clock_run_iff: "clock_run evs s t \<longleftrightarrow> can_run evs s \<and> t = fold clock_perform evs s"
  by (induction evs arbitrary: s) (auto simp: clock_run_Cons clock_step_iff)

text \<open>Two sleepers, of which the second is called later and returns earlier.\<close>

definition demo_events :: "clock_event list" where
  "demo_events =
     [Sleep 0 5, Sleeper 0, Sleeper 0, ClockMsg 3, Sleep 1 1, Notify, Sleeper 0, Sleeper 1, Sleeper 0, Sleeper 1,
      ClockMsg 5, Notify, Sleeper 1, Sleeper 0]"

definition demo_clock :: sim_clock where
  "demo_clock = fold clock_perform demo_events (first_clock 0)"

lemma demo_clock_run: "clock_run demo_events (first_clock 0) demo_clock"
  by (simp add: clock_run_iff demo_clock_def) code_simp

theorem sleep_not_early_witness:
  "phase_of 0 demo_clock = Some Returned \<and> sim_time (first_clock 0) + 5 \<le> sim_time demo_clock"
proof -
  have "phase_of 0 demo_clock = Some Returned" by code_simp
  moreover have "sorted (sim_time (first_clock 0) # clock_times (tl demo_events))"
    by (simp add: demo_events_def first_clock_def)
  moreover have "clock_run (Sleep 0 5 # tl demo_events) (first_clock 0) demo_clock"
    using demo_clock_run by (simp add: demo_events_def)
  ultimately show ?thesis using sleep_not_early by blast
qed

text \<open>C32: A sleeper is woken: whatever happened since it was called, once the clock is past its time and
  has sent its notification, it returns within two steps of its own.\<close>

theorem sleep_wakes:
  assumes "clock_run (Sleep i duration # evs) s t" and "sim_time s + duration < sim_time t"
    and "\<not> sim_notifying t"
  shows "phase_of i (sleep_on i (sleep_on i t)) = Some Returned"
proof -
  have "never_missed i (sim_time s + duration) t"
    using started [OF assms(1)] never_missed_run by blast
  then obtain sl where "sleepers t i = Some sl" "sleep_end sl = sim_time s + duration" "sleep_phase sl \<noteq> Waiting"
    using assms(2,3) by (auto simp: never_missed_def)
  with assms(2) show ?thesis by (cases "sleep_phase sl") (simp_all add: clock_simps)
qed

theorem sleep_wakes_witness:
  "\<exists>s. clock_run [Sleep 0 5, Sleeper 0, Sleeper 0, ClockMsg 6, Notify] (first_clock 0) s \<and>
     phase_of 0 (sleep_on 0 (sleep_on 0 s)) = Some Returned"
proof -
  let ?evs = "[Sleep 0 5, Sleeper 0, Sleeper 0, ClockMsg 6, Notify]" and ?s = "first_clock 0"
  have "can_run ?evs ?s" by code_simp
  then have run: "clock_run ?evs ?s (fold clock_perform ?evs ?s)" by (simp add: clock_run_iff)
  moreover have "sim_time ?s + 5 < sim_time (fold clock_perform ?evs ?s) \<and> \<not> sim_notifying (fold clock_perform ?evs ?s)"
    by code_simp
  ultimately show ?thesis using sleep_wakes [OF run] by blast
qed

section \<open>Ticking\<close>

text \<open>
  One turn of \<open>every\<close>, from the planned start to the time the consumer comes back: the next planned
  start, and how long to sleep (not at all when the loop is too slow).
\<close>

definition every_turn :: "time \<Rightarrow> time \<Rightarrow> time \<Rightarrow> time \<times> time option" where
  "every_turn duration start end_time =
     (let elapsed = end_time - start in
      if elapsed > duration then (end_time, None)
      else (end_time + duration - elapsed, Some (duration - elapsed)))"

text \<open>
  What is yielded, and when the consumer comes back, tick by tick: the first tick is not before the
  start, the next one not before the sleep is over, and the consumer comes back later than it was called.
\<close>

fun ticking :: "time \<Rightarrow> time \<Rightarrow> (time \<times> time) list \<Rightarrow> bool" where
  "ticking duration start [] \<longleftrightarrow> True"
| "ticking duration start ((now, end_time) # ticks) \<longleftrightarrow>
     start \<le> now \<and> now \<le> end_time \<and>
     (let (start', pause) = every_turn duration start end_time in
      ticking duration start' ticks \<and>
      (case (pause, ticks) of
         (Some p, (now', _) # _) \<Rightarrow> end_time + p \<le> now'
       | (None, (now', _) # _) \<Rightarrow> end_time \<le> now'
       | _ \<Rightarrow> True))"

text \<open>The planned starts, when the consumer is never too slow: a fixed grid.\<close>

fun planned :: "time \<Rightarrow> time \<Rightarrow> (time \<times> time) list \<Rightarrow> time list" where
  "planned duration start [] = []"
| "planned duration start ((now, end_time) # ticks) =
     start # planned duration (fst (every_turn duration start end_time)) ticks"

lemma ticking_planned:
  "ticking duration start ticks \<Longrightarrow> i < length ticks \<Longrightarrow>
     planned duration start ticks ! i \<le> fst (ticks ! i) \<and> start + int i * duration \<le> planned duration start ticks ! i"
proof (induction duration start ticks arbitrary: i rule: planned.induct)
  case (2 duration start now end_time ticks)
  let ?start = "fst (every_turn duration start end_time)"
  have next_start: "start + duration \<le> ?start" using 2(2) by (auto simp: every_turn_def Let_def)
  show ?case
  proof (cases i)
    case (Suc j)
    have "ticking duration ?start ticks" using 2(2) by (auto simp: case_prod_beta Let_def)
    from 2(1) [OF this, of j] 2(3) Suc next_start show ?thesis by (simp add: algebra_simps)
  qed (use 2 in simp)
qed simp

lemma planned_grid:
  "ticking duration start ticks \<Longrightarrow> \<forall>i<length ticks. snd (ticks ! i) - planned duration start ticks ! i \<le> duration \<Longrightarrow>
     i < length ticks \<Longrightarrow> planned duration start ticks ! i = start + int i * duration"
proof (induction duration start ticks arbitrary: i rule: planned.induct)
  case (2 duration start now end_time ticks)
  let ?start = "fst (every_turn duration start end_time)"
  have "end_time - start \<le> duration" using 2(3) by force
  then have next_start: "?start = start + duration" by (simp add: every_turn_def Let_def)
  show ?case
  proof (cases i)
    case (Suc j)
    have "ticking duration ?start ticks" using 2(2) by (auto simp: case_prod_beta Let_def)
    moreover have "\<forall>i<length ticks. snd (ticks ! i) - planned duration ?start ticks ! i \<le> duration"
      using 2(3) by force
    ultimately show ?thesis
      using 2(1) [of j] 2(4) Suc next_start by (simp add: algebra_simps)
  qed simp
qed simp

text \<open>C33: \<open>every\<close> never ticks too often and does not drift: the tick with number \<open>i\<close> comes at or after
  \<open>start + i * duration\<close>; and as long as the consumer is done before the next tick is due, it
  also comes, and is dealt with, before \<open>start + (i + 1) * duration\<close>, however late single ticks were.\<close>

theorem every_keeps_time:
  assumes "ticking duration start ticks" and "i < length ticks"
  shows "start + int i * duration \<le> fst (ticks ! i) \<and>
    ((\<forall>j<length ticks. snd (ticks ! j) - planned duration start ticks ! j \<le> duration) \<longrightarrow>
       snd (ticks ! i) \<le> start + (int i + 1) * duration)"
proof (intro conjI impI)
  from ticking_planned [OF assms] show "start + int i * duration \<le> fst (ticks ! i)" by linarith
  assume fast: "\<forall>j<length ticks. snd (ticks ! j) - planned duration start ticks ! j \<le> duration"
  with planned_grid [OF assms(1) fast assms(2)] assms(2)
  show "snd (ticks ! i) \<le> start + (int i + 1) * duration" by (force simp: algebra_simps)
qed

theorem every_keeps_time_witness:
  "0 + int 2 * 10 \<le> fst ([(0, 4), (12, 15), (20, 29)] ! 2) \<and> snd ([(0, 4), (12, 15), (20, 29)] ! 2) \<le> 0 + (int 2 + 1) * (10 :: time)"
proof -
  let ?ticks = "[(0, 4), (12, 15), (20, 29)] :: (time \<times> time) list"
  have "ticking 10 0 ?ticks" by (simp add: every_turn_def)
  moreover have "\<forall>j<length ?ticks. snd (?ticks ! j) - planned 10 0 ?ticks ! j \<le> 10"
    by (simp add: every_turn_def All_less_Suc)
  ultimately show ?thesis using every_keeps_time [of 10 0 ?ticks 2] by simp
qed

section \<open>Which clock\<close>

text \<open>\<open>bool(value)\<close> of Python.\<close>

fun truthy :: "pyval \<Rightarrow> bool" where
  "truthy PNone = False"
| "truthy (PBool b) = b"
| "truthy (PInt i) = (i \<noteq> 0)"
| "truthy (PFloat r) = (r \<notin> {''0.0'', ''-0.0''})"
| "truthy (PStr s) = (s \<noteq> [])"
| "truthy (PBytes bs) = (bs \<noteq> [])"
| "truthy (PBinary bs) = (bs \<noteq> [])"
| "truthy (PDateTime d) = True"
| "truthy (PList vs) = (vs \<noteq> [])"
| "truthy (PDict d) = (d \<noteq> [])"

datatype time_manager = WallTime | SimTime

definition init_time :: "ros_node \<Rightarrow> time_manager node_call" where
  "init_time n w =
     bind_outcome (get_param_default n ''/use_sim_time'' (PBool False) w) (\<lambda>v w'.
       (Inr (if truthy v then SimTime else WallTime), w'))"

end
