(* ===== verification/Action_Client.thy ===== *)
theory Action_Client
  imports Node_Process Action_Call Node_Time
begin

text \<open>
  \<open>ActionClient\<close> of \<open>aioros/_node/_action/_client.py\<close>: entering and leaving, goals,
  cancellations, on the publications and subscriptions of the node's registry and the master.

  The generated message classes are parameters: how a goal or a \<open>GoalID\<close> is made into a message
  and serialised. The \<open>uuid4\<close> of a goal is an argument, and so are the numbers of the streams of
  the subscriptions a call makes for itself (\<open>clone\<close>).
\<close>

section \<open>On a topic of the registry\<close>

type_synonym 'm hub = "'m node_registry \<times> world"

definition on_publication ::
    "string \<Rightarrow> (publication \<times> world \<Rightarrow> ('a, publication \<times> world) outcome) \<Rightarrow> 'm hub \<Rightarrow> ('a, 'm hub) outcome" where
  "on_publication topic f rw =
     (let (r, w) = rw in
      case map_of (reg_publications r) topic of
        None \<Rightarrow> (Inl (KeyError topic), rw)
      | Some p \<Rightarrow>
          let (res, (p', w')) = f (p, w)
          in (res, (r\<lparr>reg_publications := AList.update topic p' (reg_publications r)\<rparr>, w')))"

definition on_subscription ::
    "string \<Rightarrow> ('m manager \<times> world \<Rightarrow> ('a, 'm manager \<times> world) outcome) \<Rightarrow> 'm hub \<Rightarrow> ('a, 'm hub) outcome" where
  "on_subscription topic f rw =
     (let (r, w) = rw in
      case map_of (reg_subscriptions r) topic of
        None \<Rightarrow> (Inl (KeyError topic), rw)
      | Some m \<Rightarrow>
          let (res, (m', w')) = f (m, w)
          in (res, (r\<lparr>reg_subscriptions := AList.update topic m' (reg_subscriptions r)\<rparr>, w')))"

text \<open>\<open>Subscription.aclose\<close> with nothing in between.\<close>

definition sub_close ::
    "ros_node \<Rightarrow> nat \<Rightarrow> 'm manager \<times> world \<Rightarrow> (unit, 'm manager \<times> world) outcome" where
  "sub_close n stream mw = (let (m, w) = mw in sub_unregister n stream (close_receiving stream m, w))"

definition publish_on ::
    "'b message serializing \<Rightarrow> 'b message \<Rightarrow> publication \<times> world \<Rightarrow> (unit, publication \<times> world) outcome" where
  "publish_on ser msg pw = (let (p, w) = pw; (res, p') = publish ser msg p in (res, (p', w)))"

section \<open>The client\<close>

record action_client =
  goal_topic :: string
  cancel_topic :: string
  status_topic :: string
  feedback_topic :: string
  result_topic :: string
  status_stream :: nat
  feedback_stream_no :: nat
  result_stream :: nat

definition action_enter :: "ros_node \<Rightarrow> action_client \<Rightarrow> 'm hub \<Rightarrow> (unit, 'm hub) outcome" where
  "action_enter n c rw =
     bind_outcome (on_publication (goal_topic c) (pub_enter n) rw) (\<lambda>_ rw.
     bind_outcome (on_publication (cancel_topic c) (pub_enter n) rw) (\<lambda>_ rw.
     bind_outcome (on_subscription (status_topic c) (sub_register n (status_stream c)) rw) (\<lambda>_ rw.
     bind_outcome (on_subscription (feedback_topic c) (sub_register n (feedback_stream_no c)) rw) (\<lambda>_ rw.
       on_subscription (result_topic c) (sub_register n (result_stream c)) rw))))"

definition action_close ::
    "ros_node \<Rightarrow> (nat \<Rightarrow> nat list) \<Rightarrow> action_client \<Rightarrow> 'm hub \<Rightarrow> (unit, 'm hub) outcome" where
  "action_close n woken c rw =
     bind_outcome (on_publication (goal_topic c) (pub_close n woken) rw) (\<lambda>_ rw.
     bind_outcome (on_publication (cancel_topic c) (pub_close n woken) rw) (\<lambda>_ rw.
     bind_outcome (on_subscription (status_topic c) (sub_close n (status_stream c)) rw) (\<lambda>_ rw.
     bind_outcome (on_subscription (feedback_topic c) (sub_close n (feedback_stream_no c)) rw) (\<lambda>_ rw.
       on_subscription (result_topic c) (sub_close n (result_stream c)) rw))))"

text \<open>A goal: the call's trackers subscribe first, one after another, then the goal is published.\<close>

definition send_goal ::
    "ros_node \<Rightarrow> 'b message serializing \<Rightarrow> (string \<Rightarrow> 'b message) \<Rightarrow> string \<Rightarrow> nat \<times> nat \<times> nat \<Rightarrow>
     action_client \<Rightarrow> 'm hub \<Rightarrow> (('f, 'r) call, 'm hub) outcome" where
  "send_goal n ser make_goal gid streams c rw =
     (let (i, j, k) = streams in
      bind_outcome (on_subscription (status_topic c) (sub_register n i) rw) (\<lambda>_ rw.
      bind_outcome (on_subscription (feedback_topic c) (sub_register n j) rw) (\<lambda>_ rw.
      bind_outcome (on_subscription (result_topic c) (sub_register n k) rw) (\<lambda>_ rw.
      bind_outcome (on_publication (goal_topic c) (publish_on ser (make_goal gid)) rw) (\<lambda>_ rw.
        (Inr (new_call gid), rw))))))"

text \<open>\<open>GoalID(stamp, id)\<close>: a call cancels its own goal, the client all goals, or those until a time.\<close>

definition publish_cancel ::
    "'b message serializing \<Rightarrow> (time \<Rightarrow> string \<Rightarrow> 'b message) \<Rightarrow> time \<Rightarrow> string \<Rightarrow> action_client \<Rightarrow>
     'm hub \<Rightarrow> (unit, 'm hub) outcome" where
  "publish_cancel ser make_id stamp gid c =
     on_publication (cancel_topic c) (publish_on ser (make_id stamp gid))"

definition cancel_call ::
    "'b message serializing \<Rightarrow> (time \<Rightarrow> string \<Rightarrow> 'b message) \<Rightarrow> ('f, 'r) call \<Rightarrow> action_client \<Rightarrow>
     'm hub \<Rightarrow> (unit, 'm hub) outcome" where
  "cancel_call ser make_id call = publish_cancel ser make_id 0 (goal_id (machine call))"

definition cancel_all_goals ::
    "'b message serializing \<Rightarrow> (time \<Rightarrow> string \<Rightarrow> 'b message) \<Rightarrow> action_client \<Rightarrow> 'm hub \<Rightarrow> (unit, 'm hub) outcome" where
  "cancel_all_goals ser make_id = publish_cancel ser make_id 0 []"

definition cancel_all_goals_until ::
    "'b message serializing \<Rightarrow> (time \<Rightarrow> string \<Rightarrow> 'b message) \<Rightarrow> time \<Rightarrow> action_client \<Rightarrow> 'm hub \<Rightarrow> (unit, 'm hub) outcome" where
  "cancel_all_goals_until ser make_id stamp = publish_cancel ser make_id stamp []"

text \<open>What \<open>wait_for_server\<close> waits for: someone connected to each publication, and a connected
  publisher of each subscription.\<close>

definition has_subscribers :: "publication \<Rightarrow> bool" where
  "has_subscribers p \<longleftrightarrow> pub_connections p \<noteq> []"

definition server_connected :: "action_client \<Rightarrow> 'm node_registry \<Rightarrow> bool" where
  "server_connected c r \<longleftrightarrow>
     list_all (\<lambda>topic. case map_of (reg_publications r) topic of None \<Rightarrow> False | Some p \<Rightarrow> has_subscribers p)
       [goal_topic c, cancel_topic c] \<and>
     list_all (\<lambda>topic. case map_of (reg_subscriptions r) topic of None \<Rightarrow> False | Some m \<Rightarrow> has_peers m)
       [status_topic c, feedback_topic c, result_topic c]"

section \<open>Sending a goal\<close>

text \<open>A client that has been entered: its topics are in the registry, its subscriptions registered.\<close>

definition entered :: "action_client \<Rightarrow> 'm node_registry \<Rightarrow> bool" where
  "entered c r \<longleftrightarrow>
     map_of (reg_publications r) (goal_topic c) \<noteq> None \<and>
     list_all (\<lambda>topic. case map_of (reg_subscriptions r) topic of None \<Rightarrow> False | Some m \<Rightarrow> sub_registered m)
       [status_topic c, feedback_topic c, result_topic c] \<and>
     distinct [status_topic c, feedback_topic c, result_topic c]"

lemma register_again:
  "map_of (reg_subscriptions r) topic = Some m \<Longrightarrow> sub_registered m \<Longrightarrow>
     on_subscription topic (sub_register n i) (r, w) =
       (Inr (), (r\<lparr>reg_subscriptions := AList.update topic
          (m\<lparr>sub_streams := AList.update i new_stream (sub_streams m)\<rparr>) (reg_subscriptions r)\<rparr>, w))"
  by (simp add: on_subscription_def sub_register_def)

lemma publish_enqueues:
  "fst (publish ser msg p) = Inr () \<Longrightarrow>
     \<exists>data. pub_connections (snd (publish ser msg p)) = map (enqueue data) (pub_connections p)"
  by (cases "serialization_needed p")
    (auto simp: publish_def internal_publish_def Let_def serialization_needed_def
      split: option.splits sum.splits prod.splits)


definition demo_client :: action_client where
  "demo_client =
     \<lparr>goal_topic = ''/a/goal'', cancel_topic = ''/a/cancel'', status_topic = ''/a/status'',
      feedback_topic = ''/a/feedback'', result_topic = ''/a/result'', status_stream = 0,
      feedback_stream_no = 0, result_stream = 0\<rparr>"

definition listening_manager :: "string \<Rightarrow> bytes manager" where
  "listening_manager topic = (new_manager topic demo_type ''/n'')\<lparr>sub_registered := True\<rparr>"

definition demo_hub :: "bytes node_registry" where
  "demo_hub =
     \<lparr>reg_services = [],
      reg_publications = [(''/a/goal'', (new_publication ''/a/goal'' demo_type ''/n'' False)\<lparr>pub_connections := [demo_connection [] []]\<rparr>)],
      reg_subscriptions = map (\<lambda>t. (t, listening_manager t)) [''/a/status'', ''/a/feedback'', ''/a/result'']\<rparr>"

lemma bytes_serialize: "length bs < 2 ^ 32 \<Longrightarrow> \<exists>data. fst (serialize bytes_ser (bytes_message bs) new_buffer) = Inr data"
  using serialize_empty [of bytes_ser "bytes_message bs" bs new_buffer]
  by (simp add: writes_def bytes_ser_def bytes_message_def new_buffer_def encode_frame_def pack_I_def)

lemma publish_bytes: "length bs < 2 ^ 32 \<Longrightarrow> fst (publish bytes_ser (bytes_message bs) p) = Inr ()"
  using bytes_serialize [of bs] by (auto simp: publish_def Let_def) (auto simp: bytes_message_def)


end
