(* ===== verification/Node_Properties.thy ===== *)
theory Node_Properties
  imports Node_Process Master_Properties
begin

text \<open>
  What holds of a node together with the master and with other nodes: its connections follow the
  master's list of publishers, negotiation leads to one of the node's own listeners, the handshake
  accepts and refuses as the types demand, and a topic has one publication.
\<close>

section \<open>Negotiation\<close>

text \<open>Another node's \<open>request_topic\<close>, answered by this node's API.\<close>

definition asking :: "'m process \<Rightarrow> string \<Rightarrow> string \<Rightarrow> topic_request" where
  "asking p caller topic protocols =
     (case fst (requestTopic caller topic (map (map PStr) protocols) p) of
        Inl e \<Rightarrow> Inl RemoteFault
      | Inr (code, msg, v) \<Rightarrow> (case v of PList vs \<Rightarrow> Inr (code, msg, vs) | _ \<Rightarrow> Inl TypeError))"

definition listens_at :: "ros_node \<Rightarrow> string \<Rightarrow> int \<Rightarrow> string \<Rightarrow> bool" where
  "listens_at n host port path \<longleftrightarrow>
     node_tcpros_uri n = format_tcpros_uri host port \<and> node_udsros_uri n = format_udsros_uri host path \<and>
     slash \<notin> set host \<and> CHR '':'' \<notin> set host \<and> prefix ''/'' path \<and>
     \<not> sublist ''udsros://'' (host @ ''/'' @ path)"

lemma select_protocol_listening:
  assumes "listens_at n host port path"
  shows "select_protocol n [[PStr ''UDSROS''], [PStr ''TCPROS'']] =
      Inr (1, [], PList [PStr ''UDSROS'', PStr host, PStr path])"
    and "select_protocol n [[PStr ''TCPROS'']] = Inr (1, [], PList [PStr ''TCPROS'', PStr host, PInt port])"
  using assms split_tcpros_uri_format [of host port] split_udsros_uri_format [of host path]
  by (simp_all add: listens_at_def)

text \<open>A subscriber that negotiates with a node for a topic it publishes connects to that node's own
  listeners: to the Unix socket when both are on the same machine, else, asking a second time, to the
  host and port of the TCP listener; for any other topic the negotiation raises \<open>XMLRPCError\<close>.\<close>

theorem negotiation:
  assumes "listens_at (proc_node p) host port path"
  shows "negotiate (asking p caller topic) local_address =
    (if topic \<notin> dom (map_of (published_topic_types (proc_registry p)))
     then Inl (XMLRPCError ''topic not published'')
     else if host = local_address
     then Inr (PStr ''UDSROS'', [PStr host, PStr path], UnixSocket (PStr path))
     else Inr (PStr ''TCPROS'', [PStr host, PInt port], TcpSocket (PStr host) (PInt port)))"
  using select_protocol_listening [OF assms]
  by (auto simp: negotiate_def connection_params_def request_topic_def asking_def requestTopic_def tcp_endpoint_def)

definition demo_process :: "bytes process" where
  "demo_process =
     \<lparr>proc_node = demo_node\<lparr>node_tcpros_uri := format_tcpros_uri ''pc'' 80,
        node_udsros_uri := format_udsros_uri ''pc'' ''/tmp/s''\<rparr>,
      proc_registry = empty_node_registry\<lparr>reg_publications := [(''/chat'', demo_publication)]\<rparr>,
      proc_cache = [], proc_pid = 7, proc_master_uri = ''http://m'', proc_shutdowns = 0\<rparr>"

lemma demo_listens: "listens_at (proc_node demo_process) ''pc'' 80 ''/tmp/s''"
  by (simp add: listens_at_def demo_process_def sublist_Cons_right)

theorem negotiation_witness:
  "negotiate (asking demo_process ''/n'' ''/chat'') ''other'' =
     Inr (PStr ''TCPROS'', [PStr ''pc'', PInt 80], TcpSocket (PStr ''pc'') (PInt 80)) \<and>
   negotiate (asking demo_process ''/n'' ''/chat'') ''pc'' =
     Inr (PStr ''UDSROS'', [PStr ''pc'', PStr ''/tmp/s''], UnixSocket (PStr ''/tmp/s'')) \<and>
   negotiate (asking demo_process ''/n'' ''/none'') ''pc'' = Inl (XMLRPCError ''topic not published'')"
  unfolding negotiation [OF demo_listens]
  by (simp add: demo_process_def published_topic_types_def)

section \<open>Following the master\<close>

definition receive_calls :: "task list \<Rightarrow> 'm process \<Rightarrow> 'm process" where
  "receive_calls tasks p = fold (\<lambda>t p. snd (node_receive t p)) tasks p"

definition manager_at :: "'m process \<Rightarrow> string \<Rightarrow> 'm manager option" where
  "manager_at p topic = map_of (reg_subscriptions (proc_registry p)) topic"

lemma manager_at_receive:
  "manager_at (snd (node_receive t p)) topic =
     (case update_of topic t of
        None \<Rightarrow> manager_at p topic
      | Some uris \<Rightarrow> map_option (update_publishers uris) (manager_at p topic))"
proof (cases t)
  case (PublisherUpdate topic' uris)
  then show ?thesis
    by (auto simp: manager_at_def publisherUpdate_def publisher_update_def split: option.split)
qed (auto simp: manager_at_def node_paramUpdate_def node_shutdown_request_def Let_def split: prod.split)

lemma manager_at_receive_calls:
  "manager_at p topic = Some k \<Longrightarrow> manager_ok k \<Longrightarrow>
     \<exists>k'. manager_at (receive_calls tasks p) topic = Some k' \<and> manager_ok k' \<and>
       fst ` set (sub_publishers k') =
         (case last_update topic tasks of None \<Rightarrow> fst ` set (sub_publishers k) | Some uris \<Rightarrow> set uris)"
proof (induction tasks arbitrary: p k)
  case Nil
  then show ?case by (simp add: receive_calls_def)
next
  case (Cons t tasks)
  let ?p = "snd (node_receive t p)"
  have unfold: "receive_calls (t # tasks) p = receive_calls tasks ?p" by (simp add: receive_calls_def)
  show ?case
  proof (cases "update_of topic t")
    case None
    with Cons.prems(1) have "manager_at ?p topic = Some k" by (simp add: manager_at_receive)
    from Cons.IH [OF this Cons.prems(2)] None show ?thesis by (auto simp: unfold split: option.split)
  next
    case (Some uris)
    with Cons.prems(1) have "manager_at ?p topic = Some (update_publishers uris k)"
      by (simp add: manager_at_receive)
    from Cons.IH [OF this] update_publishers_exact_set [OF Cons.prems(2)] Some show ?thesis
      by (auto simp: unfold split: option.splits)
  qed
qed


definition demo_listening :: "bytes process" where
  "demo_listening = demo_process\<lparr>proc_registry := empty_node_registry\<lparr>reg_subscriptions :=
     [(''/c'', new_manager ''/c'' demo_type ''/l'')]\<rparr>\<rparr>"


section \<open>The handshake of a subscription\<close>

text \<open>A new entry in the set of a publication's subscribers, as \<open>handle_tcpros\<close> makes it.\<close>

definition new_connection :: "nat \<Rightarrow> string \<Rightarrow> string \<Rightarrow> connection" where
  "new_connection i protocol caller =
     \<lparr>conn_id = i, conn_protocol = protocol, conn_node = caller, conn_queue = [], conn_open = True,
      conn_sent = []\<rparr>"

lemma sub_header_get:
  assumes "header_ok (sub_header k)"
  shows "map_of (sort_key fst (sub_header k)) = map_of (sub_header k)"
  using assms header_ok_sort [OF assms]
  by (intro map_of_inject_set [THEN iffD2]) (simp_all add: header_ok_def)

definition refusal :: "'m manager \<Rightarrow> publication \<Rightarrow> string" where
  "refusal k p =
     ''request from ['' @ sub_node k @ '']: md5sums do not match: ['' @ type_md5sum (sub_type k) @
     ''] vs. ['' @ type_md5sum (pub_type p) @ '']''"

lemma accept_subscriber:
  assumes "map_of h = map_of (sub_header k)" "encode_header (pub_header p) = Inr reply"
  shows "type_md5sum (sub_type k) = ''*'' \<or> type_md5sum (sub_type k) = type_md5sum (pub_type p) \<Longrightarrow>
      accept protocol h p = (Inr reply, p\<lparr>pub_connections := pub_connections p @
        [new_connection (pub_next_id p) protocol (sub_node k)], pub_next_id := Suc (pub_next_id p)\<rparr>)"
    and "type_md5sum (sub_type k) \<noteq> ''*'' \<Longrightarrow> type_md5sum (sub_type k) \<noteq> type_md5sum (pub_type p) \<Longrightarrow>
      accept protocol h p = (Inl (ProtocolError (refusal k p)), p)"
proof -
  have fields: "require_fields h [''topic'', ''md5sum'', ''callerid''] = Inr ()"
    unfolding require_fields_eq_Inr by (auto simp: assms(1) sub_header_def)
  have get: "hget h ''md5sum'' = Inr (type_md5sum (sub_type k))" "hget h ''callerid'' = Inr (sub_node k)"
    by (simp_all add: hget_def assms(1) sub_header_def)
  show "type_md5sum (sub_type k) = ''*'' \<or> type_md5sum (sub_type k) = type_md5sum (pub_type p) \<Longrightarrow>
      accept protocol h p = (Inr reply, p\<lparr>pub_connections := pub_connections p @
        [new_connection (pub_next_id p) protocol (sub_node k)], pub_next_id := Suc (pub_next_id p)\<rparr>)"
    using get by (auto simp: accept_def fields check_md5sum_def assms(2) new_connection_def
        simp del: require_fields.simps)
  show "type_md5sum (sub_type k) \<noteq> ''*'' \<Longrightarrow> type_md5sum (sub_type k) \<noteq> type_md5sum (pub_type p) \<Longrightarrow>
      accept protocol h p = (Inl (ProtocolError (refusal k p)), p)"
    using get by (auto simp: accept_def fields check_md5sum_def refusal_def simp del: require_fields.simps)
qed

lemma refusal_ok:
  assumes "header_ok (sub_header k)" "header_ok (pub_header p)"
    and "length (sub_node k) + length (type_md5sum (sub_type k)) + length (type_md5sum (pub_type p)) < 4000000000"
  shows "text_ok (refusal k p)" "\<exists>err. error_header (refusal k p) = Inr err"
proof -
  have "text_ok (sub_node k)" "text_ok (type_md5sum (sub_type k))" "text_ok (type_md5sum (pub_type p))"
    using assms(1,2) by (simp_all add: header_ok_def sub_header_def pub_header_def field_ok_def)
  moreover have "text_ok ''request from ['' \<and> text_ok '']: md5sums do not match: ['' \<and> text_ok ''] vs. ['' \<and> text_ok '']''"
    by (intro conjI; rule text_ok_ascii; auto)
  ultimately show "text_ok (refusal k p)" unfolding refusal_def by (metis text_ok_append)
  have "length (refusal k p) = 48 + (length (sub_node k) + length (type_md5sum (sub_type k)) + length (type_md5sum (pub_type p)))"
    by (simp add: refusal_def)
  with assms(3) show "\<exists>err. error_header (refusal k p) = Inr err"
    by (simp add: error_header_def encode_header_def encode_field_def pack_I_def)
qed

lemma error_header_read:
  assumes "error_header msg = Inr bs" "text_ok msg"
  shows "read_header (bs @ rest) = (Inr [(''error'', msg)], rest)"
proof -
  have "text_ok ''error''" by (rule text_ok_ascii) auto
  then have "header_ok [(''error'', msg)]"
    using assms(2) by (simp add: header_ok_def field_ok_def strip_graphic graphic_def)
  from head.read_enc [OF this assms(1) [unfolded error_header_def]] show ?thesis by simp
qed

lemma handle_tcpros_topic:
  assumes "header_ok (sub_header k)" and "encode_header (sub_header k) = Inr bs"
    and "map_of (reg_publications r) (sub_topic k) = Some p"
  shows "map_of (sort_key fst (sub_header k)) = map_of (sub_header k) \<and>
    handle_tcpros serve_service protocol bs r =
      (case accept protocol (sort_key fst (sub_header k)) p of
         (Inl e, _) \<Rightarrow> (conclude ([], Inl e), r)
       | (Inr reply, p') \<Rightarrow>
           (([reply], Inr ()), r\<lparr>reg_publications := AList.update (sub_topic k) p' (reg_publications r)\<rparr>))"
proof -
  have h: "read_header bs = (Inr (sort_key fst (sub_header k)), [])"
    using head.read_enc [OF assms(1,2), of "[]"] by simp
  have get: "map_of (sort_key fst (sub_header k)) = map_of (sub_header k)" by (rule sub_header_get [OF assms(1)])
  then have "map_of (sort_key fst (sub_header k)) ''service'' = None"
    "map_of (sort_key fst (sub_header k)) ''topic'' = Some (sub_topic k)"
    by (simp_all add: sub_header_def)
  with get assms(3) show ?thesis by (simp add: handle_tcpros_def h)
qed

lemma subscription_accepted:
  assumes "header_ok (sub_header k)" and "encode_header (sub_header k) = Inr bs"
    and "map_of (reg_publications r) (sub_topic k) = Some p" and "encode_header (pub_header p) = Inr reply"
    and "type_md5sum (sub_type k) = ''*'' \<or> type_md5sum (sub_type k) = type_md5sum (pub_type p)"
  shows "handle_tcpros serve_service protocol bs r =
      (([reply], Inr ()), r\<lparr>reg_publications := AList.update (sub_topic k)
         (p\<lparr>pub_connections := pub_connections p @ [new_connection (pub_next_id p) protocol (sub_node k)],
            pub_next_id := Suc (pub_next_id p)\<rparr>) (reg_publications r)\<rparr>)"
proof -
  note handled = handle_tcpros_topic [OF assms(1-3), of serve_service protocol]
  then have "map_of (sort_key fst (sub_header k)) = map_of (sub_header k)" by blast
  from accept_subscriber(1) [OF this assms(4,5), of protocol] handled show ?thesis by simp
qed

text \<open>C16: The handshake of a subscription over the wire. A subscriber sends its header to a node that
  publishes the topic. When the types agree (the subscriber's md5sum is \<open>*\<close> or the publisher's) it
  gets the publisher's header and is a connection of the publication from then on; otherwise nothing
  is registered, and the error header it gets makes its task raise \<open>RuntimeError\<close>.\<close>

theorem subscription_handshake:
  assumes "header_ok (sub_header k)" and "encode_header (sub_header k) = Inr bs"
    and "map_of (reg_publications r) (sub_topic k) = Some p" and "encode_header (pub_header p) = Inr reply"
    and "header_ok (pub_header p)"
    and "length (sub_node k) + length (type_md5sum (sub_type k)) + length (type_md5sum (pub_type p)) < 4000000000"
  shows "if type_md5sum (sub_type k) = ''*'' \<or> type_md5sum (sub_type k) = type_md5sum (pub_type p)
    then handle_tcpros serve_service protocol bs r =
      (([reply], Inr ()), r\<lparr>reg_publications := AList.update (sub_topic k)
         (p\<lparr>pub_connections := pub_connections p @ [new_connection (pub_next_id p) protocol (sub_node k)],
            pub_next_id := Suc (pub_next_id p)\<rparr>) (reg_publications r)\<rparr>)
    else \<exists>err. handle_tcpros serve_service protocol bs r = (([err], Inr ()), r) \<and>
      subscribe_task deser err = ([], Inl RuntimeError)"
proof -
  let ?h = "sort_key fst (sub_header k)"
  note handled = handle_tcpros_topic [OF assms(1,2,3), of serve_service protocol]
  then have get: "map_of ?h = map_of (sub_header k)" by blast
  show ?thesis
  proof (cases "type_md5sum (sub_type k) = ''*'' \<or> type_md5sum (sub_type k) = type_md5sum (pub_type p)")
    case True
    with subscription_accepted [OF assms(1-4) True] show ?thesis by simp
  next
    case False
    then have msg: "accept protocol ?h p = (Inl (ProtocolError (refusal k p)), p)"
      using accept_subscriber(2) [OF get assms(4), of protocol] by blast
    from refusal_ok [OF assms(1,5,6)] obtain err where
      err: "error_header (refusal k p) = Inr err" "text_ok (refusal k p)" by auto
    have "handle_tcpros serve_service protocol bs r = (([err], Inr ()), r)"
      using handled by (simp add: msg conclude_def err)
    moreover have "subscribe_task deser err = ([], Inl RuntimeError)"
      using error_header_read [OF err, of "[]"] by (simp add: subscribe_task_def)
    ultimately show ?thesis using False by auto
  qed
qed

definition demo_manager :: "string \<Rightarrow> bytes manager" where
  "demo_manager md5sum = new_manager ''/chat'' (demo_type\<lparr>type_md5sum := md5sum\<rparr>) ''/n''"

lemma demo_sub_header_ok: "text_ok md5sum \<Longrightarrow> header_ok (sub_header (demo_manager md5sum))"
proof -
  have "text_ok ''/n'' \<and> text_ok ''1'' \<and> text_ok ''string data'' \<and> text_ok ''/chat'' \<and> text_ok ''std_msgs/String''"
    by (intro conjI; rule text_ok_ascii; auto)
  moreover have "text_ok ''callerid'' \<and> text_ok ''tcp_nodelay'' \<and> text_ok ''md5sum'' \<and>
      text_ok ''message_definition'' \<and> text_ok ''topic'' \<and> text_ok ''type''"
    by (intro conjI; rule text_ok_ascii; auto)
  ultimately show "text_ok md5sum \<Longrightarrow> header_ok (sub_header (demo_manager md5sum))"
    by (simp add: header_ok_def sub_header_def demo_manager_def new_manager_def demo_type_def field_ok_def
        strip_graphic graphic_def)
qed

theorem subscription_handshake_witness:
  "(\<exists>bs reply. encode_header (sub_header (demo_manager ''992c'')) = Inr bs \<and>
      fst (handle_tcpros (\<lambda>_ _ _. ([], Inr ())) ''TCPROS'' bs (proc_registry demo_process)) = ([reply], Inr ())) \<and>
   (\<exists>bs err. encode_header (sub_header (demo_manager ''abcd'')) = Inr bs \<and>
      handle_tcpros (\<lambda>_ _ _. ([], Inr ())) ''TCPROS'' bs (proc_registry demo_process) =
        (([err], Inr ()), proc_registry demo_process) \<and>
      subscribe_task (\<lambda>bs. Inr (raw_deserialize bs)) err = ([], Inl RuntimeError))"
proof -
  have md5: "text_ok ''992c''" "text_ok ''abcd''" by (rule text_ok_ascii; auto)+
  have enc: "\<exists>bs. encode_header (sub_header (demo_manager md5sum)) = Inr bs" if "length md5sum = 4" for md5sum
    using that by (simp add: encode_header_def sub_header_def demo_manager_def new_manager_def demo_type_def
        encode_field_def pack_I_def)
  obtain reply where reply: "encode_header (pub_header demo_publication) = Inr reply"
    using demo_accept by (auto simp: accept_def bind_result_eq_Inr split: sum.splits prod.splits)
  have p: "map_of (reg_publications (proc_registry demo_process)) (sub_topic (demo_manager md5sum)) =
      Some demo_publication" for md5sum
    by (simp add: demo_process_def demo_manager_def new_manager_def)
  have types: "type_md5sum (pub_type demo_publication) = ''992c''"
    "type_md5sum (sub_type (demo_manager md5sum)) = md5sum" "sub_node (demo_manager md5sum) = ''/n''" for md5sum
    by (simp_all add: demo_publication_def new_publication_def demo_type_def demo_manager_def new_manager_def)
  obtain bs1 bs2 where bs: "encode_header (sub_header (demo_manager ''992c'')) = Inr bs1"
    "encode_header (sub_header (demo_manager ''abcd'')) = Inr bs2"
    using enc [of "''992c''"] enc [of "''abcd''"] by auto
  note 1 = subscription_handshake [OF demo_sub_header_ok [OF md5(1)] bs(1) p reply demo_pub_header_ok,
      of "\<lambda>_ _ _. ([], Inr ())" "''TCPROS''" "\<lambda>bs. Inr (raw_deserialize bs)"]
  note 2 = subscription_handshake [OF demo_sub_header_ok [OF md5(2)] bs(2) p reply demo_pub_header_ok,
      of "\<lambda>_ _ _. ([], Inr ())" "''TCPROS''" "\<lambda>bs. Inr (raw_deserialize bs)"]
  from 1 have "fst (handle_tcpros (\<lambda>_ _ _. ([], Inr ())) ''TCPROS'' bs1 (proc_registry demo_process)) = ([reply], Inr ())"
    by (simp add: types)
  moreover from 2 have "\<exists>err. handle_tcpros (\<lambda>_ _ _. ([], Inr ())) ''TCPROS'' bs2 (proc_registry demo_process) =
        (([err], Inr ()), proc_registry demo_process) \<and>
      subscribe_task (\<lambda>bs. Inr (raw_deserialize bs)) err = ([], Inl RuntimeError)"
    by (simp add: types)
  ultimately show ?thesis using bs by auto
qed

section \<open>One publication per topic\<close>

text \<open>\<open>create_publication\<close> gives the topic of the resolved name one publication for all its users:
  a new one when there is none, else the existing one, which it never replaces; it raises
  \<open>ValueError\<close> exactly when the existing one is latched otherwise than asked for.\<close>

theorem one_publication_per_topic:
  assumes "node_resolve_name n topic = Inr topic'" and "create_publication n topic ty latched r = (res, r')"
  shows "(\<forall>t p. map_of (reg_publications r) t = Some p \<longrightarrow> map_of (reg_publications r') t = Some p) \<and>
    (case map_of (reg_publications r) topic' of
       None \<Rightarrow> res = Inr topic' \<and>
         map_of (reg_publications r') topic' = Some (new_publication topic' ty (full_name n) latched)
     | Some p \<Rightarrow> r' = r \<and> res = (if pub_latched p = latched then Inr topic' else Inl ValueError))"
proof (cases "map_of (reg_publications r) topic'")
  case None
  then have "topic' \<notin> dom (map_of (reg_publications r))" by auto
  with assms None show ?thesis
    by (auto simp: create_publication_def Let_def new_publication_def split: if_splits)
next
  case (Some p)
  with assms show ?thesis by (auto simp: create_publication_def Let_def domI split: if_splits)
qed

theorem one_publication_per_topic_witness:
  "fst (create_publication demo_node ''/p'' demo_type False (empty_node_registry :: bytes node_registry)) = Inr ''/p''"
proof -
  obtain res r' where
    r: "create_publication demo_node ''/p'' demo_type False (empty_node_registry :: bytes node_registry) = (res, r')"
    by fastforce
  from one_publication_per_topic [OF resolve_p r] r show ?thesis by (simp add: empty_node_registry_def)
qed

end
