(* ===== verification/Node_Startup.thy ===== *)
theory Node_Startup
  imports Node_Properties
begin

text \<open>
  How a node comes to its settings: \<open>get_mappings\<close> and \<open>validate_namespace\<close> of
  \<open>aioros/_utils/_resolve.py\<close>, and the first part of \<open>init_node\<close> of \<open>_node.py\<close>, up to
  the new \<open>Node\<close>. The ports and the path of the listeners are those the system gave.

  Which characters outside ASCII are letters or digits is the parameter \<open>unicode_word\<close>.
\<close>

section \<open>Remappings\<close>

definition ascii_letter :: "char \<Rightarrow> bool" where
  "ascii_letter c \<longleftrightarrow> c \<in> set ''abcdefghijklmnopqrstuvwxyzABCDEFGHIJKLMNOPQRSTUVWXYZ''"

definition ascii_alnum :: "char \<Rightarrow> bool" where
  "ascii_alnum c \<longleftrightarrow> ascii_letter c \<or> c \<in> set ''0123456789''"

text \<open>\<open>\w\<close> on one character, given by its encoding.\<close>

definition word_char :: "(string \<Rightarrow> bool) \<Rightarrow> string \<Rightarrow> bool" where
  "word_char unicode_word c =
     (case c of [a] \<Rightarrow> if (of_char a :: nat) < 128 then ascii_alnum a \<or> a = CHR ''_'' else unicode_word c
      | _ \<Rightarrow> unicode_word c)"

text \<open>
  \<open>^(?P<src>(\~)?[a-zA-Z0-9][\w\/]+):=(?P<dst>.+)$\<close>: the colon is not among the characters of the
  source, so there is one way to match.
\<close>

definition match_mapping :: "(string \<Rightarrow> bool) \<Rightarrow> string \<Rightarrow> (string \<times> string) option" where
  "match_mapping unicode_word arg =
     (let cs = utf8_chars arg;
          tilde = (if prefix [''~''] cs then [''~''] else []);
          rest = drop (length tilde) cs
      in case rest of
           [] \<Rightarrow> None
         | first # others \<Rightarrow>
             let body = takeWhile (\<lambda>c. word_char unicode_word c \<or> c = ''/'') others;
                 after = concat (drop (length body) others);
                 src = concat (tilde @ first # body)
             in if (case first of [a] \<Rightarrow> \<not> ascii_alnum a | _ \<Rightarrow> True) \<or> body = [] then None
                else map_option (\<lambda>dst. (src, dst)) (match_after '':='' after))"

definition get_mappings :: "(string \<Rightarrow> bool) \<Rightarrow> string list \<Rightarrow> (string \<times> string) list" where
  "get_mappings unicode_word argv =
     fold (\<lambda>arg m. case match_mapping unicode_word arg of None \<Rightarrow> m | Some (src, dst) \<Rightarrow> AList.update src dst m) argv []"

text \<open>\<open>^(/[a-zA-Z]\w*)*/$\<close>\<close>

definition validate_namespace :: "(string \<Rightarrow> bool) \<Rightarrow> string \<Rightarrow> bool" where
  "validate_namespace unicode_word namespace =
     (let s = strip_final_newline namespace in
      prefix ''/'' s \<and> suffix ''/'' s \<and>
      list_all (\<lambda>part. case utf8_chars part of
          [] \<Rightarrow> False
        | c # cs \<Rightarrow> (case c of [a] \<Rightarrow> ascii_letter a | _ \<Rightarrow> False) \<and> list_all (word_char unicode_word) cs)
        (butlast (tl (split_on slash s))))"

section \<open>A new node\<close>

text \<open>\<open>x or y\<close> for an optional string.\<close>

definition or_else :: "string option \<Rightarrow> string \<Rightarrow> string" where
  "or_else x y = (case x of Some (c # s) \<Rightarrow> c # s | _ \<Rightarrow> y)"

record settings =
  set_namespace :: "string option"
  set_master_uri :: "string option"
  set_address :: "string option"
  set_remapping :: "(string \<times> string) list"

record listeners =
  xmlrpc_port :: int
  tcpros_port :: int
  udsros_path :: string

definition format_xmlrpc_uri :: "string \<Rightarrow> int \<Rightarrow> string" where
  "format_xmlrpc_uri host port = ''http://'' @ host @ '':'' @ show_int port @ ''/''"

definition start_node ::
    "(string \<Rightarrow> bool) \<Rightarrow> string list \<Rightarrow> environ \<Rightarrow> int \<Rightarrow> settings \<Rightarrow> listeners \<Rightarrow> string \<Rightarrow> 'm process result" where
  "start_node unicode_word argv env pid st ls name =
     (let address = or_else (set_address st) (get_local_address argv env);
          remapping = (if set_remapping st \<noteq> [] then set_remapping st else get_mappings unicode_word argv);
          master_uri = or_else (set_master_uri st) (get_master_uri argv env)
      in bind_result (normalize_namespace (or_else (set_namespace st) (get_namespace argv env))) (\<lambda>namespace.
           Inr \<lparr>proc_node =
                  \<lparr>node_name = or_else (get_remapped_name argv) name, node_namespace = namespace,
                   node_xmlrpc_uri = format_xmlrpc_uri address (xmlrpc_port ls),
                   node_tcpros_uri = format_tcpros_uri address (tcpros_port ls),
                   node_udsros_uri = format_udsros_uri address (udsros_path ls),
                   node_remapping = remapping\<rparr>,
                proc_registry = empty_node_registry, proc_cache = [], proc_pid = pid, proc_master_uri = master_uri,
                proc_shutdowns = 0\<rparr>))"

section \<open>What command lines achieve\<close>

lemma concat_utf8_chars: "concat (utf8_chars s) = dropWhile (\<lambda>c. continuation (word_of_nat (of_char c))) s"
proof -
  let ?f = "\<lambda>c (tail, cs). if continuation (word_of_nat (of_char c)) then (c # tail, cs) else ([], (c # tail) # cs)"
  have "fst (foldr ?f s ([], [])) @ concat (snd (foldr ?f s ([], []))) = s \<and>
      fst (foldr ?f s ([], [])) = takeWhile (\<lambda>c. continuation (word_of_nat (of_char c))) s"
    by (induction s) (auto simp: case_prod_beta)
  then show ?thesis
    by (metis (no_types, lifting) utf8_chars_def append_eq_append_conv takeWhile_dropWhile_id)
qed

lemma match_mapping_src:
  assumes "match_mapping unicode_word arg = Some (src, dst)"
  shows "\<not> prefix ''/'' src"
proof -
  have "\<exists>c s. src = c # s \<and> (c = CHR ''~'' \<or> ascii_alnum c)"
    using assms by (auto simp: match_mapping_def Let_def split: list.splits if_splits)
  then show ?thesis by (auto simp: ascii_alnum_def ascii_letter_def)
qed

lemma get_mappings_src:
  "map_of (get_mappings unicode_word argv) src = Some dst \<Longrightarrow> \<not> prefix ''/'' src"
proof -
  have "map_of m src = Some dst \<Longrightarrow> \<forall>k\<in>dom (map_of m). \<not> prefix ''/'' k \<Longrightarrow> \<not> prefix ''/'' src"
    for m :: "(string \<times> string) list" by auto
  moreover have "\<forall>k\<in>dom (map_of (fold (\<lambda>arg m. case match_mapping unicode_word arg of None \<Rightarrow> m
      | Some (src, dst) \<Rightarrow> AList.update src dst m) argv m)). \<not> prefix ''/'' k"
    if "\<forall>k\<in>dom (map_of m). \<not> prefix ''/'' k" for m
    using that
  proof (induction argv arbitrary: m)
    case (Cons arg argv)
    show ?case
    proof (cases "match_mapping unicode_word arg")
      case (Some sd)
      obtain src dst where sd: "sd = (src, dst)" by fastforce
      with Some match_mapping_src have "\<not> prefix ''/'' src" by blast
      with Cons.prems have "\<forall>k\<in>dom (map_of (AList.update src dst m)). \<not> prefix ''/'' k"
        by (auto simp: update_conv' split: if_splits)
      from Cons.IH [OF this] Some sd show ?thesis by simp
    qed (use Cons in simp)
  qed simp
  ultimately show "map_of (get_mappings unicode_word argv) src = Some dst \<Longrightarrow> \<not> prefix ''/'' src"
    unfolding get_mappings_def by (metis (no_types, lifting) domI dom_eq_empty_conv empty_iff map_of_eq_empty_iff)
qed

lemma resolve_name_absolute:
  "prefix ''/'' namespace \<Longrightarrow> resolve_name name node namespace = Inr r \<Longrightarrow> prefix ''/'' r"
  by (auto simp: resolve_name_eq_Inr resolve_name_raw_def Let_def split: if_splits)

text \<open>C37: Remappings given on the command line never have an effect: a node that was started with them
  resolves every name as if there were none. The names on the left of \<open>:=\<close> are taken as they stand and
  cannot begin with a slash, while the names that are looked up are resolved ones, which do.\<close>

theorem remappings_ignored:
  assumes "start_node unicode_word argv env pid st ls name = Inr p" and "set_remapping st = []"
  shows "node_resolve_name (proc_node p) key =
    resolve_name key (node_name (proc_node p)) (node_namespace (proc_node p))"
proof -
  let ?n = "proc_node p"
  have ns: "prefix ''/'' (node_namespace ?n)" and re: "node_remapping ?n = get_mappings unicode_word argv"
    using assms normalize_namespace_ends by (auto simp: start_node_def Let_def bind_result_eq_Inr)
  show ?thesis
  proof (cases "resolve_name key (node_name ?n) (node_namespace ?n)")
    case (Inr r)
    with resolve_name_absolute [OF ns] have "prefix ''/'' r" by blast
    then have "map_of (get_mappings unicode_word argv) r = None"
      using get_mappings_src [of unicode_word argv r] by (cases "map_of (get_mappings unicode_word argv) r") auto
    with Inr re show ?thesis by (simp add: node_resolve_name_def)
  qed (simp add: node_resolve_name_def)
qed

definition demo_settings :: settings where
  "demo_settings = \<lparr>set_namespace = None, set_master_uri = None, set_address = None, set_remapping = []\<rparr>"

definition demo_listeners :: listeners where
  "demo_listeners = \<lparr>xmlrpc_port = 4000, tcpros_port = 4001, udsros_path = ''/tmp/s''\<rparr>"

text \<open>The remapping is read, but it is not found.\<close>

theorem remappings_ignored_witness:
  "get_mappings (\<lambda>c. False) [''node'', ''chat:=talk''] = [(''chat'', ''talk'')] \<and>
   (\<exists>p :: bytes process. start_node (\<lambda>c. False) [''node'', ''chat:=talk''] (\<lambda>v. None) 7 demo_settings demo_listeners ''n'' = Inr p \<and>
      node_resolve_name (proc_node p) ''chat'' = Inr ''/chat'')"
proof -
  let ?argv = "[''node'', ''chat:=talk'']"
  have m: "get_mappings (\<lambda>c. False) ?argv = [(''chat'', ''talk'')]" by code_simp
  obtain p :: "bytes process" where p: "start_node (\<lambda>c. False) ?argv (\<lambda>v. None) 7 demo_settings demo_listeners ''n'' = Inr p"
    "node_name (proc_node p) = ''n''" "node_namespace (proc_node p) = ''/''"
  proof -
    have "normalize_namespace (or_else (set_namespace demo_settings) (get_namespace ?argv (\<lambda>v. None))) = Inr ''/''"
      by code_simp
    moreover have "or_else (get_remapped_name ?argv) ''n'' = ''n''" by code_simp
    ultimately show thesis using that by (simp add: start_node_def Let_def)
  qed
  have "resolve_name ''chat'' ''n'' ''/'' = Inr ''/chat''" by code_simp
  with remappings_ignored [OF p(1), of "''chat''"] p m show ?thesis by (auto simp: demo_settings_def)
qed

text \<open>A node on an address without colon and slash listens where it says.\<close>

lemma started_listens:
  assumes "start_node unicode_word argv env pid st ls name = Inr p"
    and "address = or_else (set_address st) (get_local_address argv env)"
    and "slash \<notin> set address" "CHR '':'' \<notin> set address" "prefix ''/'' (udsros_path ls)"
    and "\<not> sublist ''udsros://'' (address @ ''/'' @ udsros_path ls)"
  shows "listens_at (proc_node p) address (tcpros_port ls) (udsros_path ls)"
  using assms by (auto simp: start_node_def Let_def bind_result_eq_Inr listens_at_def)

text \<open>A node that listens on an IPv6 address cannot be subscribed over TCP: its own
  \<open>requestTopic\<close> takes the address apart at the first colon and raises \<open>ValueError\<close>, here for a
  node started with \<open>ROS_IPV6=on\<close> and no other setting, whatever its port.\<close>

theorem ipv6_unreachable:
  assumes "start_node unicode_word argv env pid st ls name = Inr p"
    and "set_address st = None" and "first_match match_address argv = None"
    and "env ''ROS_HOSTNAME'' = None" "env ''ROS_IP'' = None" "env ''ROS_IPV6'' = Some ''on''"
    and "topic \<in> dom (map_of (published_topic_types r))"
  shows "requestTopic caller topic [[PStr ''TCPROS'']] (p\<lparr>proc_registry := r\<rparr>) =
    (Inl ValueError, p\<lparr>proc_registry := r\<rparr>)"
proof -
  have "or_else (set_address st) (get_local_address argv env) = ''::''"
    using assms by (simp add: get_local_address_def or_else_def)
  then have uri: "node_tcpros_uri (proc_node p) = ''rosrpc://:::'' @ show_int (tcpros_port ls)"
    using assms(1) by (auto simp: start_node_def Let_def bind_result_eq_Inr format_tcpros_uri_def)
  have "slash \<notin> set (show_int (tcpros_port ls))"
    by (auto dest!: show_int_chars simp: not_digit no_digits)
  then have "slash \<notin> set ('':::'' @ show_int (tcpros_port ls))" by simp
  note absent = remove_all_absent [OF _ this]
  have "remove_all ''rosrpc://'' (''rosrpc://'' @ '':::'' @ show_int (tcpros_port ls)) = '':::'' @ show_int (tcpros_port ls)"
    by (subst remove_all_front) (simp_all add: absent del: append_Cons)
  then have "split_tcpros_uri (node_tcpros_uri (proc_node p)) = bind_result (parse_int []) (\<lambda>q. Inr ([], q))"
    using absent [of "''/''"] by (simp add: uri split_tcpros_uri_def)
  moreover have "parse_int [] = Inl ValueError" by code_simp
  ultimately show ?thesis using assms(7) by (auto simp: requestTopic_def)
qed

theorem ipv6_unreachable_witness:
  "\<exists>p :: bytes process. start_node (\<lambda>c. False) [] ((\<lambda>v. None)(''ROS_IPV6'' := Some ''on'')) 7 demo_settings demo_listeners ''n'' = Inr p \<and>
     fst (requestTopic ''/s'' ''/chat'' [[PStr ''TCPROS'']] (p\<lparr>proc_registry := proc_registry demo_process\<rparr>)) = Inl ValueError"
proof -
  let ?env = "(\<lambda>v. None)(''ROS_IPV6'' := Some ''on'')"
  have "\<exists>p :: bytes process. start_node (\<lambda>c. False) [] ?env 7 demo_settings demo_listeners ''n'' = Inr p"
    by (simp add: start_node_def Let_def demo_settings_def or_else_def get_namespace_def normalize_namespace_def)
  then obtain p :: "bytes process" where p: "start_node (\<lambda>c. False) [] ?env 7 demo_settings demo_listeners ''n'' = Inr p" ..
  have "''/chat'' \<in> dom (map_of (published_topic_types (proc_registry demo_process)))"
    by (simp add: demo_process_def published_topic_types_def)
  from ipv6_unreachable [OF p _ _ _ _ _ this, of "''/s''"] p show ?thesis by (auto simp: demo_settings_def)
qed

end
