(* ===== verification/End_To_End.thy ===== *)
theory End_To_End
  imports Node_Startup
begin

text \<open>
  Two nodes and the master together: a message from \<open>publish\<close> at one node to the stream of a
  subscription at another, and a call of a service from \<open>create_server\<close> to the answer the client
  returns. The theorems put the parts of the two nodes and of the master together, each as it is modelled
  in its own theory; between the nodes are the bytes of one connection.
\<close>

section \<open>Delivery to the streams of a subscription\<close>

definition push :: "'m list \<Rightarrow> 'm stream \<Rightarrow> 'm stream" where
  "push msgs s = s\<lparr>stream_queue := stream_queue s @ msgs\<rparr>"

definition all_receiving :: "'m manager \<Rightarrow> bool" where
  "all_receiving m \<longleftrightarrow>
     distinct (map fst (sub_streams m)) \<and>
     (\<forall>i s. map_of (sub_streams m) i = Some s \<longrightarrow> stream_receiving s)"

lemma push_sel [simp]:
  "stream_receiving (push msgs s) = stream_receiving s" "push [] s = s" "push ms (push msgs s) = push (msgs @ ms) s"
  by (simp_all add: push_def)

lemma send_nowait_pushes:
  assumes "all_receiving m"
  shows "\<exists>m'. send_nowait msg i m = (Inr (), m') \<and> all_receiving m' \<and>
    map fst (sub_streams m') = map fst (sub_streams m) \<and>
    map_of (sub_streams m') = (map_of (sub_streams m))(i := map_option (push [msg]) (map_of (sub_streams m) i))"
proof (cases "map_of (sub_streams m) i")
  case None
  with assms show ?thesis by (simp add: send_nowait_def fun_upd_idem)
next
  case (Some s)
  then have known: "i \<in> fst ` set (sub_streams m)" by (force dest: map_of_SomeD)
  from Some assms have "stream_receiving s" unfolding all_receiving_def by blast
  with Some assms known show ?thesis
    by (auto simp: send_nowait_def all_receiving_def push_def update_keys update_conv' distinct_update
        simp del: map_of_eq_Some_iff split: if_splits)
qed

lemma deliver_one:
  assumes "all_receiving m"
  shows "\<exists>m'. deliver_message msg m = (Inr (), m') \<and> all_receiving m' \<and>
    map_of (sub_streams m') = (\<lambda>i. map_option (push [msg]) (map_of (sub_streams m) i))"
proof -
  have "distinct ids \<Longrightarrow> all_receiving k \<Longrightarrow>
      \<exists>k'. for_each (send_nowait msg) ids k = (Inr (), k') \<and> all_receiving k' \<and>
        map_of (sub_streams k') =
          (\<lambda>i. if i \<in> set ids then map_option (push [msg]) (map_of (sub_streams k) i) else map_of (sub_streams k) i)"
    for ids k
  proof (induction ids arbitrary: k)
    case (Cons i ids)
    from send_nowait_pushes [OF Cons.prems(2), of msg i] obtain k1 where
      k1: "send_nowait msg i k = (Inr (), k1)" "all_receiving k1"
        "map_of (sub_streams k1) = (map_of (sub_streams k))(i := map_option (push [msg]) (map_of (sub_streams k) i))"
      by blast
    from Cons.IH [OF _ k1(2)] Cons.prems(1) k1(1,3) show ?case by (auto simp: fun_eq_iff)
  qed auto
  from this [OF _ assms, of "map fst (sub_streams m)"] assms show ?thesis
    unfolding deliver_message_def all_receiving_def
    by (auto simp: fun_eq_iff map_of_eq_None_iff split: if_splits)
      (metis (no_types, lifting) map_of_eq_None_iff not_Some_eq option.simps(8))
qed

text \<open>Every user of a subscription whose stream is open gets every message, in order.\<close>

lemma deliver_all:
  "all_receiving m \<Longrightarrow>
     \<exists>m'. for_each deliver_message msgs m = (Inr (), m') \<and> all_receiving m' \<and>
       map_of (sub_streams m') = (\<lambda>i. map_option (push msgs) (map_of (sub_streams m) i))"
proof (induction msgs arbitrary: m)
  case Nil
  then show ?case by (simp add: option.map_ident option.map_cong)
next
  case (Cons msg msgs)
  from deliver_one [OF Cons.prems, of msg] obtain m1 where
    m1: "deliver_message msg m = (Inr (), m1)" "all_receiving m1"
      "map_of (sub_streams m1) = (\<lambda>i. map_option (push [msg]) (map_of (sub_streams m) i))" by blast
  from Cons.IH [OF m1(2)] m1(1,3) show ?case by (auto simp: fun_eq_iff option.map_comp comp_def)
qed

section \<open>A service\<close>

text \<open>
  What the node sends to a client over one connection, piece by piece, when the client sends its header
  and then \<open>data\<close>; the client reads the first piece before it sends a request.
\<close>

definition answers ::
    "(service_server \<Rightarrow> header \<Rightarrow> bytes \<Rightarrow> bytes list \<times> unit result) \<Rightarrow> 'm node_registry \<Rightarrow> bytes \<Rightarrow> bytes \<Rightarrow> bytes list" where
  "answers serving r hello data = fst (fst (handle_tcpros serving ''TCPROS'' (hello @ data) r))"

lemma create_server_registered:
  assumes "create_server n name ty r = (Inr srv, r')"
  shows "map_of (reg_services r') (srv_name srv) = Some srv \<and> srv_type srv = ty \<and>
    node_resolve_name n name = Inr (srv_name srv)"
  using assms by (auto simp: create_server_def Let_def split: sum.splits if_splits)

lemma answers_of_server:
  assumes "map_of (reg_services r) (srv_name srv) = Some srv"
    and "header_ok (service_header (srv_name srv) ty node persistent)"
    and "encode_header (service_header (srv_name srv) ty node persistent) = Inr hello"
  shows "answers serving r hello data =
    fst (conclude (serving srv (sort_key fst (service_header (srv_name srv) ty node persistent)) data))"
proof -
  let ?h = "service_header (srv_name srv) ty node persistent"
  have "map_of (sort_key fst ?h) = map_of ?h"
    using assms(2) header_ok_sort [OF assms(2)]
    by (intro map_of_inject_set [THEN iffD2]) (simp_all add: header_ok_def)
  then have "map_of (sort_key fst ?h) ''service'' = Some (srv_name srv)" by (simp add: service_header_def)
  with head.read_enc [OF assms(2,3), of data] assms(1) show ?thesis
    by (simp add: answers_def handle_tcpros_def)
qed

lemma serve_without_request:
  assumes "srv_md5sum (srv_type srv) = srv_md5sum ty"
    and "map_of h = map_of (service_header (srv_name srv) ty node persistent)"
    and "encode_header (server_header srv) = Inr reply"
  shows "handle_service deser handler ser srv h [] = ([reply], Inl IncompleteRead)"
proof -
  have "server_loop deser (handler h) ser persistent new_serializer [] = ([], Inl IncompleteRead)"
    by (subst server_loop.simps) (simp add: serve_one_def read_data_def)
  with service_header_accepted [OF assms, of deser handler ser "[]"] show ?thesis by simp
qed

text \<open>C4: A call of a service from end to end. A node creates a server and serves it; another node looks
  the service up at the master and finds the node's listener; it connects, sends the header of its client,
  gets the header of the server, sends a request, and returns the response the handler gave.\<close>

theorem service_end_to_end:
  assumes server: "create_server n name ty r = (Inr srv, r')" "listens_at n host port path"
    and client: "create_client n' name' ty' False = Inr (srv_name srv, h)" "srv_md5sum ty' = srv_md5sum ty"
      "clean (client_serializer c)"
    and headers: "header_ok h" "encode_header h = Inr hello" "header_ok (server_header srv)"
      "encode_header (server_header srv) = Inr reply"
    and classes: "message_class ser_q deser_q valid_q" "message_class ser_r deser_r valid_r"
    and handler: "serving srv = handle_service deser_q handler ser_r srv"
      "servable valid_q ser_q valid_r ser_r (handler (sort_key fst h)) f q"
  shows "fst (service_address n' (srv_name srv) (snd (serve_start n srv w))) = Inr (host, port) \<and>
    (\<exists>c'. non_persistent_call ser_q deser_r (Inr (concat (answers serving r' hello [])))
        (\<lambda>data. concat (drop (length (answers serving r' hello [])) (answers serving r' hello data))) q c =
        (Inr (f q), c') \<and> clean (client_serializer c'))"
proof
  show "fst (service_address n' (srv_name srv) (snd (serve_start n srv w))) = Inr (host, port)"
    using server(2) by (intro serve_start_found) (simp_all add: listens_at_def)
  note known = create_server_registered [OF server(1)]
  have h: "h = service_header (srv_name srv) ty' (full_name n') False"
    using client(1) by (auto simp: create_client_def bind_result_eq_Inr)
  have same_type: "srv_md5sum (srv_type srv) = srv_md5sum ty'" using known client(2) by simp
  note at_server = answers_of_server [where serving = serving, OF known [THEN conjunct1] headers(1,2) [unfolded h]]
  have "map_of (sort_key fst h) = map_of h"
    using headers(1) header_ok_sort [OF headers(1)]
    by (intro map_of_inject_set [THEN iffD2]) (simp_all add: header_ok_def)
  note waiting = serve_without_request [OF same_type this [unfolded h] headers(4)]
  have header: "sort_key fst h = sort_key fst (service_header (srv_name srv) ty' (full_name n') False)"
    by (simp only: h)
  obtain bs sz out where
    exchange: "serializer_serialize ser_q q (client_serializer c) = (Inr bs, sz)" "clean sz"
      "handle_service deser_q handler ser_r srv (sort_key fst h) bs = ([reply, out], Inr ())"
      "read_response deser_r out = (Inr (f q), [])"
    by (rule service_exchange [where handler = handler and f = f, OF classes handler(2) client(3) same_type header
          headers(1) [unfolded h] headers(4)])
  have "answers serving r' hello [] = [reply]"
    unfolding at_server handler(1) waiting by (simp add: conclude_def)
  moreover have "answers serving r' hello bs = [reply, out]"
    unfolding at_server handler(1) exchange(3) [unfolded h] by (simp add: conclude_def)
  ultimately show "\<exists>c'. non_persistent_call ser_q deser_r (Inr (concat (answers serving r' hello [])))
        (\<lambda>data. concat (drop (length (answers serving r' hello [])) (answers serving r' hello data))) q c =
        (Inr (f q), c') \<and> clean (client_serializer c')"
    using check_server_reply [OF headers(3,4)] exchange(1,2,4)
    by (simp add: non_persistent_call_def persistent_call_def client_close_def)
qed

text \<open>The node of \<open>demo_process\<close> serves \<open>/rev\<close>, and another node calls it.\<close>

definition demo_caller :: ros_node where
  "demo_caller = demo_node\<lparr>node_name := ''n'', node_xmlrpc_uri := ''http://n''\<rparr>"

lemma demo_names: "full_name demo_caller = ''/n''" "full_name (proc_node demo_process) = ''/s''"
  by code_simp+

lemma demo_create:
  "create_server (proc_node demo_process) ''/rev'' (srv_type demo_server) (empty_node_registry :: bytes node_registry) =
     (Inr demo_server, empty_node_registry\<lparr>reg_services := [(''/rev'', demo_server)]\<rparr>)"
proof -
  have "node_resolve_name (proc_node demo_process) ''/rev'' = Inr ''/rev''" by code_simp
  then show ?thesis
    using demo_names by (simp add: create_server_def empty_node_registry_def Let_def demo_server_def)
qed

theorem service_end_to_end_witness:
  "\<exists>hello c'.
     create_client demo_caller ''/rev'' (srv_type demo_server) False =
       Inr (''/rev'', service_header ''/rev'' (srv_type demo_server) ''/n'' False) \<and>
     encode_header (service_header ''/rev'' (srv_type demo_server) ''/n'' False) = Inr hello \<and>
     fst (service_address demo_caller ''/rev'' (snd (serve_start (proc_node demo_process) demo_server (demo_world [])))) =
       Inr (''pc'', 80) \<and>
     (let sent = answers (handle_service bytes_deser (\<lambda>_ q. Inr (rev_message q)) bytes_ser)
            (snd (create_server (proc_node demo_process) ''/rev'' (srv_type demo_server)
              (empty_node_registry :: bytes node_registry))) hello
      in non_persistent_call bytes_ser bytes_deser (Inr (concat (sent []))) (\<lambda>data. concat (drop (length (sent [])) (sent data)))
           (bytes_message [1, 2]) new_client = (Inr (bytes_message [2, 1]), c'))"
proof -
  let ?h = "service_header ''/rev'' (srv_type demo_server) ''/n'' False"
  obtain hello reply where enc: "encode_header ?h = Inr hello" "encode_header (server_header demo_server) = Inr reply"
    by (simp add: encode_header_def service_header_def server_header_def demo_server_def encode_field_def pack_I_def)
  have name: "srv_name demo_server = ''/rev''" by (simp add: demo_server_def)
  have resolved: "node_resolve_name demo_caller ''/rev'' = Inr ''/rev''" by code_simp
  then have client: "create_client demo_caller ''/rev'' (srv_type demo_server) False = Inr (srv_name demo_server, ?h)"
    by (simp add: create_client_def demo_names demo_server_def)
  have fine: "servable (\<lambda>m. msg_header m = None) bytes_ser (\<lambda>m. msg_header m = None) bytes_ser
      (\<lambda>q. Inr (rev_message q)) rev_message (bytes_message [1, 2])"
    by (rule bytes_servable) simp
  have clean_client: "clean (client_serializer new_client)" by (simp add: new_client_def)
  note service_end_to_end [where handler = "\<lambda>_ q. Inr (rev_message q)" and w = "demo_world []" and c = new_client
      and serving = "handle_service bytes_deser (\<lambda>_ q. Inr (rev_message q)) bytes_ser" and f = rev_message
      and q = "bytes_message [1, 2]" and deser_r = bytes_deser and ser_q = bytes_ser,
      OF demo_create demo_listens client refl clean_client demo_service_headers(1) enc(1) demo_service_headers(2)
        enc(2) bytes_class.message_class_axioms bytes_class.message_class_axioms refl fine]
  with enc(1) client show ?thesis
    unfolding demo_create name Let_def snd_conv by (auto simp: rev_message_def bytes_message_def)
qed

section \<open>A topic\<close>

text \<open>Another node's registration as a subscriber leaves the publishers alone.\<close>

lemma publishers_after_register_node:
  assumes "reg \<in> set (members_at (publications r) topic)" "caller_id reg \<noteq> c"
  shows "reg \<in> set (members_at (publications (register_node c a r)) topic)"
  using assms
  by (cases rule: register_node_cases [where r = r and c = c and a = a]) (simp_all add: registry_simps)

lemma publishers_after_register_subscriber:
  assumes "reg \<in> set (publishers_of (the_master w) topic)" "caller_id reg \<noteq> full_name n"
  shows "reg \<in> set (publishers_of (the_master (snd (master_register_subscriber n topic' ty w))) topic)"
proof -
  have "reg \<in> set (members_at (publications (register_topic topic' ty (master_registry (the_master w)))) topic)"
    using assms(1) by (simp add: publishers_of_def registry_simps)
  from publishers_after_register_node [OF this assms(2)] show ?thesis
    by (simp add: node_simps publishers_of_def register_subscriber_def Let_def registry_simps)
qed

text \<open>The node that has entered the publication is among the publishers another node connects to when it
  enters its subscription, and the stream of that is open and empty.\<close>

lemma update_publishers_fields [simp]:
  "sub_topic (update_publishers uris m) = sub_topic m \<and> sub_type (update_publishers uris m) = sub_type m \<and>
     sub_node (update_publishers uris m) = sub_node m"
proof -
  have "sub_topic (fold drop_peer xs k) = sub_topic k \<and> sub_type (fold drop_peer xs k) = sub_type k \<and>
      sub_node (fold drop_peer xs k) = sub_node k" for xs and k :: "'a manager"
    by (induction xs arbitrary: k) (auto simp: drop_peer_def map_peer_def split: option.split)
  moreover have "sub_topic (fold connect_peer xs k) = sub_topic k \<and> sub_type (fold connect_peer xs k) = sub_type k \<and>
      sub_node (fold connect_peer xs k) = sub_node k" for xs and k :: "'a manager"
    by (induction xs arbitrary: k) (simp_all add: connect_peer_def)
  ultimately show ?thesis by (simp add: update_publishers_def Let_def)
qed

lemma new_manager_sel:
  "sub_topic (new_manager topic ty node) = topic" "sub_type (new_manager topic ty node) = ty"
  "sub_node (new_manager topic ty node) = node" "sub_streams (new_manager topic ty node) = []"
  "\<not> sub_registered (new_manager topic ty node)"
  by (simp_all add: new_manager_def)

lemma subscriber_finds_publisher:
  assumes "pub_enter n (new_publication topic ty node latched, w1) = (Inr (), (pb, w2))"
    and "sub_register sn i (new_manager topic sty node', w3) = (Inr (), (m, w4))"
    and "the_master w3 = the_master w2" and "full_name sn \<noteq> full_name n"
  shows "peer_of m (node_xmlrpc_uri n) \<noteq> None \<and> sub_streams m = [(i, new_stream)] \<and>
    pb = (new_publication topic ty node latched)\<lparr>pub_instances := 1\<rparr> \<and> sub_topic m = topic \<and> sub_type m = sty \<and>
    sub_node m = node'"
proof -
  have pub: "pb = (new_publication topic ty node latched)\<lparr>pub_instances := 1\<rparr>"
    "w2 = snd (master_register_publisher n topic (type_name ty) w1)"
    using assms(1) by (auto simp: pub_enter_def new_publication_def Let_def split: prod.splits sum.splits)
  let ?m0 = "(new_manager topic sty node')\<lparr>sub_registered := True\<rparr>"
  obtain ms where answer: "master_register_subscriber sn topic (type_name sty) w3 =
      (Inr (strings (map reg_api (publishers_of ms topic))), w3\<lparr>the_master := ms\<rparr>)"
    using register_subscriber_answer [of sn topic "type_name sty" w3] by blast
  let ?uris = "map reg_api (publishers_of ms topic)"
  have "own_registration n \<in> set (publishers_of (the_master w3) topic)"
    using register_publisher_members assms(3) pub(2) by simp
  from publishers_after_register_subscriber [OF this, of sn topic "type_name sty"] assms(4) answer
  have "own_registration n \<in> set (publishers_of ms topic)" by (simp add: own_registration_def)
  then have uri: "node_xmlrpc_uri n \<in> set ?uris" by (force simp: own_registration_def)
  from assms(2) answer have m: "m = (update_publishers ?uris ?m0)
      \<lparr>sub_streams := AList.update i new_stream (sub_streams (update_publishers ?uris ?m0))\<rparr>"
    by (auto simp: sub_register_def answered_uris_strings new_manager_sel)
  have ok: "manager_ok ?m0" using new_manager_ok [of topic sty node'] by (simp add: manager_ok_def)
  note u = update_publishers_props [OF ok, where uris = ?uris]
  from u(6) have streams: "sub_streams (update_publishers ?uris ?m0) = []" by (simp add: new_manager_sel)
  have "peer_of m (node_xmlrpc_uri n) \<noteq> None"
    using u(2) [of "node_xmlrpc_uri n"] uri by (simp add: m peer_of_def)
  then show ?thesis using pub(1) unfolding m streams by (simp add: new_manager_sel)
qed

lemma encode_all_frames:
  "list_all2 (\<lambda>x bs. enc x = Inr bs) xs bss \<Longrightarrow> encode_all enc xs = Inr (concat bss)"
  by (induction rule: list_all2_induct) simp_all


text \<open>The node of \<open>demo_process\<close> publishes two messages on \<open>/chat\<close>, to another node's subscription; the
  connection ends before the second is there.\<close>

definition demo_chat :: publication where
  "demo_chat = (new_publication ''/chat'' demo_type ''/s'' False)\<lparr>pub_instances := 1\<rparr>"

definition demo_chat_connected :: "bytes list \<Rightarrow> bytes list \<Rightarrow> publication" where
  "demo_chat_connected sent queued =
     demo_chat\<lparr>pub_connections := [demo_connection sent queued], pub_next_id := 1\<rparr>"

definition demo_chat_process :: "bytes process" where
  "demo_chat_process = demo_process\<lparr>proc_registry := empty_node_registry\<lparr>reg_publications := [(''/chat'', demo_chat)]\<rparr>\<rparr>"

lemma demo_chat_run:
  "publication_run [Publish [1, 0, 0, 0, 7], Publish [1, 0, 0, 0, 8], Forward 0 True]
     (demo_chat_connected [] []) (demo_chat_connected [[1, 0, 0, 0, 7]] [[1, 0, 0, 0, 8]])"
proof -
  have publish: "publication_step (Publish data) (demo_chat_connected sent queued) (demo_chat_connected sent (queued @ [data]))"
    for data sent queued
    using step_publish [of "demo_chat_connected sent queued" data]
    by (simp add: serialization_needed_def internal_publish_def demo_chat_connected_def demo_chat_def
        new_publication_def demo_connection_def enqueue_def)
  have found: "find_connection 0 (demo_chat_connected sent queued) = Some (demo_connection sent queued)" for sent queued
    by (simp add: find_connection_def demo_chat_connected_def demo_connection_def)
  have "publication_step (Forward 0 True) (demo_chat_connected [] [a, b]) (demo_chat_connected [a] [b])" for a b
    using step_forward [OF found [of "[]" "[a, b]"], of True]
    by (simp add: forward_def map_connection_def forward_next_def demo_chat_connected_def demo_connection_def
        demo_chat_def new_publication_def)
  with publish [of "[1, 0, 0, 0, 7]" "[]" "[]"] publish [of "[1, 0, 0, 0, 8]" "[]" "[[1, 0, 0, 0, 7]]"] show ?thesis
    by (auto simp: publication_run_Cons)
qed

lemma demo_chat_header: "header_ok (pub_header demo_chat)" "\<exists>reply. encode_header (pub_header demo_chat) = Inr reply"
proof -
  have "text_ok ''/s'' \<and> text_ok ''0'' \<and> text_ok ''992c'' \<and> text_ok ''string data'' \<and> text_ok ''/chat'' \<and>
      text_ok ''std_msgs/String''"
    by (intro conjI; rule text_ok_ascii; auto)
  moreover have "text_ok ''callerid'' \<and> text_ok ''latching'' \<and> text_ok ''md5sum'' \<and>
      text_ok ''message_definition'' \<and> text_ok ''topic'' \<and> text_ok ''type''"
    by (intro conjI; rule text_ok_ascii; auto)
  ultimately show "header_ok (pub_header demo_chat)"
    by (simp add: header_ok_def pub_header_def demo_chat_def new_publication_def demo_type_def field_ok_def
        strip_graphic graphic_def)
  show "\<exists>reply. encode_header (pub_header demo_chat) = Inr reply"
    by (simp add: pub_header_def demo_chat_def new_publication_def demo_type_def encode_header_def encode_field_def
        pack_I_def)
qed

lemma demo_sub_header:
  assumes "sub_topic m = ''/chat''" "sub_type m = demo_type" "sub_node m = ''/n''"
  shows "header_ok (sub_header m)" "\<exists>hello. encode_header (sub_header m) = Inr hello"
proof -
  have "text_ok ''992c''" by (rule text_ok_ascii) auto
  from demo_sub_header_ok [OF this] assms show "header_ok (sub_header m)"
    by (simp add: sub_header_def demo_manager_def new_manager_def demo_type_def)
  show "\<exists>hello. encode_header (sub_header m) = Inr hello"
    by (simp add: assms sub_header_def demo_type_def encode_header_def encode_field_def pack_I_def)
qed


end
