(* ===== verification/Node_Context.thy ===== *)
theory Node_Context
  imports Node_Process Master_Client
begin

text \<open>
  Functions of a module that act on the node of the current context (\<open>aioros/_node/_context.py\<close>).
  A context variable is its value, if it has one. The functions that need a running node are in
  \<open>Node_Lifecycle\<close>.
\<close>

section \<open>The node of the context\<close>

text \<open>\<open>require_node\<close>, around a function of the node, and around one that also acts on a state.\<close>

definition require_node :: "'n option \<Rightarrow> ('n \<Rightarrow> 'a result) \<Rightarrow> 'a result" where
  "require_node ctx f = (case ctx of None \<Rightarrow> Inl UninitializedNodeError | Some n \<Rightarrow> f n)"

definition require_node_call :: "'n option \<Rightarrow> ('n \<Rightarrow> 's \<Rightarrow> ('a, 's) outcome) \<Rightarrow> 's \<Rightarrow> ('a, 's) outcome" where
  "require_node_call ctx f w = (case ctx of None \<Rightarrow> (Inl UninitializedNodeError, w) | Some n \<Rightarrow> f n w)"

definition ctx_node_name :: "ros_node option \<Rightarrow> string result" where
  "ctx_node_name ctx = require_node ctx (\<lambda>n. Inr (node_name n))"

definition ctx_full_node_name :: "ros_node option \<Rightarrow> string result" where
  "ctx_full_node_name ctx = require_node ctx (\<lambda>n. Inr (full_name n))"

definition ctx_resolve_name :: "ros_node option \<Rightarrow> string \<Rightarrow> string result" where
  "ctx_resolve_name ctx key = require_node ctx (\<lambda>n. node_resolve_name n key)"

definition ctx_get_param :: "ros_node option \<Rightarrow> string \<Rightarrow> pyval node_call" where
  "ctx_get_param ctx key = require_node_call ctx (\<lambda>n. get_param n key)"

definition ctx_get_param_default :: "ros_node option \<Rightarrow> string \<Rightarrow> pyval \<Rightarrow> pyval node_call" where
  "ctx_get_param_default ctx key fallback = require_node_call ctx (\<lambda>n. get_param_default n key fallback)"

definition ctx_get_param_cached :: "ros_node option \<Rightarrow> string \<Rightarrow> pyval node_call" where
  "ctx_get_param_cached ctx key = require_node_call ctx (\<lambda>n. get_param_cached n key)"

definition ctx_set_param :: "ros_node option \<Rightarrow> string \<Rightarrow> pyval \<Rightarrow> unit node_call" where
  "ctx_set_param ctx key v = require_node_call ctx (\<lambda>n. set_param n key v)"

definition ctx_delete_param :: "ros_node option \<Rightarrow> string \<Rightarrow> unit node_call" where
  "ctx_delete_param ctx key = require_node_call ctx (\<lambda>n. delete_param n key)"

definition ctx_has_param :: "ros_node option \<Rightarrow> string \<Rightarrow> pyval node_call" where
  "ctx_has_param ctx key = require_node_call ctx (\<lambda>n. has_param n key)"

definition ctx_search_param :: "ros_node option \<Rightarrow> string \<Rightarrow> pyval node_call" where
  "ctx_search_param ctx key = require_node_call ctx (\<lambda>n. search_param n key)"

definition node_get_param_names :: "ros_node \<Rightarrow> pyval node_call" where
  "node_get_param_names n = master_get_param_names n"

definition ctx_get_param_names :: "ros_node option \<Rightarrow> pyval node_call" where
  "ctx_get_param_names ctx = require_node_call ctx node_get_param_names"

text \<open>The factories, on the registry of the node.\<close>

definition ctx_create_server ::
    "ros_node option \<Rightarrow> string \<Rightarrow> service_type \<Rightarrow> 'm node_registry \<Rightarrow> (service_server, 'm node_registry) outcome" where
  "ctx_create_server ctx name ty = require_node_call ctx (\<lambda>n. create_server n name ty)"

definition ctx_create_client :: "ros_node option \<Rightarrow> string \<Rightarrow> service_type \<Rightarrow> bool \<Rightarrow> (string \<times> header) result" where
  "ctx_create_client ctx name ty persistent = require_node ctx (\<lambda>n. create_client n name ty persistent)"

definition ctx_create_subscription ::
    "ros_node option \<Rightarrow> string \<Rightarrow> topic_type \<Rightarrow> 'm node_registry \<Rightarrow> (string, 'm node_registry) outcome" where
  "ctx_create_subscription ctx topic ty = require_node_call ctx (\<lambda>n. create_subscription n topic ty)"

definition ctx_create_publication ::
    "ros_node option \<Rightarrow> string \<Rightarrow> topic_type \<Rightarrow> bool \<Rightarrow> 'm node_registry \<Rightarrow> (string, 'm node_registry) outcome" where
  "ctx_create_publication ctx topic ty latched = require_node_call ctx (\<lambda>n. create_publication n topic ty latched)"

definition ctx_create_action_client ::
    "ros_node option \<Rightarrow> string \<Rightarrow> action_type \<Rightarrow> 'm node_registry \<Rightarrow> (string list, 'm node_registry) outcome" where
  "ctx_create_action_client ctx namespace action = require_node_call ctx (\<lambda>n. create_action_client n namespace action)"

text \<open>Without a node nothing is changed.\<close>

lemma no_node:
  "require_node None f = Inl UninitializedNodeError"
  "require_node_call None g s = (Inl UninitializedNodeError, s)"
  by (simp_all add: require_node_def require_node_call_def)

end
