(* ===== verification/Node_Logging.thy ===== *)
theory Node_Logging
  imports Node_Time Node_Context
begin

text \<open>
  Logging to \<open>/rosout\<close> (\<open>aioros/_node/_logging.py\<close>), with the colours of
  \<open>aioros/_utils/_logging.py\<close>.

  The rest of Python's logging is not modelled; the text a formatter makes of the time of a record is an
  argument.
\<close>

section \<open>Records and messages\<close>

text \<open>The levels of \<open>logging\<close> are numbers; those of a \<open>Log\<close> message are constants of its class,
  the parameter \<open>log_code\<close>.\<close>

datatype log_level = LDEBUG | LINFO | LWARN | LERROR | LFATAL

definition level_map :: "nat \<Rightarrow> log_level option" where
  "level_map = map_of [(10, LDEBUG), (20, LINFO), (30, LWARN), (40, LERROR), (50, LFATAL)]"

record log_record =
  rec_levelno :: nat
  rec_text :: string
  rec_file :: string
  rec_line :: nat
  rec_function :: string

record log_message =
  log_level_no :: int
  log_name :: string
  log_msg :: string
  log_file :: string
  log_line :: nat
  log_function :: string
  log_stamp :: time

text \<open>\<open>ColoredFormatter\<close>: the colour by the level, and the name of the node in the text.\<close>

definition escape :: "string \<Rightarrow> string" where
  "escape code = CHR 0x1B # ''['' @ code @ ''m''"

definition colored :: "nat \<Rightarrow> string \<Rightarrow> string" where
  "colored levelno s =
     (if levelno \<le> 10 then escape ''32'' @ s @ escape ''39''
      else if levelno \<ge> 40 then escape ''31'' @ s @ escape ''39''
      else if levelno \<ge> 30 then escape ''33'' @ s @ escape ''39''
      else s)"

definition formatter_node_name :: "ros_node option \<Rightarrow> string" where
  "formatter_node_name ctx = (case ctx_full_node_name ctx of Inl _ \<Rightarrow> ''UNSET'' | Inr name \<Rightarrow> name)"

definition console_line :: "ros_node option \<Rightarrow> string \<Rightarrow> nat \<Rightarrow> log_record \<Rightarrow> string" where
  "console_line ctx time_text pid r =
     colored (rec_levelno r)
       (time_text @ '' '' @ formatter_node_name ctx @ ''['' @ show_nat pid @ ''] '' @ rec_text r)"

text \<open>
  The queue of a \<open>RosoutLogger\<close>, what it has published, and the ends of the stream. \<open>emit\<close> of
  \<open>RosOutHandler\<close> (which has no formatter of its own, so the text is the plain message) does nothing on a \<open>LookupError\<close>, which a missing context variable raises, and
  a level that is not in \<open>level_map\<close>, too (\<open>KeyError\<close> is a \<open>LookupError\<close>).
\<close>

record rosout =
  rosout_queue :: "log_message list"
  rosout_published :: "log_message list"
  rosout_open :: bool

definition new_rosout :: rosout where
  "new_rosout = \<lparr>rosout_queue = [], rosout_published = [], rosout_open = True\<rparr>"

definition log_of :: "(log_level \<Rightarrow> int) \<Rightarrow> ros_node \<Rightarrow> time \<Rightarrow> log_record \<Rightarrow> log_level \<Rightarrow> log_message" where
  "log_of log_code n now r level =
     \<lparr>log_level_no = log_code level, log_name = full_name n, log_msg = rec_text r,
      log_file = rec_file r, log_line = rec_line r, log_function = rec_function r, log_stamp = now\<rparr>"

definition rosout_publish :: "log_message \<Rightarrow> rosout \<Rightarrow> (unit, rosout) outcome" where
  "rosout_publish msg q =
     (if rosout_open q then (Inr (), q\<lparr>rosout_queue := rosout_queue q @ [msg]\<rparr>)
      else (Inl BrokenResourceError, q))"

definition emit ::
    "(log_level \<Rightarrow> int) \<Rightarrow> ros_node option \<Rightarrow> time \<Rightarrow> log_record \<Rightarrow> rosout option \<Rightarrow> (unit, rosout option) outcome" where
  "emit log_code ctx now r out =
     (case (ctx, out) of
        (Some n, Some q) \<Rightarrow>
          (case level_map (rec_levelno r) of
             None \<Rightarrow> (Inr (), out)
           | Some level \<Rightarrow> let (res, q') = rosout_publish (log_of log_code n now r level) q in (res, Some q'))
      | _ \<Rightarrow> (Inr (), out))"

text \<open>One round of the loop of \<open>serve\<close>, and its end by cancellation.\<close>

definition rosout_serve :: "rosout \<Rightarrow> rosout" where
  "rosout_serve q =
     (case rosout_queue q of
        [] \<Rightarrow> q
      | msg # rest \<Rightarrow> q\<lparr>rosout_queue := rest, rosout_published := rosout_published q @ [msg]\<rparr>)"

definition rosout_stop :: "rosout \<Rightarrow> rosout" where
  "rosout_stop q = q\<lparr>rosout_open := False\<rparr>"

section \<open>What reaches \<open>/rosout\<close>\<close>

datatype log_event = Emit time log_record | Serve

fun log_step :: "(log_level \<Rightarrow> int) \<Rightarrow> ros_node \<Rightarrow> log_event \<Rightarrow> rosout \<Rightarrow> rosout" where
  "log_step log_code n (Emit now r) q = the (snd (emit log_code (Some n) now r (Some q)))"
| "log_step log_code n Serve q = rosout_serve q"

text \<open>The messages a sequence of events should lead to.\<close>

fun due_logs :: "(log_level \<Rightarrow> int) \<Rightarrow> ros_node \<Rightarrow> log_event list \<Rightarrow> log_message list" where
  "due_logs log_code n [] = []"
| "due_logs log_code n (Serve # evs) = due_logs log_code n evs"
| "due_logs log_code n (Emit now r # evs) =
     (case level_map (rec_levelno r) of
        None \<Rightarrow> due_logs log_code n evs
      | Some level \<Rightarrow> log_of log_code n now r level # due_logs log_code n evs)"

lemma emit_Some:
  "emit log_code (Some n) now r (Some q) =
     (case level_map (rec_levelno r) of
        None \<Rightarrow> (Inr (), Some q)
      | Some level \<Rightarrow> let (res, q') = rosout_publish (log_of log_code n now r level) q in (res, Some q'))"
  by (simp add: emit_def)


end
