(* ===== verification/Node_Lifecycle.thy ===== *)
theory Node_Lifecycle
  imports Node_Startup Node_Logging
begin

text \<open>
  The life of a node: the opening of listeners (\<open>aioros/_utils/_sockets.py\<close>),
  \<open>init_node\<close> of \<open>_node.py\<close> with its tasks, the context variables, the signal handler and what
  is left behind; and the functions of \<open>_context.py\<close> that ask a running node.

  The system is a parameter where it decides: the ports it gives to a listener, the name of a new
  temporary folder. The file system is a map from paths; who may write where is not modelled.
\<close>

section \<open>Paths and files\<close>

text \<open>
  A path is a flag for absolute ones and its parts (that POSIX treats two slashes at the front in
  another way is left out).
\<close>

type_synonym path = "bool \<times> string list"

definition path_of :: "string \<Rightarrow> path" where
  "path_of s = (prefix ''/'' s, filter (\<lambda>part. part \<notin> {[], ''.''}) (split_on slash s))"

definition path_join :: "path \<Rightarrow> path \<Rightarrow> path" where
  "path_join p q = (if fst q then q else (fst p, snd p @ snd q))"

definition absolute :: "string list \<Rightarrow> path \<Rightarrow> string list" where
  "absolute cwd p = (if fst p then snd p else cwd @ snd p)"

definition path_text :: "string list \<Rightarrow> string" where
  "path_text parts = ''/'' @ join_with ''/'' parts"

datatype inode = Folder | Plain | Socket

type_synonym files = "string list \<Rightarrow> inode option"

text \<open>\<open>mkdir(parents=True, exist_ok=True)\<close> and \<open>unlink(True)\<close>.\<close>

definition make_folders :: "string list \<Rightarrow> files \<Rightarrow> (unit, files) outcome" where
  "make_folders parts fs =
     (if list_all (\<lambda>p. fs p \<in> {None, Some Folder}) (prefixes parts)
      then (Inr (), \<lambda>p. if prefix p parts then Some Folder else fs p)
      else (Inl OSError, fs))"

definition unlink :: "string list \<Rightarrow> files \<Rightarrow> (unit, files) outcome" where
  "unlink p fs = (if fs p = Some Folder then (Inl OSError, fs) else (Inr (), fs(p := None)))"

section \<open>Listeners\<close>

text \<open>
  \<open>create_tcp_listener\<close>: the ports of the listeners the system has opened for the host, of which the
  first is served, and the address made of it.
\<close>

definition create_tcp_listener ::
    "(string \<Rightarrow> int \<Rightarrow> int list result) \<Rightarrow> string \<Rightarrow> int \<Rightarrow> (string \<Rightarrow> int \<Rightarrow> string) \<Rightarrow> (int \<times> string) result" where
  "create_tcp_listener open_tcp host port fmt =
     bind_result (open_tcp host port) (\<lambda>ports.
       case ports of [] \<Rightarrow> Inl IndexError | p # others \<Rightarrow> Inr (p, fmt host p))"

definition default_socket :: "string \<Rightarrow> string \<Rightarrow> path" where
  "default_socket tmp node = path_join (path_join (path_of tmp) (path_of (tl node))) (path_of ''socket'')"

text \<open>A node whose name begins with a slash gets its default socket outside the temporary folder.\<close>

lemma default_socket_slash: "default_socket tmp ''//n'' = (True, [''n'', ''socket''])"
proof -
  have "path_of ''/n'' = (True, [''n''])" "path_of ''socket'' = (False, [''socket''])" by code_simp+
  then show ?thesis by (simp add: default_socket_def path_join_def)
qed

definition create_unix_listener ::
    "string list \<Rightarrow> string \<Rightarrow> string \<Rightarrow> string \<Rightarrow> string option \<Rightarrow> (string \<Rightarrow> string \<Rightarrow> string) \<Rightarrow> files \<Rightarrow>
     (string list \<times> string, files) outcome" where
  "create_unix_listener cwd tmp host node path fmt fs =
     (let p = absolute cwd (case path of Some s \<Rightarrow> path_of s | None \<Rightarrow> default_socket tmp node)
      in bind_outcome (make_folders (butlast p) fs) (\<lambda>_ fs.
         bind_outcome (unlink p fs) (\<lambda>_ fs.
           (Inr (p, fmt host (path_text p)), fs(p \<mapsto> Socket)))))"

text \<open>A new listener is where its address says, in place of whatever file was there; nothing else but
  folders on the way to it is new.\<close>

lemma unix_listener_there:
  assumes "create_unix_listener cwd tmp host node path fmt fs = (Inr (p, uri), fs')"
  shows "uri = fmt host (path_text p) \<and> fs' p = Some Socket \<and> fs p \<noteq> Some Folder \<and>
    (\<forall>q. q \<noteq> p \<longrightarrow> fs' q = (if prefix q (butlast p) then Some Folder else fs q))"
proof -
  have "p = [] \<or> \<not> prefix p (butlast p)"
    using prefix_length_le [of p "butlast p"] by (cases p) (auto simp: Suc_le_eq)
  then show ?thesis
    using assms
    by (auto simp: create_unix_listener_def make_folders_def unlink_def Let_def bind_outcome_def
        split: if_splits)
qed

section \<open>Entering a node\<close>

text \<open>
  What the system gives: the working folder, a new temporary folder, the ports of listeners. What
  \<open>init_node\<close> is asked for: ports and a path, and its three flags. The context variables \<open>node\<close> and
  \<open>rosout_logger\<close>.
\<close>

record system =
  sys_argv :: "string list"
  sys_env :: environ
  sys_pid :: int
  sys_cwd :: "string list"
  sys_tmp :: string
  sys_open_tcp :: "string \<Rightarrow> int \<Rightarrow> int list result"

record wishes =
  wish_xmlrpc :: int
  wish_tcpros :: int
  wish_udsros :: "string option"
  wish_signals :: bool
  wish_time :: bool
  wish_logging :: bool

record contexts =
  ctx_node :: "ros_node option"
  ctx_rosout :: "rosout option"

datatype node_task = SignalHandler | ServeXmlrpc | ServeTcpros | ServeUdsros | ClockTask | RosoutTask

text \<open>A running node: its tasks, whether its task group is cancelled, and the tokens to reset with.\<close>

record 'm running =
  live_process :: "'m process"
  live_socket :: "string list"
  live_clock :: time_manager
  live_tasks :: "node_task list"
  live_cancelled :: bool
  live_token :: "ros_node option"
  live_log_token :: "rosout option option"

definition open_listeners ::
    "system \<Rightarrow> wishes \<Rightarrow> string \<Rightarrow> string \<Rightarrow> files \<Rightarrow> (listeners \<times> string list, files) outcome" where
  "open_listeners sys wish address node fs =
     (case create_tcp_listener (sys_open_tcp sys) address (wish_xmlrpc wish) format_xmlrpc_uri of
        Inl e \<Rightarrow> (Inl e, fs)
      | Inr (xmlrpc, _) \<Rightarrow>
          (case create_tcp_listener (sys_open_tcp sys) address (wish_tcpros wish) format_tcpros_uri of
             Inl e \<Rightarrow> (Inl e, fs)
           | Inr (tcpros, _) \<Rightarrow>
               bind_outcome (create_unix_listener (sys_cwd sys) (sys_tmp sys) address node (wish_udsros wish)
                 format_udsros_uri fs) (\<lambda>(p, _) fs.
                   (Inr (\<lparr>xmlrpc_port = xmlrpc, tcpros_port = tcpros, udsros_path = path_text p\<rparr>, p), fs))))"

text \<open>
  From the new \<open>Node\<close> to the \<open>yield\<close>. With simulated time this waits for the first message of
  \<open>/clock\<close>.
\<close>

definition enter_node ::
    "wishes \<Rightarrow> 'm process \<Rightarrow> string list \<Rightarrow> contexts \<times> world \<Rightarrow> ('m running, contexts \<times> world) outcome" where
  "enter_node wish p socket cw =
     (let (ctx, w) = cw; n = proc_node p; ctx1 = ctx\<lparr>ctx_node := Some n\<rparr>;
          tasks = (if wish_signals wish then [SignalHandler] else []) @ [ServeXmlrpc, ServeTcpros, ServeUdsros];
          (timed, w1) = (if wish_time wish then init_time n w else (Inr WallTime, w))
      in case timed of
           Inl e \<Rightarrow> (Inl e, (ctx1, w1))
         | Inr clock \<Rightarrow>
             (Inr \<lparr>live_process = p, live_socket = socket, live_clock = clock,
                live_tasks = tasks @ (if clock = SimTime then [ClockTask] else []) @
                  (if wish_logging wish then [RosoutTask] else []),
                live_cancelled = False, live_token = ctx_node ctx,
                live_log_token = (if wish_logging wish then Some (ctx_rosout ctx) else None)\<rparr>,
              (if wish_logging wish then ctx1\<lparr>ctx_rosout := Some new_rosout\<rparr> else ctx1, w1)))"

definition init_node ::
    "(string \<Rightarrow> bool) \<Rightarrow> system \<Rightarrow> settings \<Rightarrow> wishes \<Rightarrow> string \<Rightarrow> contexts \<times> world \<times> files \<Rightarrow>
     ('m running, contexts \<times> world \<times> files) outcome" where
  "init_node unicode_word sys st wish name cwf =
     (let (ctx, w, fs) = cwf;
          address = or_else (set_address st) (get_local_address (sys_argv sys) (sys_env sys));
          node = or_else (get_remapped_name (sys_argv sys)) name
      in case normalize_namespace (or_else (set_namespace st) (get_namespace (sys_argv sys) (sys_env sys))) of
           Inl e \<Rightarrow> (Inl e, (ctx, w, fs))
         | Inr namespace \<Rightarrow>
             (case open_listeners sys wish address (namespace @ node) fs of
                (Inl e, fs1) \<Rightarrow> (Inl e, (ctx, w, fs1))
              | (Inr (ls, socket), fs1) \<Rightarrow>
                  (case start_node unicode_word (sys_argv sys) (sys_env sys) (sys_pid sys) st ls name of
                     Inl e \<Rightarrow> (Inl e, (ctx, w, fs1))
                   | Inr p \<Rightarrow>
                       let (res, ctx1, w1) = enter_node wish p socket (ctx, w) in (res, (ctx1, w1, fs1)))))"

section \<open>Leaving it\<close>

text \<open>
  After the \<open>yield\<close>, when the block ends without an exception; and when an exception comes up
  through it: the task groups cancel their tasks, the one of the node swallows a cancellation of its own,
  and nothing behind the \<open>yield\<close> is done.
\<close>

definition all_end :: "'m running \<Rightarrow> 'm running" where
  "all_end live = live\<lparr>live_tasks := [], live_cancelled := True\<rparr>"

definition leave_node :: "'m running \<Rightarrow> contexts \<Rightarrow> 'm running \<times> contexts" where
  "leave_node live ctx =
     (all_end live,
      ctx\<lparr>ctx_node := live_token live,
          ctx_rosout := (case live_log_token live of None \<Rightarrow> ctx_rosout ctx | Some token \<Rightarrow> token)\<rparr>)"

definition break_node :: "py_error \<Rightarrow> 'm running \<Rightarrow> contexts \<Rightarrow> unit result \<times> 'm running \<times> contexts" where
  "break_node e live ctx =
     (if e = CancelledError \<and> live_cancelled live then Inr () else Inl e, all_end live, ctx)"

definition node_is_running :: "'m running \<Rightarrow> bool" where
  "node_is_running live \<longleftrightarrow> \<not> live_cancelled live"

text \<open>\<open>signal_shutdown\<close>, the signal handler (which ends after one signal), and the end of a
  \<open>delayed\<close> task.\<close>

definition signal_shutdown :: "'m process \<Rightarrow> 'm process" where
  "signal_shutdown p = p\<lparr>proc_shutdowns := Suc (proc_shutdowns p)\<rparr>"

definition handle_signal :: "'m running \<Rightarrow> 'm running" where
  "handle_signal live =
     live\<lparr>live_tasks := remove1 SignalHandler (live_tasks live), live_process := signal_shutdown (live_process live)\<rparr>"

definition delayed_cancel :: "'m running \<Rightarrow> 'm running" where
  "delayed_cancel live =
     live\<lparr>live_process := (live_process live)\<lparr>proc_shutdowns := proc_shutdowns (live_process live) - 1\<rparr>,
          live_cancelled := True\<rparr>"

section \<open>The life of a node\<close>

text \<open>
  What happens to a node while its block runs, as far as its end depends on it: calls of its API, a signal,
  \<open>signal_shutdown\<close> by the user, and a \<open>delayed\<close> task whose time has come.
\<close>

datatype life_event = Received task | Signal | Told | Fired

inductive life_step :: "life_event \<Rightarrow> 'm running \<Rightarrow> 'm running \<Rightarrow> bool" where
  life_received: "ServeXmlrpc \<in> set (live_tasks live) \<Longrightarrow>
    life_step (Received t) live (live\<lparr>live_process := snd (node_receive t (live_process live))\<rparr>)"
| life_signal: "SignalHandler \<in> set (live_tasks live) \<Longrightarrow> life_step Signal live (handle_signal live)"
| life_told: "life_step Told live (live\<lparr>live_process := signal_shutdown (live_process live)\<rparr>)"
| life_fired: "proc_shutdowns (live_process live) > 0 \<Longrightarrow> life_step Fired live (delayed_cancel live)"

inductive life_run :: "life_event list \<Rightarrow> 'm running \<Rightarrow> 'm running \<Rightarrow> bool" where
  life_nothing: "life_run [] live live"
| life_more: "life_step ev live live1 \<Longrightarrow> life_run evs live1 live2 \<Longrightarrow> life_run (ev # evs) live live2"

inductive_cases life_stepE: "life_step ev live live1"
inductive_simps life_run_Nil [simp]: "life_run [] live live1"
inductive_simps life_run_Cons: "life_run (ev # evs) live live1"

fun asks_to_stop :: "life_event \<Rightarrow> bool" where
  "asks_to_stop (Received (Shutdown msg)) \<longleftrightarrow> True"
| "asks_to_stop (Received _) \<longleftrightarrow> False"
| "asks_to_stop Fired \<longleftrightarrow> False"
| "asks_to_stop _ \<longleftrightarrow> True"

lemma received_shutdowns:
  "proc_shutdowns (snd (node_receive t p)) = (if asks_to_stop (Received t) then Suc (proc_shutdowns p) else proc_shutdowns p)"
  by (cases t) (auto simp: publisherUpdate_def node_paramUpdate_def node_shutdown_request_def Let_def split: prod.split)

lemma received_node: "proc_node (snd (node_receive t p)) = proc_node p"
  by (cases t) (auto simp: publisherUpdate_def node_paramUpdate_def node_shutdown_request_def Let_def split: prod.split)

text \<open>A request to stop and a \<open>delayed\<close> task go together, and only the end of such a task cancels.\<close>

lemma life_step_effect:
  assumes "life_step ev live live1"
  shows "proc_shutdowns (live_process live1) + (if ev = Fired then 1 else 0) =
      proc_shutdowns (live_process live) + (if asks_to_stop ev then 1 else 0)"
    and "live_cancelled live1 \<longleftrightarrow> live_cancelled live \<or> ev = Fired"
    and "proc_node (live_process live1) = proc_node (live_process live)"
    and "live_token live1 = live_token live \<and> live_log_token live1 = live_log_token live"
  using assms
  by (auto elim!: life_stepE simp: received_shutdowns received_node handle_signal_def signal_shutdown_def delayed_cancel_def)

lemma life_run_effect:
  assumes "life_run evs live live'"
  shows "live_cancelled live' \<longleftrightarrow> live_cancelled live \<or> Fired \<in> set evs"
    and "proc_node (live_process live') = proc_node (live_process live)"
    and "live_token live' = live_token live \<and> live_log_token live' = live_log_token live"
    and "length (filter (\<lambda>ev. ev = Fired) evs) + proc_shutdowns (live_process live') =
      proc_shutdowns (live_process live) + length (filter asks_to_stop evs)"
  using assms
proof (induction rule: life_run.induct)
  case (life_more ev live live1 evs live2)
  note step = life_step_effect [OF life_more.hyps(1)]
  {
    case 1
    show ?case using life_more.IH(1) step(2) by auto
  next
    case 2
    show ?case using life_more.IH(2) step(3) by simp
  next
    case 3
    show ?case using life_more.IH(3) step(4) by simp
  next
    case 4
    show ?case using life_more.IH(4) step(1) by (auto split: if_splits)
  }
qed simp_all



section \<open>What is there at the start, and what is left at the end\<close>

lemma or_else_cases: "or_else x y = (case x of None \<Rightarrow> y | Some s \<Rightarrow> if s = [] then y else s)"
  by (simp add: or_else_def split: option.split list.split)

text \<open>A node that has come up.\<close>

lemma init_nodeE:
  assumes "init_node unicode_word sys st wish name (ctx, w, fs) = (Inr live, (ctx1, w1, fs1))"
  obtains namespace ls uri where
    "open_listeners sys wish (or_else (set_address st) (get_local_address (sys_argv sys) (sys_env sys)))
       (namespace @ or_else (get_remapped_name (sys_argv sys)) name) fs = (Inr (ls, live_socket live), fs1)"
    "start_node unicode_word (sys_argv sys) (sys_env sys) (sys_pid sys) st ls name = Inr (live_process live)"
    "enter_node wish (live_process live) (live_socket live) (ctx, w) = (Inr live, (ctx1, w1))"
proof -
  from assms obtain namespace ls socket p where *:
    "open_listeners sys wish (or_else (set_address st) (get_local_address (sys_argv sys) (sys_env sys)))
       (namespace @ or_else (get_remapped_name (sys_argv sys)) name) fs = (Inr (ls, socket), fs1)"
    "start_node unicode_word (sys_argv sys) (sys_env sys) (sys_pid sys) st ls name = Inr p"
    "enter_node wish p socket (ctx, w) = (Inr live, (ctx1, w1))"
    by (auto simp: init_node_def Let_def split: prod.splits sum.splits)
  moreover have "live_process live = p" "live_socket live = socket"
    using *(3) by (auto simp: enter_node_def Let_def split: prod.splits sum.splits)
  ultimately show thesis using that by blast
qed

lemma entered:
  assumes "enter_node wish p socket (ctx, w) = (res, (ctx1, w1))"
  shows "ctx_node ctx1 = Some (proc_node p)"
    and "res = Inr live \<Longrightarrow> live_token live = ctx_node ctx \<and> \<not> live_cancelled live \<and>
      {ServeXmlrpc, ServeTcpros, ServeUdsros} \<subseteq> set (live_tasks live) \<and>
      live_log_token live = (if wish_logging wish then Some (ctx_rosout ctx) else None) \<and>
      (\<not> wish_logging wish \<longrightarrow> ctx_rosout ctx1 = ctx_rosout ctx)"
  using assms by (auto simp: enter_node_def Let_def split: prod.splits sum.splits if_splits)

lemma opened:
  assumes "open_listeners sys wish address node fs = (Inr (ls, socket), fs1)"
  shows "udsros_path ls = path_text socket \<and> fs1 socket = Some Socket"
proof -
  from assms obtain uri where "create_unix_listener (sys_cwd sys) (sys_tmp sys) address node (wish_udsros wish)
      format_udsros_uri fs = (Inr (socket, uri), fs1)" "udsros_path ls = path_text socket"
    by (auto simp: open_listeners_def bind_outcome_def split: prod.splits sum.splits)
  with unix_listener_there show ?thesis by blast
qed


text \<open>C39: When an exception comes up through the block of a node, the variable of the context keeps the
  dead node: the functions of the module go on acting on it in place of raising
  \<open>UninitializedNodeError\<close>. A node that is shut down, by Ctrl+C or by the master, is such a case: its
  block is cancelled, and ends as if nothing had happened. So is one whose \<open>init_time\<close> raised.\<close>

theorem context_left_behind:
  assumes "init_node unicode_word sys st wish name (ctx, w, fs) = (Inr live, (ctx1, w1, fs1))"
    and "life_run evs live live'" and "break_node e live' ctx1 = (res, gone, ctx2)"
  shows "\<not> node_is_running gone \<and> live_tasks gone = [] \<and> ctx_full_node_name (ctx_node ctx2) = Inr (full_name (proc_node (live_process live))) \<and>
    (e = CancelledError \<and> Fired \<in> set evs \<longrightarrow> res = Inr ())"
proof -
  from assms(1) have "ctx_node ctx1 = Some (proc_node (live_process live))"
    by (rule init_nodeE) (rule entered(1))
  with assms(3) life_run_effect(1) [OF assms(2)] show ?thesis
    by (auto simp: break_node_def all_end_def node_is_running_def ctx_full_node_name_def require_node_def)
qed

lemma failed_init_time_left_behind:
  "enter_node wish p socket (ctx, w) = (Inl e, (ctx1, w1)) \<Longrightarrow> ctx_node ctx1 = Some (proc_node p)"
  by (rule entered(1))

text \<open>A node \<open>/n\<close> that takes the default for everything; it is stopped by Ctrl+C.\<close>

definition demo_system :: system where
  "demo_system =
     \<lparr>sys_argv = [''node''], sys_env = (\<lambda>v. None), sys_pid = 7, sys_cwd = [''home''], sys_tmp = ''/tmp/t1'',
      sys_open_tcp = (\<lambda>host port. Inr [if port = 0 then 4000 else port])\<rparr>"

definition demo_wishes :: wishes where
  "demo_wishes =
     \<lparr>wish_xmlrpc = 0, wish_tcpros = 80, wish_udsros = None, wish_signals = True, wish_time = False, wish_logging = True\<rparr>"

definition no_contexts :: contexts where
  "no_contexts = \<lparr>ctx_node = None, ctx_rosout = None\<rparr>"

definition demo_init :: "('m running, contexts \<times> world \<times> files) outcome" where
  "demo_init = init_node (\<lambda>c. False) demo_system (demo_settings\<lparr>set_address := Some ''pc''\<rparr>) demo_wishes ''n''
     (no_contexts, demo_world [], \<lambda>p. if p = [''tmp''] then Some Folder else None)"

lemma demo_sel:
  "sys_argv demo_system = [''node'']" "sys_env demo_system = (\<lambda>v. None)" "wish_signals demo_wishes"
  "\<not> wish_time demo_wishes" "wish_logging demo_wishes"
  by (simp_all add: demo_system_def demo_wishes_def)

lemma demo_open:
  "\<exists>fs1. open_listeners demo_system demo_wishes ''pc'' ''/n'' (\<lambda>p. if p = [''tmp''] then Some Folder else None) =
     (Inr (\<lparr>xmlrpc_port = 4000, tcpros_port = 80, udsros_path = ''/tmp/t1/n/socket''\<rparr>,
        [''tmp'', ''t1'', ''n'', ''socket'']), fs1)"
proof -
  have "absolute [''home''] (default_socket ''/tmp/t1'' ''/n'') = [''tmp'', ''t1'', ''n'', ''socket'']" by code_simp
  then show ?thesis
    by (simp add: open_listeners_def create_tcp_listener_def demo_system_def demo_wishes_def create_unix_listener_def
        make_folders_def unlink_def path_text_def Let_def)
qed

lemma demo_init_runs:
  "\<exists>live ctx1 w1 fs1. demo_init = (Inr (live :: bytes running), (ctx1, w1, fs1)) \<and>
     live_socket live = [''tmp'', ''t1'', ''n'', ''socket''] \<and> SignalHandler \<in> set (live_tasks live) \<and>
     full_name (proc_node (live_process live)) = ''/n''"
proof -
  have ns: "normalize_namespace (or_else None (get_namespace [''node''] (\<lambda>v. None))) = Inr ''/''"
    "or_else (get_remapped_name [''node'']) ''n'' = ''n''" by code_simp+
  obtain fs1 where "open_listeners demo_system demo_wishes ''pc'' ''/n'' (\<lambda>p. if p = [''tmp''] then Some Folder else None) =
     (Inr (\<lparr>xmlrpc_port = 4000, tcpros_port = 80, udsros_path = ''/tmp/t1/n/socket''\<rparr>,
        [''tmp'', ''t1'', ''n'', ''socket'']), fs1)" using demo_open by blast
  moreover have "full_name \<lparr>node_name = ''n'', node_namespace = ''/'', node_xmlrpc_uri = u, node_tcpros_uri = t,
      node_udsros_uri = v, node_remapping = m\<rparr> = ''/n''" for u t v m
    by (simp add: full_name_def)
  ultimately show ?thesis
    using ns by (simp add: demo_init_def init_node_def start_node_def enter_node_def demo_settings_def demo_sel
        or_else_def [of "Some _"] Let_def)
qed


theorem context_left_behind_witness:
  "\<exists>live ctx1 w1 fs1 live'. demo_init = (Inr (live :: bytes running), (ctx1, w1, fs1)) \<and>
     life_run [Signal, Fired] live live' \<and> fst (break_node CancelledError live' ctx1) = Inr () \<and>
     ctx_full_node_name (ctx_node (snd (snd (break_node CancelledError live' ctx1)))) = Inr ''/n''"
proof -
  obtain live ctx1 w1 fs1 where d: "demo_init = (Inr (live :: bytes running), (ctx1, w1, fs1))"
    "SignalHandler \<in> set (live_tasks live)" "full_name (proc_node (live_process live)) = ''/n''"
    using demo_init_runs by blast
  have run: "life_run [Signal, Fired] live (delayed_cancel (handle_signal live))"
    by (rule life_more [OF life_signal [OF d(2)] life_more [OF life_fired life_nothing]])
      (simp add: handle_signal_def signal_shutdown_def)
  obtain res gone ctx2 where left:
    "break_node CancelledError (delayed_cancel (handle_signal live)) ctx1 = (res, gone, ctx2)" by (metis prod.exhaust)
  note context_left_behind [OF d(1) [unfolded demo_init_def] run left]
  then show ?thesis
    by (intro exI [of _ live] exI [of _ ctx1] exI [of _ w1] exI [of _ fs1] exI [of _ "delayed_cancel (handle_signal live)"] conjI)
      (use d run left in auto)
qed

section \<open>Functions of the module\<close>

text \<open>
  The rest of \<open>_context.py\<close>, on the running node of the context: with the wall clock, the time is the
  system's and sleeping does not concern the simulated clock. \<open>every\<close> is an iterator, here what
  it does from turn to turn.
\<close>

definition node_get_time :: "'m running \<Rightarrow> time \<Rightarrow> sim_clock \<Rightarrow> time" where
  "node_get_time live wall clock = (case live_clock live of WallTime \<Rightarrow> wall | SimTime \<Rightarrow> sim_time clock)"

definition node_sleep :: "'m running \<Rightarrow> nat \<Rightarrow> time \<Rightarrow> sim_clock \<Rightarrow> sim_clock" where
  "node_sleep live i duration clock =
     (case live_clock live of WallTime \<Rightarrow> clock | SimTime \<Rightarrow> start_sleep i duration clock)"

definition ctx_is_running :: "'m running option \<Rightarrow> bool result" where
  "ctx_is_running ctx = require_node ctx (\<lambda>live. Inr (node_is_running live))"

definition ctx_get_time :: "'m running option \<Rightarrow> time \<Rightarrow> sim_clock \<Rightarrow> time result" where
  "ctx_get_time ctx wall clock = require_node ctx (\<lambda>live. Inr (node_get_time live wall clock))"

definition ctx_sleep :: "'m running option \<Rightarrow> nat \<Rightarrow> time \<Rightarrow> sim_clock \<Rightarrow> (unit, sim_clock) outcome" where
  "ctx_sleep ctx i duration = require_node_call ctx (\<lambda>live clock. (Inr (), node_sleep live i duration clock))"

definition ctx_every :: "'m running option \<Rightarrow> time \<Rightarrow> (time \<Rightarrow> time \<Rightarrow> time \<times> time option) result" where
  "ctx_every ctx duration = require_node ctx (\<lambda>live. Inr (every_turn duration))"

text \<open>On simulated time, a sleep through the module is one the theorems on \<open>SimTimeManager\<close> are about.\<close>

lemma ctx_sleep_step:
  assumes "live_clock live = SimTime" "sleepers clock i = None"
  shows "\<exists>clock'. ctx_sleep (Some live) i duration clock = (Inr (), clock') \<and> clock_step (Sleep i duration) clock clock' \<and>
    ctx_get_time (Some live) wall clock = Inr (sim_time clock)"
  using clock_sleep [of clock i duration, OF assms(2)] assms(1)
  by (simp add: ctx_sleep_def ctx_get_time_def require_node_call_def require_node_def node_sleep_def node_get_time_def)

end
