(* ===== verification/Master_Server.thy ===== *)
theory Master_Server
  imports Node_Lifecycle
begin

text \<open>
  The process of the master: \<open>init_master\<close> and \<open>run\<close> of \<open>aioros/master/_server.py\<close>, with the
  decorator \<open>log\<close> and \<open>_shutdown\<close> of \<open>_api.py\<close>. The configuration of the loggers is left out.
\<close>

section \<open>A master\<close>

text \<open>
  \<open>init_master\<close>: the master, at the address of its listener. \<open>run\<close> keeps it up until the first signal
  and says which; its pieces of output here are what it prints.
\<close>

definition init_master :: "system \<Rightarrow> int \<Rightarrow> string option \<Rightarrow> (int \<times> master) result" where
  "init_master sys port local_address =
     bind_result (create_tcp_listener (sys_open_tcp sys)
         (or_else local_address (get_local_address (sys_argv sys) (sys_env sys))) port format_xmlrpc_uri) (\<lambda>(p, uri).
       Inr (p, initial_master (sys_pid sys) uri))"

text \<open>The decorator \<open>log\<close> of the methods (\<open>_api.py\<close>): what is logged; the outcome is that of the method.\<close>

datatype api_log = HadException string | Answered string reply

definition log_call :: "string \<Rightarrow> (reply, 's) outcome \<Rightarrow> (reply, 's) outcome \<times> api_log" where
  "log_call name out = (out, case fst out of Inl _ \<Rightarrow> HadException name | Inr r \<Rightarrow> Answered name r)"

datatype signum = SIGINT | SIGTERM

definition signal_text :: "signum \<Rightarrow> string" where
  "signal_text s = (if s = SIGINT then ''Ctrl+C pressed!'' else ''Terminated!'')"

text \<open>\<open>_shutdown\<close>, when its second is over.\<close>

definition shutdown_text :: "string \<Rightarrow> string" where
  "shutdown_text msg = ''Shutting down: '' @ msg"

datatype master_event = Called string request | GotSignal signum | ShutdownDue

text \<open>The life of a master from event to event: it ends with the first signal or shutdown, and prints why.\<close>

fun master_life :: "master_event list \<Rightarrow> master \<Rightarrow> string option" where
  "master_life [] m = None"
| "master_life (Called c req # evs) m = master_life evs (snd (handle c req m))"
| "master_life (GotSignal s # evs) m = Some (signal_text s)"
| "master_life (ShutdownDue # evs) m =
     (case pending_shutdowns m of [] \<Rightarrow> master_life evs m | msg # _ \<Rightarrow> Some (shutdown_text msg))"

definition run_master ::
    "system \<Rightarrow> int \<Rightarrow> string option \<Rightarrow> master_event list \<Rightarrow> string result option" where
  "run_master sys port local_address evs =
     (case init_master sys port local_address of
        Inl e \<Rightarrow> Some (Inl e)
      | Inr (p, m) \<Rightarrow> map_option Inr (master_life evs m))"

lemma pending_notify [simp]: "pending_shutdowns (snd (notify_params key v c m)) = pending_shutdowns m"
  "pending_shutdowns (snd (with_registry out v m)) = pending_shutdowns m"
  by (simp_all add: notify_params_def with_registry_def Let_def split: prod.splits sum.splits)

lemma pending_after:
  "pending_shutdowns (snd (handle c req m)) =
     pending_shutdowns m @ (case req of ShutdownMaster msg \<Rightarrow> [msg] | _ \<Rightarrow> [])"
  by (cases req)
    (simp_all add: handler_simps shutdown_def registerService_def unregisterService_def registerSubscriber_def
      unregisterSubscriber_def registerPublisher_def unregisterPublisher_def setParam_def deleteParam_def
      subscribeParam_def unsubscribeParam_def Let_def split: sum.splits)

text \<open>A master ends because of a signal, or because someone called its \<open>shutdown\<close>, and says so.\<close>

lemma master_life_ends:
  "master_life evs m = Some out \<Longrightarrow>
     (\<exists>s. GotSignal s \<in> set evs \<and> out = signal_text s) \<or>
     (\<exists>msg. (msg \<in> set (pending_shutdowns m) \<or> (\<exists>c. Called c (ShutdownMaster msg) \<in> set evs)) \<and> out = shutdown_text msg)"
proof (induction evs m rule: master_life.induct)
  case (2 c req evs m)
  then have "(\<exists>s. GotSignal s \<in> set evs \<and> out = signal_text s) \<or>
     (\<exists>msg. (msg \<in> set (pending_shutdowns (snd (handle c req m))) \<or> (\<exists>c. Called c (ShutdownMaster msg) \<in> set evs)) \<and>
        out = shutdown_text msg)" by simp
  then show ?case unfolding pending_after by (cases req) auto
qed (auto split: list.splits)

theorem master_ends_for_a_reason:
  assumes "run_master sys port local_address evs = Some (Inr out)"
  shows "(\<exists>s. GotSignal s \<in> set evs \<and> out = signal_text s) \<or>
    (\<exists>c msg. Called c (ShutdownMaster msg) \<in> set evs \<and> out = shutdown_text msg)"
proof -
  from assms obtain p m where m: "init_master sys port local_address = Inr (p, m)" "master_life evs m = Some out"
    by (auto simp: run_master_def split: sum.splits prod.splits)
  from m(1) have "pending_shutdowns m = []" by (auto simp: init_master_def initial_master_def bind_result_eq_Inr)
  with master_life_ends [OF m(2)] show ?thesis by auto
qed

text \<open>A master that comes up says over its API where it listens, knows nothing yet, and is one the
  theorems on reachable masters are about.\<close>

theorem init_master_listens:
  assumes "init_master sys port local_address = Inr (p, m)"
  shows "fst (getUri c m) = Inr (1, [], PStr (format_xmlrpc_uri (or_else local_address
      (get_local_address (sys_argv sys) (sys_env sys))) p)) \<and> reachable m \<and>
    getSystemState c m = (Inr (1, [], PList [PList [], PList [], PList []]), m)"
proof -
  obtain uri where uri: "create_tcp_listener (sys_open_tcp sys) (or_else local_address
      (get_local_address (sys_argv sys) (sys_env sys))) port format_xmlrpc_uri = Inr (p, uri)"
    "m = initial_master (sys_pid sys) uri"
    using assms by (auto simp: init_master_def bind_result_eq_Inr)
  then obtain ports where "(case ports of [] \<Rightarrow> Inl IndexError | p # others \<Rightarrow> Inr (p, format_xmlrpc_uri (or_else local_address
      (get_local_address (sys_argv sys) (sys_env sys))) p)) = Inr (p, uri)"
    unfolding create_tcp_listener_def bind_result_eq_Inr by blast
  then have "uri = format_xmlrpc_uri (or_else local_address (get_local_address (sys_argv sys) (sys_env sys))) p"
    by (cases ports) auto
  then show ?thesis
    unfolding uri(2) by (simp add: start)
      (simp add: getUri_def initial_master_def getSystemState_def empty_registry_def members_state_def services_state_def)
qed

theorem init_master_listens_witness:
  "\<exists>m. init_master demo_system 11311 (Some ''pc'') = Inr (11311, m) \<and>
     fst (getUri ''/n'' m) = Inr (1, [], PStr (format_xmlrpc_uri ''pc'' 11311))"
proof -
  have "init_master demo_system 11311 (Some ''pc'') = Inr (11311, initial_master 7 (format_xmlrpc_uri ''pc'' 11311))"
    by (simp add: init_master_def create_tcp_listener_def demo_system_def or_else_def)
  with init_master_listens [OF this, of "''/n''"] show ?thesis by (simp add: or_else_def)
qed

end
