(* ===== verification/Tf2.thy ===== *)
theory Tf2
  imports Node_Time
begin

text \<open>
  The transforms of \<open>aioros/tf2\<close>: \<open>Buffer\<close> and its waits (\<open>_buffer.py\<close>), the messages
  \<open>do_transform\<close> handles (\<open>_buffer_interface.py\<close>), and \<open>BufferClient\<close>
  (\<open>_buffer_client.py\<close>).

  The C++ library behind \<open>BufferCore\<close> and the linear algebra is not part of the repository: its
  functions are parameters. Numbers are an abstract commutative group, so rounding is not modelled.
\<close>

section \<open>Waiting for a transform\<close>

text \<open>
  \<open>run_sync_with_timeout\<close> on what it meets: each round reads the clock and, when there is time left,
  gets an answer. \<^const>\<open>None\<close> is that it has not returned after the given rounds.
\<close>

fun poll_until :: "time \<Rightarrow> (time \<times> bool result) list \<Rightarrow> bool result option" where
  "poll_until until [] = None"
| "poll_until until ((now, reply) # rounds) =
     (if now < until then
        (case reply of
           Inl e \<Rightarrow> Some (Inl e)
         | Inr True \<Rightarrow> Some (Inr True)
         | Inr False \<Rightarrow> poll_until until rounds)
      else Some (Inr False))"

definition run_sync_with_timeout ::
    "bool result \<Rightarrow> time option \<Rightarrow> time \<Rightarrow> (time \<times> bool result) list \<Rightarrow> bool result option" where
  "run_sync_with_timeout at_once timeout now rounds =
     (case timeout of None \<Rightarrow> Some at_once | Some d \<Rightarrow> poll_until (now + d) rounds)"

definition pause :: time where
  "pause = 50000000"

text \<open>The clock of the rounds: the first not before the start, and a pause between any two.\<close>

fun paced :: "time \<Rightarrow> (time \<times> 'a) list \<Rightarrow> bool" where
  "paced earliest [] \<longleftrightarrow> True"
| "paced earliest ((now, x) # rounds) \<longleftrightarrow> earliest \<le> now \<and> paced (now + pause) rounds"

lemma paced_mono: "paced t rounds \<Longrightarrow> u \<le> t \<Longrightarrow> paced u rounds"
  by (cases rounds) auto

lemma poll_until_returns:
  "paced now rounds \<Longrightarrow> until - now \<le> int (length rounds - 1) * pause \<Longrightarrow> rounds \<noteq> [] \<Longrightarrow> poll_until until rounds \<noteq> None"
proof (induction rounds arbitrary: now)
  case (Cons round rounds)
  obtain t reply where r: "round = (t, reply)" by fastforce
  show ?case
  proof (cases "t < until \<and> reply = Inr False")
    case True
    with Cons.prems r have "rounds \<noteq> []" by (cases rounds) auto
    moreover have "until - (t + pause) \<le> int (length rounds - 1) * pause"
      using Cons.prems r \<open>rounds \<noteq> []\<close> by (cases rounds) (auto simp: algebra_simps)
    ultimately show ?thesis using Cons.IH [of "t + pause"] Cons.prems r True by simp
  next
    case False
    with r show ?thesis by (auto split: sum.split bool.split)
  qed
qed simp

text \<open>C35: \<open>run_sync_with_timeout\<close> ends: as the clock advances by the pause of 50 milliseconds from
  round to round, it has returned after at most one round per pause that fits into the time limit, and
  two more, whatever is answered.\<close>

theorem timeout_ends:
  assumes "paced now rounds" and "d \<le> int n * pause" and "length rounds = n + 1"
  shows "run_sync_with_timeout at_once (Some d) now rounds \<noteq> None"
proof -
  have "rounds \<noteq> []" using assms(3) by auto
  with poll_until_returns [of now rounds "now + d"] assms show ?thesis by (simp add: run_sync_with_timeout_def)
qed

theorem timeout_ends_witness:
  "run_sync_with_timeout (Inr True) (Some 60000000) 0 [(0, Inr False), (50000000, Inr False), (100000000, Inr False)] \<noteq> None"
  by (rule timeout_ends [where n = 2]) (simp_all add: pause_def)

text \<open>With a time limit of zero or less nothing is asked: the answer is that there is no transform,
  also when there is one, which without a time limit is found.\<close>

theorem zero_timeout:
  assumes "paced now (round # rounds)" and "d \<le> 0"
  shows "run_sync_with_timeout (Inr True) (Some d) now (round # rounds) = Some (Inr False) \<and>
    run_sync_with_timeout (Inr True) None now (round # rounds) = Some (Inr True)"
  using assms by (cases round) (auto simp: run_sync_with_timeout_def)

theorem zero_timeout_witness:
  "run_sync_with_timeout (Inr True) (Some 0) 5 [(5, Inr True)] = Some (Inr False) \<and>
   run_sync_with_timeout (Inr True) None 5 [(5, Inr True)] = Some (Inr True)"
  by (rule zero_timeout) simp_all

text \<open>\<open>Buffer.lookup_transform\<close> waits, and then looks up whatever the answer was.\<close>

definition buffer_lookup :: "bool result option \<Rightarrow> 't result \<Rightarrow> 't result option" where
  "buffer_lookup waited found =
     (case waited of None \<Rightarrow> None | Some (Inl e) \<Rightarrow> Some (Inl e) | Some (Inr _) \<Rightarrow> Some found)"

section \<open>Transforming messages\<close>

type_synonym 'n vec = "'n \<times> 'n \<times> 'n"

text \<open>\<open>CTransform(q, t) @ v\<close> and \<open>CTransform(q, t) @ CTransform(p, s)\<close>.\<close>

record ('q, 'n) linear_math =
  move :: "'q \<Rightarrow> 'n vec \<Rightarrow> 'n vec \<Rightarrow> 'n vec"
  compose :: "'q \<times> 'n vec \<Rightarrow> 'q \<times> 'n vec \<Rightarrow> 'q \<times> 'n vec"

record ('q, 'n, 'h) transform_stamped =
  trans_header :: 'h
  rotation :: 'q
  translation :: "'n vec"

text \<open>The messages: a header and what is in them. The points of a cloud have further fields.\<close>

datatype ('q, 'n, 'h, 'x) stamped =
    PointStamped 'h "'n vec"
  | Vector3Stamped 'h "'n vec"
  | PoseStamped 'h "'n vec" 'q
  | WrenchStamped 'h "'n vec" "'n vec"
  | PointCloud2 'h "('n vec \<times> 'x) list"
  | OtherMessage 'h

definition do_transform_point ::
    "('q, 'n) linear_math \<Rightarrow> 'n vec \<Rightarrow> ('q, 'n, 'h) transform_stamped \<Rightarrow> ('q, 'n, 'h, 'x) stamped" where
  "do_transform_point lm v tr = PointStamped (trans_header tr) (move lm (rotation tr) (translation tr) v)"

definition rotated :: "('q, 'n :: zero) linear_math \<Rightarrow> ('q, 'n, 'h) transform_stamped \<Rightarrow> 'n vec \<Rightarrow> 'n vec" where
  "rotated lm tr v = move lm (rotation tr) (0, 0, 0) v"

definition do_transform_vector3 ::
    "('q, 'n :: zero) linear_math \<Rightarrow> 'n vec \<Rightarrow> ('q, 'n, 'h) transform_stamped \<Rightarrow> ('q, 'n, 'h, 'x) stamped" where
  "do_transform_vector3 lm v tr = Vector3Stamped (trans_header tr) (rotated lm tr v)"

definition do_transform_pose ::
    "('q, 'n) linear_math \<Rightarrow> 'n vec \<Rightarrow> 'q \<Rightarrow> ('q, 'n, 'h) transform_stamped \<Rightarrow> ('q, 'n, 'h, 'x) stamped" where
  "do_transform_pose lm position orientation tr =
     (let (q, t) = compose lm (rotation tr, translation tr) (orientation, position) in
      PoseStamped (trans_header tr) t q)"

definition do_transform_wrench ::
    "('q, 'n :: zero) linear_math \<Rightarrow> 'n vec \<Rightarrow> 'n vec \<Rightarrow> ('q, 'n, 'h) transform_stamped \<Rightarrow> ('q, 'n, 'h, 'x) stamped" where
  "do_transform_wrench lm force torque tr =
     WrenchStamped (trans_header tr) (rotated lm tr force) (rotated lm tr torque)"

definition do_transform_cloud ::
    "('q, 'n) linear_math \<Rightarrow> ('n vec \<times> 'x) list \<Rightarrow> ('q, 'n, 'h) transform_stamped \<Rightarrow> ('q, 'n, 'h, 'x) stamped" where
  "do_transform_cloud lm points tr =
     PointCloud2 (trans_header tr) (map (\<lambda>(v, x). (move lm (rotation tr) (translation tr) v, x)) points)"

fun do_transform ::
    "('q, 'n :: zero) linear_math \<Rightarrow> ('q, 'n, 'h, 'x) stamped \<Rightarrow> ('q, 'n, 'h) transform_stamped \<Rightarrow>
     ('q, 'n, 'h, 'x) stamped result" where
  "do_transform lm (PointStamped h v) tr = Inr (do_transform_point lm v tr)"
| "do_transform lm (Vector3Stamped h v) tr = Inr (do_transform_vector3 lm v tr)"
| "do_transform lm (PoseStamped h v q) tr = Inr (do_transform_pose lm v q tr)"
| "do_transform lm (WrenchStamped h f t) tr = Inr (do_transform_wrench lm f t tr)"
| "do_transform lm (PointCloud2 h points) tr = Inr (do_transform_cloud lm points tr)"
| "do_transform lm (OtherMessage h) tr = Inl TypeError"

fun stamped_header :: "('q, 'n, 'h, 'x) stamped \<Rightarrow> 'h" where
  "stamped_header (PointStamped h v) = h"
| "stamped_header (Vector3Stamped h v) = h"
| "stamped_header (PoseStamped h v q) = h"
| "stamped_header (WrenchStamped h f t) = h"
| "stamped_header (PointCloud2 h points) = h"
| "stamped_header (OtherMessage h) = h"

text \<open>\<open>BufferInterface.transform\<close>: look up, by the header of the message, then transform.\<close>

definition transform_message ::
    "('q, 'n :: zero) linear_math \<Rightarrow> ('h \<Rightarrow> ('q, 'n, 'h) transform_stamped result) \<Rightarrow> ('q, 'n, 'h, 'x) stamped \<Rightarrow>
     ('q, 'n, 'h, 'x) stamped result" where
  "transform_message lm lookup msg =
     bind_result (lookup (stamped_header msg)) (\<lambda>tr. do_transform lm msg tr)"

definition vec_add :: "'n :: plus vec \<Rightarrow> 'n vec \<Rightarrow> 'n vec" where
  "vec_add v w = (case (v, w) of ((a, b, c), (x, y, z)) \<Rightarrow> (a + x, b + y, c + z))"

definition vec_diff :: "'n :: minus vec \<Rightarrow> 'n vec \<Rightarrow> 'n vec" where
  "vec_diff v w = (case (v, w) of ((a, b, c), (x, y, z)) \<Rightarrow> (a - x, b - y, c - z))"

text \<open>What \<open>tf2::Transform\<close> documents: rotating is linear and the translation is added; composing
  is doing one after another.\<close>

definition linear_math_law :: "('q, 'n :: ab_group_add) linear_math \<Rightarrow> bool" where
  "linear_math_law lm \<longleftrightarrow>
     (\<forall>q v w. move lm q (0, 0, 0) (vec_diff v w) = vec_diff (move lm q (0, 0, 0) v) (move lm q (0, 0, 0) w)) \<and>
     (\<forall>q t v. move lm q t v = vec_add (move lm q (0, 0, 0) v) t) \<and>
     (\<forall>a b v. move lm (fst (compose lm a b)) (snd (compose lm a b)) v =
       move lm (fst a) (snd a) (move lm (fst b) (snd b) v))"

text \<open>The kinds of message are transformed in accord with each other: the difference of two points
  is transformed as a vector is, the points of a cloud as single points are, the two parts of a wrench as
  vectors are, and a point given relative to a pose lands at the same place when the pose is transformed
  and when the point is. Each result carries the header of the transform.\<close>

theorem transforms_agree:
  fixes lm :: "('q, 'n :: ab_group_add) linear_math"
  assumes "linear_math_law lm"
  shows "(\<exists>v' w'. do_transform lm (PointStamped h v) tr = Inr (PointStamped (trans_header tr) v') \<and>
      do_transform lm (PointStamped h w) tr = Inr (PointStamped (trans_header tr) w') \<and>
      do_transform lm (Vector3Stamped h (vec_diff v w)) tr = Inr (Vector3Stamped (trans_header tr) (vec_diff v' w')) \<and>
      do_transform lm (PointCloud2 h [(v, x), (w, y)]) tr = Inr (PointCloud2 (trans_header tr) [(v', x), (w', y)]) \<and>
      do_transform lm (WrenchStamped h (vec_diff v w) (vec_diff w v)) tr =
        Inr (WrenchStamped (trans_header tr) (vec_diff v' w') (vec_diff w' v'))) \<and>
    (\<exists>s' p'. do_transform lm (PoseStamped h s p) tr = Inr (PoseStamped (trans_header tr) s' p') \<and>
      do_transform lm (PointStamped h (move lm p s u)) tr = Inr (PointStamped (trans_header tr) (move lm p' s' u)))"
proof -
  have linear: "move lm q (0, 0, 0) (vec_diff v w) = vec_diff (move lm q (0, 0, 0) v) (move lm q (0, 0, 0) w)"
    and moved: "move lm q t v = vec_add (move lm q (0, 0, 0) v) t" for q t v w
    using assms unfolding linear_math_law_def by blast+
  have cancel: "vec_diff (vec_add a t) (vec_add b t) = vec_diff a b" for a b t :: "'n vec"
    by (simp add: vec_diff_def vec_add_def split: prod.split)
  have diff: "vec_diff (move lm q t v) (move lm q t w) = move lm q (0, 0, 0) (vec_diff v w)" for q t v w
    by (simp only: moved [of q t] cancel linear)
  obtain p' s' where c: "compose lm (rotation tr, translation tr) (p, s) = (p', s')"
    using that by (cases "compose lm (rotation tr, translation tr) (p, s)") blast
  have composed: "move lm (fst (compose lm a b)) (snd (compose lm a b)) v =
      move lm (fst a) (snd a) (move lm (fst b) (snd b) v)" for a b v
    using assms unfolding linear_math_law_def by blast
  from composed [of "(rotation tr, translation tr)" "(p, s)" u] c
  have "move lm p' s' u = move lm (rotation tr) (translation tr) (move lm p s u)" by simp
  then show ?thesis
    by (simp add: do_transform_point_def do_transform_vector3_def do_transform_wrench_def do_transform_cloud_def
        do_transform_pose_def rotated_def diff c)
qed

text \<open>A world without rotation.\<close>

definition shift_math :: "(unit, int) linear_math" where
  "shift_math =
     \<lparr>move = (\<lambda>q (a, b, c) (x, y, z). (a + x, b + y, c + z)),
      compose = (\<lambda>(q, (a, b, c)) (p, (x, y, z)). ((), (a + x, b + y, c + z)))\<rparr>"

definition demo_transform :: "(unit, int, string) transform_stamped" where
  "demo_transform = \<lparr>trans_header = ''m'', rotation = (), translation = (5, 5, 5)\<rparr>"

theorem transforms_agree_witness:
  "\<exists>v' w'. do_transform shift_math (PointStamped ''h'' (1, 2, 3)) demo_transform =
       Inr (PointStamped ''m'' v' :: (unit, int, string, nat) stamped) \<and>
     do_transform shift_math (PointStamped ''h'' (1, 1, 1)) demo_transform =
       Inr (PointStamped ''m'' w' :: (unit, int, string, nat) stamped) \<and>
     do_transform shift_math (Vector3Stamped ''h'' (vec_diff (1, 2, 3) (1, 1, 1))) demo_transform =
       Inr (Vector3Stamped ''m'' (vec_diff v' w') :: (unit, int, string, nat) stamped)"
proof -
  have law: "linear_math_law shift_math"
    by (auto simp: linear_math_law_def shift_math_def vec_diff_def vec_add_def)
  have "trans_header demo_transform = ''m''" by (simp add: demo_transform_def)
  with transforms_agree [OF law, of "''h''" "(1, 2, 3)" demo_transform "(1, 1, 1)" "0 :: nat" "0 :: nat" "(0, 0, 0)" "()" "(0, 0, 0)"]
  show ?thesis unfolding One_nat_def by (metis (no_types, lifting))
qed

section \<open>The client of a buffer server\<close>

datatype tf_error =
    LookupException string
  | ConnectivityException string
  | ExtrapolationException string
  | InvalidArgumentException string
  | TimeoutException string
  | TransformException string
  | TfRaised py_error

text \<open>The numbers of the errors are constants of a generated message class.\<close>

record tf_codes =
  NO_ERROR :: int
  LOOKUP_ERROR :: int
  CONNECTIVITY_ERROR :: int
  EXTRAPOLATION_ERROR :: int
  INVALID_ARGUMENT_ERROR :: int
  TIMEOUT_ERROR :: int

record 't tf_result =
  tf_error_no :: int
  tf_error_text :: string
  tf_transform :: 't

text \<open>
  \<open>(await self._action.send_goal(goal)).wait_for_result()\<close>: the \<open>await\<close> binds to the sending,
  so the result is the coroutine of \<open>wait_for_result\<close>, which is true and has no \<open>error\<close>.
\<close>

datatype 'a awaitable = Coroutine | Value 'a

definition check_result :: "tf_codes \<Rightarrow> 't tf_result option awaitable \<Rightarrow> tf_error + 't" where
  "check_result codes result =
     (case result of
        Coroutine \<Rightarrow> Inl (TfRaised AttributeError)
      | Value None \<Rightarrow> Inl (TransformException ''No result from server'')
      | Value (Some r) \<Rightarrow>
          let e = tf_error_no r; msg = tf_error_text r in
          if e \<noteq> NO_ERROR codes then
            Inl (if e = LOOKUP_ERROR codes then LookupException msg
                 else if e = CONNECTIVITY_ERROR codes then ConnectivityException msg
                 else if e = EXTRAPOLATION_ERROR codes then ExtrapolationException msg
                 else if e = INVALID_ARGUMENT_ERROR codes then InvalidArgumentException msg
                 else if e = TIMEOUT_ERROR codes then TimeoutException msg
                 else TransformException msg)
          else Inr (tf_transform r))"

definition call_action :: "tf_codes \<Rightarrow> ('s \<Rightarrow> (unit, 's) outcome) \<Rightarrow> 's \<Rightarrow> (tf_error + 't) \<times> 's" where
  "call_action codes send s =
     (case send s of (Inl e, s') \<Rightarrow> (Inl (TfRaised e), s') | (Inr _, s') \<Rightarrow> (check_result codes Coroutine, s'))"

text \<open>The goals; what is not given has its default, a time or duration of zero and an empty text.\<close>

record lookup_goal =
  target_frame :: string
  source_frame :: string
  source_time :: time
  time_limit :: time
  target_time :: time
  fixed_frame :: string
  advanced :: bool

definition client_goal :: "string \<Rightarrow> string \<Rightarrow> time \<Rightarrow> time option \<Rightarrow> lookup_goal" where
  "client_goal target source t timeout =
     \<lparr>target_frame = target, source_frame = source, source_time = t,
      time_limit = (case timeout of None \<Rightarrow> 0 | Some d \<Rightarrow> d),
      target_time = 0, fixed_frame = [], advanced = False\<rparr>"

definition client_goal_full ::
    "string \<Rightarrow> time \<Rightarrow> string \<Rightarrow> time \<Rightarrow> string \<Rightarrow> time option \<Rightarrow> lookup_goal" where
  "client_goal_full target t' source t fixed timeout =
     \<lparr>target_frame = target, source_frame = source, source_time = t,
      time_limit = (case timeout of None \<Rightarrow> 0 | Some d \<Rightarrow> d),
      target_time = t', fixed_frame = fixed, advanced = True\<rparr>"

definition client_lookup ::
    "tf_codes \<Rightarrow> (lookup_goal \<Rightarrow> 's \<Rightarrow> (unit, 's) outcome) \<Rightarrow> string \<Rightarrow> string \<Rightarrow> time \<Rightarrow> time option \<Rightarrow>
     's \<Rightarrow> (tf_error + 't) \<times> 's" where
  "client_lookup codes send target source t timeout =
     call_action codes (send (client_goal target source t timeout))"

definition client_lookup_full ::
    "tf_codes \<Rightarrow> (lookup_goal \<Rightarrow> 's \<Rightarrow> (unit, 's) outcome) \<Rightarrow> string \<Rightarrow> time \<Rightarrow> string \<Rightarrow> time \<Rightarrow> string \<Rightarrow>
     time option \<Rightarrow> 's \<Rightarrow> (tf_error + 't) \<times> 's" where
  "client_lookup_full codes send target t' source t fixed timeout =
     call_action codes (send (client_goal_full target t' source t fixed timeout))"

text \<open>\<open>can_transform\<close> makes a coroutine of the lookup and drops it.\<close>

definition client_can_transform :: "'s \<Rightarrow> bool \<times> 's" where
  "client_can_transform s = (True, s)"

lemma call_action_fails: "\<exists>e. fst (call_action codes send s) = Inl e"
  by (auto simp: call_action_def check_result_def split: prod.splits sum.splits)

text \<open>The client says of every transform that there is one, and gives none, whatever is answered.\<close>

lemma client_never_answers:
  "fst (client_can_transform s) \<and> (\<exists>e. fst (client_lookup codes send target source t timeout s') = Inl e)"
  by (simp add: client_can_transform_def client_lookup_def call_action_fails)

section \<open>A buffer\<close>

text \<open>
  \<open>BufferCore\<close> is C++; the four questions \<open>Buffer\<close> asks it, and what it does to it, are a record of
  functions on its state \<open>'c\<close>. While a call waits, other tasks change that state, so each round of a
  wait has a state of its own, and the final lookup another one.
\<close>

record ('c, 't) buffer_core =
  core_can :: "'c \<Rightarrow> string \<Rightarrow> string \<Rightarrow> time \<Rightarrow> bool result"
  core_can_full :: "'c \<Rightarrow> string \<Rightarrow> time \<Rightarrow> string \<Rightarrow> time \<Rightarrow> string \<Rightarrow> bool result"
  core_lookup :: "'c \<Rightarrow> string \<Rightarrow> string \<Rightarrow> time \<Rightarrow> 't result"
  core_lookup_full :: "'c \<Rightarrow> string \<Rightarrow> time \<Rightarrow> string \<Rightarrow> time \<Rightarrow> string \<Rightarrow> 't result"
  core_set :: "'t \<Rightarrow> string \<Rightarrow> bool \<Rightarrow> 'c \<Rightarrow> (unit, 'c) outcome"
  core_clear :: "'c \<Rightarrow> 'c"

text \<open>A wait: the time limit, the clock at the start, the state then, the rounds, the state at the end.\<close>

record 'c waiting =
  wait_limit :: "time option"
  wait_start :: time
  wait_core :: 'c
  wait_rounds :: "(time \<times> 'c) list"
  wait_end :: 'c

definition wait_for :: "('c \<Rightarrow> bool result) \<Rightarrow> 'c waiting \<Rightarrow> bool result option" where
  "wait_for can w =
     run_sync_with_timeout (can (wait_core w)) (wait_limit w) (wait_start w)
       (map (\<lambda>(now, c). (now, can c)) (wait_rounds w))"

definition buffer_set_transform :: "('c, 't) buffer_core \<Rightarrow> 't \<Rightarrow> string \<Rightarrow> bool \<Rightarrow> 'c \<Rightarrow> (unit, 'c) outcome" where
  "buffer_set_transform ops tr authority is_static = core_set ops tr authority is_static"

definition buffer_clear :: "('c, 't) buffer_core \<Rightarrow> 'c \<Rightarrow> 'c" where
  "buffer_clear ops = core_clear ops"

definition buffer_can_transform ::
    "('c, 't) buffer_core \<Rightarrow> string \<Rightarrow> string \<Rightarrow> time \<Rightarrow> 'c waiting \<Rightarrow> bool result option" where
  "buffer_can_transform ops target source t = wait_for (\<lambda>c. core_can ops c target source t)"

definition buffer_can_transform_full ::
    "('c, 't) buffer_core \<Rightarrow> string \<Rightarrow> time \<Rightarrow> string \<Rightarrow> time \<Rightarrow> string \<Rightarrow> 'c waiting \<Rightarrow> bool result option" where
  "buffer_can_transform_full ops target t' source t fixed = wait_for (\<lambda>c. core_can_full ops c target t' source t fixed)"

definition buffer_lookup_transform ::
    "('c, 't) buffer_core \<Rightarrow> string \<Rightarrow> string \<Rightarrow> time \<Rightarrow> 'c waiting \<Rightarrow> 't result option" where
  "buffer_lookup_transform ops target source t w =
     buffer_lookup (buffer_can_transform ops target source t w) (core_lookup ops (wait_end w) target source t)"

definition buffer_lookup_transform_full ::
    "('c, 't) buffer_core \<Rightarrow> string \<Rightarrow> time \<Rightarrow> string \<Rightarrow> time \<Rightarrow> string \<Rightarrow> 'c waiting \<Rightarrow> 't result option" where
  "buffer_lookup_transform_full ops target t' source t fixed w =
     buffer_lookup (buffer_can_transform_full ops target t' source t fixed w)
       (core_lookup_full ops (wait_end w) target t' source t fixed)"

text \<open>\<open>transform\<close> and \<open>transform_full\<close> of a buffer, for a message whose header has a frame and a time.\<close>

definition buffer_transform ::
    "('q, 'n :: zero) linear_math \<Rightarrow> ('c, ('q, 'n, string \<times> time) transform_stamped) buffer_core \<Rightarrow>
     ('q, 'n, string \<times> time, 'x) stamped \<Rightarrow> string \<Rightarrow> 'c waiting \<Rightarrow> ('q, 'n, string \<times> time, 'x) stamped result option" where
  "buffer_transform lm ops msg target w =
     (let (frame, stamp) = stamped_header msg in
      map_option (\<lambda>found. bind_result found (do_transform lm msg)) (buffer_lookup_transform ops target frame stamp w))"

definition buffer_transform_full ::
    "('q, 'n :: zero) linear_math \<Rightarrow> ('c, ('q, 'n, string \<times> time) transform_stamped) buffer_core \<Rightarrow>
     ('q, 'n, string \<times> time, 'x) stamped \<Rightarrow> string \<Rightarrow> time \<Rightarrow> string \<Rightarrow> 'c waiting \<Rightarrow>
     ('q, 'n, string \<times> time, 'x) stamped result option" where
  "buffer_transform_full lm ops msg target t' fixed w =
     (let (frame, stamp) = stamped_header msg in
      map_option (\<lambda>found. bind_result found (do_transform lm msg))
        (buffer_lookup_transform_full ops target t' frame stamp fixed w))"

text \<open>What the core documents: where it says that a transform can be made, it makes it.\<close>

definition core_law :: "('c, 't) buffer_core \<Rightarrow> bool" where
  "core_law ops \<longleftrightarrow>
     (\<forall>c a b t. core_can ops c a b t = Inr True \<longrightarrow> (\<exists>tr. core_lookup ops c a b t = Inr tr)) \<and>
     (\<forall>c a s b t d. core_can_full ops c a s b t d = Inr True \<longrightarrow> (\<exists>tr. core_lookup_full ops c a s b t d = Inr tr))"

text \<open>The rounds of a wait until the answer is yes, all of them in time.\<close>

definition in_time :: "('c \<Rightarrow> bool result) \<Rightarrow> 'c waiting \<Rightarrow> bool" where
  "in_time can w \<longleftrightarrow>
     (case wait_limit w of
        None \<Rightarrow> can (wait_core w) = Inr True
      | Some d \<Rightarrow> (\<exists>early now c late. wait_rounds w = early @ (now, c) # late \<and> now < wait_start w + d \<and> can c = Inr True \<and>
          (\<forall>(t, c)\<in>set early. t < wait_start w + d \<and> can c = Inr False)))"

lemma poll_until_found:
  "\<forall>(t, reply)\<in>set early. t < until \<and> reply = Inr False \<Longrightarrow> now < until \<Longrightarrow>
     poll_until until (early @ (now, Inr True) # late) = Some (Inr True)"
  by (induction early) auto

lemma wait_for_found:
  assumes "in_time can w"
  shows "wait_for can w = Some (Inr True)"
proof (cases "wait_limit w")
  case None
  with assms show ?thesis by (simp add: in_time_def wait_for_def run_sync_with_timeout_def)
next
  case (Some d)
  with assms obtain early now c late where r: "wait_rounds w = early @ (now, c) # late" "now < wait_start w + d"
    "can c = Inr True" "\<forall>(t, c)\<in>set early. t < wait_start w + d \<and> can c = Inr False"
    by (auto simp: in_time_def)
  then have "\<forall>(t, reply)\<in>set (map (\<lambda>(now, c). (now, can c)) early). t < wait_start w + d \<and> reply = Inr False" by auto
  from poll_until_found [OF this r(2)] show ?thesis
    by (simp add: wait_for_def run_sync_with_timeout_def Some r(1,3))
qed


text \<open>A core that knows one transform, or not yet.\<close>

definition shift_core :: "((unit, int, string \<times> time) transform_stamped option, (unit, int, string \<times> time) transform_stamped) buffer_core" where
  "shift_core =
     \<lparr>core_can = (\<lambda>c a b t. Inr (c \<noteq> None)), core_can_full = (\<lambda>c a s b t d. Inr (c \<noteq> None)),
      core_lookup = (\<lambda>c a b t. case c of None \<Rightarrow> Inl RuntimeError | Some tr \<Rightarrow> Inr tr),
      core_lookup_full = (\<lambda>c a s b t d. case c of None \<Rightarrow> Inl RuntimeError | Some tr \<Rightarrow> Inr tr),
      core_set = (\<lambda>tr authority is_static c. (Inr (), Some tr)), core_clear = (\<lambda>c. None)\<rparr>"

definition shift_there :: "(unit, int, string \<times> time) transform_stamped option" where
  "shift_there = Some \<lparr>trans_header = (''m'', 7), rotation = (), translation = (5, 5, 5)\<rparr>"

definition shift_wait :: "time option \<Rightarrow> (unit, int, string \<times> time) transform_stamped option waiting" where
  "shift_wait limit =
     \<lparr>wait_limit = limit, wait_start = 0, wait_core = None, wait_rounds = [(0, None), (50000000, shift_there)],
      wait_end = shift_there\<rparr>"

lemma shift_core_law: "core_law shift_core"
  by (auto simp: core_law_def shift_core_def)


text \<open>With a time limit of zero, \<open>can_transform\<close> denies what \<open>lookup_transform\<close> with the same arguments
  gives.\<close>

lemma can_and_lookup_differ:
  assumes "core_law ops" "wait_limit w = Some 0" "wait_rounds w = (now, c) # rounds" "wait_start w \<le> now"
    and "core_can ops (wait_end w) target source t = Inr True"
  shows "buffer_can_transform ops target source t w = Some (Inr False) \<and>
    (\<exists>tr. buffer_lookup_transform ops target source t w = Some (Inr tr))"
proof -
  have "buffer_can_transform ops target source t w = Some (Inr False)"
    using assms(2-4) by (simp add: buffer_can_transform_def wait_for_def run_sync_with_timeout_def)
  moreover from assms(1,5) obtain tr where "core_lookup ops (wait_end w) target source t = Inr tr"
    unfolding core_law_def by blast
  ultimately show ?thesis by (simp add: buffer_lookup_transform_def buffer_lookup_def)
qed

definition client_can_transform_full :: "'s \<Rightarrow> bool \<times> 's" where
  "client_can_transform_full s = (True, s)"

end
