(* ===== verification/Xmlrpc_Text.thy ===== *)
theory Xmlrpc_Text
  imports Values Py_Text
begin

text \<open>
  The texts inside XML-RPC values, for \<open>aioros/xmlrpc/_protocol/_common.py\<close>: base 64
  (\<open>base64.b64encode\<close>, \<open>b64decode\<close>) and dates (\<open>strftime\<close>,
  \<open>strptime\<close> with the formats the code uses, \<open>xml2datetime\<close>), with the round trips.
\<close>

section \<open>Base 64\<close>

definition b64_alphabet :: string where
  "b64_alphabet = ''ABCDEFGHIJKLMNOPQRSTUVWXYZabcdefghijklmnopqrstuvwxyz0123456789+/''"

definition b64_char :: "nat \<Rightarrow> char" where
  "b64_char n = b64_alphabet ! n"

definition b64_value :: "char \<Rightarrow> nat option" where
  "b64_value c = find (\<lambda>n. b64_char n = c) [0..<64]"

abbreviation pad_char :: char where
  "pad_char \<equiv> CHR ''=''"

fun b64encode :: "nat list \<Rightarrow> string" where
  "b64encode [] = []"
| "b64encode [a] = [b64_char (a div 4), b64_char (a mod 4 * 16), pad_char, pad_char]"
| "b64encode [a, b] =
     [b64_char (a div 4), b64_char (a mod 4 * 16 + b div 16), b64_char (b mod 16 * 4), pad_char]"
| "b64encode (a # b # c # rest) =
     b64_char (a div 4) # b64_char (a mod 4 * 16 + b div 16) # b64_char (b mod 16 * 4 + c div 64) #
     b64_char (c mod 64) # b64encode rest"

text \<open>
  \<open>binascii.a2b_base64\<close>, not strict: the position in a group of four, the bits left over, the
  padding seen. Other characters are skipped; complete padding ends the input.
\<close>

fun a2b_base64 :: "nat \<Rightarrow> nat \<Rightarrow> nat \<Rightarrow> string \<Rightarrow> nat list result" where
  "a2b_base64 pos left pads [] = (if pos = 0 then Inr [] else Inl ValueError)"
| "a2b_base64 pos left pads (c # cs) =
     (if c = pad_char then
        (if 2 \<le> pos then
           (if 4 \<le> pos + Suc pads then Inr [] else a2b_base64 pos left (Suc pads) cs)
         else a2b_base64 pos left pads cs)
      else
        case b64_value c of
          None \<Rightarrow> a2b_base64 pos left pads cs
        | Some v \<Rightarrow>
            if pos = 0 then a2b_base64 1 v 0 cs
            else if pos = 1 then
              bind_result (a2b_base64 2 (v mod 16) 0 cs) (\<lambda>bs. Inr ((left * 4 + v div 16) # bs))
            else if pos = 2 then
              bind_result (a2b_base64 3 (v mod 4) 0 cs) (\<lambda>bs. Inr ((left * 16 + v div 4) # bs))
            else bind_result (a2b_base64 0 0 0 cs) (\<lambda>bs. Inr ((left * 64 + v) # bs)))"

definition b64decode :: "string \<Rightarrow> nat list result" where
  "b64decode s = (if \<exists>c\<in>set s. 128 \<le> (of_char c :: nat) then Inl ValueError else a2b_base64 0 0 0 s)"

lemma b64_alphabet_facts:
  "length b64_alphabet = 64" "distinct b64_alphabet" "list_all (\<lambda>c. graphic c \<and> c \<noteq> pad_char) b64_alphabet"
  by (simp_all add: b64_alphabet_def graphic_def)

lemma b64_char_facts: "n < 64 \<Longrightarrow> graphic (b64_char n) \<and> b64_char n \<noteq> pad_char"
  using b64_alphabet_facts nth_mem [of n b64_alphabet] by (auto simp: b64_char_def list_all_iff)

lemma b64_value_char [simp]: "n < 64 \<Longrightarrow> b64_value (b64_char n) = Some n"
  using b64_alphabet_facts
  by (auto simp: b64_value_def b64_char_def find_Some_iff nth_eq_iff_index_eq intro!: exI [of _ n])

lemma b64_char_not_pad [simp]: "n < 64 \<Longrightarrow> b64_char n \<noteq> pad_char"
  using b64_char_facts by blast

lemma shifted [simp]:
  fixes x y :: nat
  shows "y < 16 \<Longrightarrow> (x * 16 + y) div 16 = x" "y < 16 \<Longrightarrow> (x * 16 + y) mod 16 = y"
    "y < 4 \<Longrightarrow> (x * 4 + y) div 4 = x" "y < 4 \<Longrightarrow> (x * 4 + y) mod 4 = y"
  by simp_all

lemma div_bounds [simp]:
  fixes a :: nat
  assumes "a < 256"
  shows "a div 4 < 64" "a div 16 < 16" "a div 64 < 4"
  using assms by (simp_all add: less_mult_imp_div_less)

lemma digit_bounds [simp]:
  fixes x y :: nat
  shows "x < 4 \<Longrightarrow> y < 16 \<Longrightarrow> x * 16 + y < 64" "x < 16 \<Longrightarrow> y < 4 \<Longrightarrow> x * 4 + y < 64"
    "x < 4 \<Longrightarrow> x * 16 < 64" "x < 16 \<Longrightarrow> x * 4 < 64"
  by simp_all

lemma a2b_b64encode: "\<forall>b\<in>set bs. b < 256 \<Longrightarrow> a2b_base64 0 0 0 (b64encode bs) = Inr bs"
proof (induction bs rule: b64encode.induct)
  case (2 a)
  have "a mod 4 * 16 div 16 = a mod 4" by simp
  with 2 show ?case by simp
next
  case (3 a b)
  then show ?case by simp
next
  case (4 a b c rest)
  then show ?case by simp
qed simp

lemma b64_char_ascii [simp]: "n < 64 \<Longrightarrow> (of_char (b64_char n) :: nat) < 128"
  using b64_char_facts by (auto simp: graphic_def)

lemma b64encode_ascii:
  "\<forall>b\<in>set bs. b < 256 \<Longrightarrow> c \<in> set (b64encode bs) \<Longrightarrow> (of_char c :: nat) < 128"
  by (induction bs rule: b64encode.induct) auto

lemma b64decode_encode:
  assumes "\<forall>b\<in>set bs. b < 256"
  shows "b64decode (b64encode bs) = Inr bs"
proof -
  have "\<not> 128 \<le> (of_char c :: nat)" if "c \<in> set (b64encode bs)" for c
    using b64encode_ascii [OF assms that] by simp
  then show ?thesis using a2b_b64encode [OF assms] by (auto simp: b64decode_def)
qed

section \<open>Dates\<close>

text \<open>
  \<open>strftime\<close> pads months, days and times to two digits and leaves the year as it is;
  \<open>strptime\<close> compiles a format to a regular expression, takes its first match at the start of
  the text (alternatives in their order) and raises when text is left over or the date does not exist.
\<close>

definition pad2 :: "nat \<Rightarrow> string" where
  "pad2 n = [digit_char (n div 10), digit_char (n mod 10)]"

fun strftime :: "nat list \<Rightarrow> string" where
  "strftime [y, mo, d, h, mi, s] =
     show_nat y @ pad2 mo @ pad2 d @ ''T'' @ pad2 h @ '':'' @ pad2 mi @ '':'' @ pad2 s"
| "strftime _ = []"

type_synonym char_class = "char \<Rightarrow> bool"

definition between :: "nat \<Rightarrow> nat \<Rightarrow> char_class" where
  "between a b c \<longleftrightarrow> (case digit_value c of None \<Rightarrow> False | Some d \<Rightarrow> a \<le> d \<and> d \<le> b)"

abbreviation digit :: char_class where
  "digit \<equiv> between 0 9"

definition match_alt :: "char_class list \<Rightarrow> string \<Rightarrow> (string \<times> string) list" where
  "match_alt classes s =
     (if length classes \<le> length s \<and> list_all2 (\<lambda>p c. p c) classes (take (length classes) s)
      then [(take (length classes) s, drop (length classes) s)] else [])"

definition match_alts :: "char_class list list \<Rightarrow> string \<Rightarrow> (string \<times> string) list" where
  "match_alts alts s = concat (map (\<lambda>classes. match_alt classes s) alts)"

datatype format_item = Field "char_class list list" | Literal "char_class"

definition field_value :: "string \<Rightarrow> nat" where
  "field_value s = (case parse_digits False 0 (filter digit s) of None \<Rightarrow> 0 | Some n \<Rightarrow> n)"

fun match_format :: "format_item list \<Rightarrow> string \<Rightarrow> (nat list \<times> string) list" where
  "match_format [] s = [([], s)]"
| "match_format (Field alts # items) s =
     concat (map (\<lambda>(t, rest). map (\<lambda>(vs, r). (field_value t # vs, r)) (match_format items rest))
       (match_alts alts s))"
| "match_format (Literal p # items) s =
     concat (map (\<lambda>(t, rest). match_format items rest) (match_alt [p] s))"

definition year_field :: format_item where
  "year_field = Field [[digit, digit, digit, digit]]"

definition month_field :: format_item where
  "month_field = Field [[between 1 1, between 0 2], [between 0 0, between 1 9], [between 1 9]]"

definition day_field :: format_item where
  "day_field = Field [[between 3 3, between 0 1], [between 1 2, digit], [between 0 0, between 1 9], [between 1 9],
     [\<lambda>c. c = CHR '' '', between 1 9]]"

definition hour_field :: format_item where
  "hour_field = Field [[between 2 2, between 0 3], [between 0 1, digit], [digit]]"

definition minute_field :: format_item where
  "minute_field = Field [[between 0 5, digit], [digit]]"

definition second_field :: format_item where
  "second_field = Field [[between 6 6, between 0 1], [between 0 5, digit], [digit]]"

definition letter_T :: format_item where
  "letter_T = Literal (\<lambda>c. c = CHR ''T'' \<or> c = CHR ''t'')"

definition colon :: format_item where
  "colon = Literal (\<lambda>c. c = CHR '':'')"

definition time_formats :: "format_item list list" where
  "time_formats =
     [[year_field, month_field, day_field, letter_T, hour_field, colon, minute_field, colon, second_field],
      [year_field, month_field, day_field, letter_T, hour_field, minute_field, second_field]]"

definition leap_year :: "nat \<Rightarrow> bool" where
  "leap_year y \<longleftrightarrow> y mod 4 = 0 \<and> (y mod 100 \<noteq> 0 \<or> y mod 400 = 0)"

definition days_in_month :: "nat \<Rightarrow> nat \<Rightarrow> nat" where
  "days_in_month y mo =
     (if mo = 2 then (if leap_year y then 29 else 28) else if mo \<in> {4, 6, 9, 11} then 30 else 31)"

fun valid_datetime :: "nat list \<Rightarrow> bool" where
  "valid_datetime [y, mo, d, h, mi, s] \<longleftrightarrow>
     1 \<le> y \<and> y \<le> 9999 \<and> 1 \<le> mo \<and> mo \<le> 12 \<and> 1 \<le> d \<and> d \<le> days_in_month y mo \<and> h < 24 \<and> mi < 60 \<and> s < 60"
| "valid_datetime _ \<longleftrightarrow> False"

definition strptime :: "format_item list \<Rightarrow> string \<Rightarrow> nat list result" where
  "strptime fmt s =
     (case match_format fmt s of
        [] \<Rightarrow> Inl ValueError
      | (vs, rest) # _ \<Rightarrow> if rest = [] \<and> valid_datetime vs then Inr vs else Inl ValueError)"

fun try_formats :: "format_item list list \<Rightarrow> string \<Rightarrow> nat list result" where
  "try_formats [] s = Inl ValueError"
| "try_formats (fmt # fmts) s = (case strptime fmt s of Inr vs \<Rightarrow> Inr vs | Inl _ \<Rightarrow> try_formats fmts s)"

definition xml2datetime :: "string \<Rightarrow> pyval result" where
  "xml2datetime s = bind_result (try_formats time_formats s) (\<lambda>vs. Inr (PDateTime vs))"

text \<open>Printing a date of four-digit year and reading it back.\<close>

definition starts :: "('a \<times> 'b) list \<Rightarrow> 'a \<Rightarrow> 'b \<Rightarrow> bool" where
  "starts ms x r \<longleftrightarrow> (\<exists>more. ms = (x, r) # more)"

lemma between_digit [simp]: "d < 10 \<Longrightarrow> between a b (digit_char d) \<longleftrightarrow> a \<le> d \<and> d \<le> b"
  by (simp add: between_def)

lemma match_field:
  "starts (match_alts alts s) t rest \<Longrightarrow> starts (match_format items rest) vs r \<Longrightarrow>
     starts (match_format (Field alts # items) s) (field_value t # vs) r"
  by (auto simp: starts_def)

lemma match_literal:
  "p c \<Longrightarrow> starts (match_format items s) vs r \<Longrightarrow> starts (match_format (Literal p # items) (c # s)) vs r"
  by (auto simp: starts_def match_alt_def)

lemma last_digit [simp]: "n mod 10 \<le> (9 :: nat)"
  using mod_less_divisor [of 10 n] by simp

lemma tens: "n < 100 \<Longrightarrow> n div 10 < 10 \<and> n div 10 \<le> (9 :: nat)"
  by auto

lemma field_value_pad2: "n < 100 \<Longrightarrow> field_value (pad2 n) = n"
  by (simp add: field_value_def pad2_def tens le_simps)

lemma starts_two:
  "starts (match_alts ([p, q] # alts) (c # d # s)) [c, d] s" if "p c" "q d"
  using that by (simp add: starts_def match_alts_def match_alt_def)

lemma starts_skip:
  "\<not> (p c \<and> q d) \<Longrightarrow> starts (match_alts alts (c # d # s)) t r \<Longrightarrow> starts (match_alts ([p, q] # alts) (c # d # s)) t r"
  by (auto simp: starts_def match_alts_def match_alt_def)

lemma starts_pad2:
  assumes "n < 100" "list_ex (\<lambda>(p, q). p (digit_char (n div 10)) \<and> q (digit_char (n mod 10))) pqs"
  shows "starts (match_alts (map (\<lambda>(p, q). [p, q]) pqs @ alts) (pad2 n @ s)) (pad2 n) s"
  using assms(2)
proof (induction pqs)
  case (Cons pq pqs)
  show ?case
  proof (cases "fst pq (digit_char (n div 10)) \<and> snd pq (digit_char (n mod 10))")
    case True
    then show ?thesis by (auto simp: pad2_def case_prod_beta intro: starts_two)
  next
    case False
    with Cons show ?thesis by (auto simp: pad2_def case_prod_beta intro: starts_skip)
  qed
qed simp

lemma match_pad2:
  assumes "list_ex (\<lambda>(p, q). p (digit_char (n div 10)) \<and> q (digit_char (n mod 10))) pqs"
    and "alts = map (\<lambda>(p, q). [p, q]) pqs @ rest" and "n < 100"
    and "starts (match_format items s) vs r"
  shows "starts (match_format (Field alts # items) (pad2 n @ s)) (n # vs) r"
  using match_field [OF starts_pad2 [OF assms(3,1), of rest s] assms(4)] assms(2,3)
  by (simp add: field_value_pad2)

lemma two_digits:
  fixes n :: nat
  assumes "n < 100"
  obtains a b where "n div 10 = a" "n mod 10 = b" "n = 10 * a + b" "a < 10" "b < 10"
  using that [of "n div 10" "n mod 10"] tens [OF assms] by simp

lemma match_month:
  assumes "1 \<le> n" "n \<le> 12" "starts (match_format items s) vs r"
  shows "starts (match_format (month_field # items) (pad2 n @ s)) (n # vs) r"
  unfolding month_field_def
proof (rule match_pad2 [where pqs = "[(between 1 1, between 0 2), (between 0 0, between 1 9)]"])
  have "n < 100" using assms by simp
  then obtain a b where ab: "n div 10 = a" "n mod 10 = b" "n = 10 * a + b" "a < 10" "b < 10" by (rule two_digits)
  then show "list_ex (\<lambda>(p, q). p (digit_char (n div 10)) \<and> q (digit_char (n mod 10)))
      [(between 1 1, between 0 2), (between 0 0, between 1 9)]"
    using assms ab(3-5) unfolding ab(1,2) by simp presburger
qed (use assms in simp_all)

lemma match_day:
  assumes "1 \<le> n" "n \<le> 31" "starts (match_format items s) vs r"
  shows "starts (match_format (day_field # items) (pad2 n @ s)) (n # vs) r"
  unfolding day_field_def
proof (rule match_pad2 [where pqs = "[(between 3 3, between 0 1), (between 1 2, digit), (between 0 0, between 1 9)]"])
  have "n < 100" using assms by simp
  then obtain a b where ab: "n div 10 = a" "n mod 10 = b" "n = 10 * a + b" "a < 10" "b < 10" by (rule two_digits)
  then show "list_ex (\<lambda>(p, q). p (digit_char (n div 10)) \<and> q (digit_char (n mod 10)))
      [(between 3 3, between 0 1), (between 1 2, digit), (between 0 0, between 1 9)]"
    using assms ab(3-5) unfolding ab(1,2) by simp presburger
qed (use assms in simp_all)

lemma match_hour:
  assumes "n < 24" "starts (match_format items s) vs r"
  shows "starts (match_format (hour_field # items) (pad2 n @ s)) (n # vs) r"
  unfolding hour_field_def
proof (rule match_pad2 [where pqs = "[(between 2 2, between 0 3), (between 0 1, digit)]"])
  have "n < 100" using assms by simp
  then obtain a b where ab: "n div 10 = a" "n mod 10 = b" "n = 10 * a + b" "a < 10" "b < 10" by (rule two_digits)
  then show "list_ex (\<lambda>(p, q). p (digit_char (n div 10)) \<and> q (digit_char (n mod 10)))
      [(between 2 2, between 0 3), (between 0 1, digit)]"
    using assms ab(3-5) unfolding ab(1,2) by simp presburger
qed (use assms in simp_all)

lemma sixty: "n < 60 \<Longrightarrow> n div 10 \<le> (5 :: nat) \<and> n div 10 < 10 \<and> n mod 10 \<le> 9"
  by presburger

lemma match_minute:
  assumes "n < 60" "starts (match_format items s) vs r"
  shows "starts (match_format (minute_field # items) (pad2 n @ s)) (n # vs) r"
  unfolding minute_field_def
  by (rule match_pad2 [where pqs = "[(between 0 5, digit)]"]) (use assms sixty [OF assms(1)] in simp_all)

lemma match_second:
  assumes "n < 60" "starts (match_format items s) vs r"
  shows "starts (match_format (second_field # items) (pad2 n @ s)) (n # vs) r"
  unfolding second_field_def
  by (rule match_pad2 [where pqs = "[(between 6 6, between 0 1), (between 0 5, digit)]"])
    (use assms sixty [OF assms(1)] in simp_all)

lemma show_nat_tens: "\<not> n < 10 \<Longrightarrow> show_nat n = show_nat (n div 10) @ [digit_char (n mod 10)]"
  by (subst show_nat.simps) simp

lemma show_year:
  assumes "1000 \<le> y" "y \<le> 9999"
  shows "show_nat y =
    [digit_char (y div 1000), digit_char (y div 100 mod 10), digit_char (y div 10 mod 10), digit_char (y mod 10)]"
proof -
  have "show_nat (y div 1000) = [digit_char (y div 1000)]"
    using assms by (subst show_nat.simps) simp
  moreover have "show_nat (y div 100) = show_nat (y div 1000) @ [digit_char (y div 100 mod 10)]"
    using show_nat_tens [of "y div 100"] assms by (simp add: div_mult2_eq [symmetric])
  moreover have "show_nat (y div 10) = show_nat (y div 100) @ [digit_char (y div 10 mod 10)]"
    using show_nat_tens [of "y div 10"] assms by (simp add: div_mult2_eq [symmetric])
  moreover have "show_nat y = show_nat (y div 10) @ [digit_char (y mod 10)]"
    using show_nat_tens [of y] assms by simp
  ultimately show ?thesis by simp
qed

lemma match_year:
  assumes "1000 \<le> y" "y \<le> 9999" "starts (match_format items s) vs r"
  shows "starts (match_format (year_field # items) (show_nat y @ s)) (y # vs) r"
proof -
  have d: "digit c" if "c \<in> set (show_nat y)" for c
    using show_nat_chars [OF that] by auto
  have "y div 1000 < 10" using assms by simp
  then have "starts (match_alts [[digit, digit, digit, digit]] (show_nat y @ s)) (show_nat y) s"
    by (simp add: show_year [OF assms(1,2)] starts_def match_alts_def match_alt_def le_simps)
  moreover have "field_value (show_nat y) = y"
    using parse_show_nat [of False 0 y "[]"] d by (simp add: field_value_def filter_True)
  ultimately show ?thesis using match_field [OF _ assms(3)] by (fastforce simp: year_field_def)
qed

lemma days_in_month_le: "days_in_month y mo \<le> 31"
  by (simp add: days_in_month_def)

lemma strptime_strftime:
  assumes v: "valid_datetime [y, mo, d, h, mi, s]" and y: "1000 \<le> y"
  shows "xml2datetime (strftime [y, mo, d, h, mi, s]) = Inr (PDateTime [y, mo, d, h, mi, s])"
proof -
  have "d \<le> 31" using v days_in_month_le [of y mo] by simp
  have "starts (match_format [] []) [] ([] :: string)" by (simp add: starts_def)
  then have "starts (match_format [second_field] (pad2 s @ [])) [s] []"
    using v by (intro match_second) simp_all
  then have "starts (match_format [minute_field, colon, second_field] (pad2 mi @ CHR '':'' # pad2 s)) [mi, s] []"
    using v unfolding colon_def by (intro match_minute match_literal) simp_all
  then have "starts (match_format [letter_T, hour_field, colon, minute_field, colon, second_field]
      (CHR ''T'' # pad2 h @ CHR '':'' # pad2 mi @ CHR '':'' # pad2 s)) [h, mi, s] []"
    using v unfolding letter_T_def colon_def by (intro match_literal match_hour) simp_all
  then have "starts (match_format (hd time_formats) (strftime [y, mo, d, h, mi, s])) [y, mo, d, h, mi, s] []"
    using v y \<open>d \<le> 31\<close> by (simp add: time_formats_def match_year match_month match_day)
  then show ?thesis
    using v by (auto simp: xml2datetime_def time_formats_def strptime_def starts_def)
qed

end
