(* ===== verification/Xmlrpc_Values.thy ===== *)
theory Xmlrpc_Values
  imports Xmlrpc_Text
begin

text \<open>
  The values of XML-RPC as XML elements and back, \<open>py2xml\<close> and \<open>xml2py\<close> of
  \<open>aioros/xmlrpc/_protocol/_common.py\<close>.

  An element is its tag, the text before its first child and its children; attributes, comments and
  the text behind a child are not modelled. lxml, which builds elements, is third-party code: which
  strings it admits as text is the parameter \<open>xml_text\<close> (digits, letters and signs it always
  admits). A float is its \<open>repr\<close>, and \<open>float()\<close> on a text is the parameter
  \<open>py_float\<close>.
\<close>

section \<open>Elements\<close>

datatype xml = Elem (tag: string) (text_of: string) (children: "xml list")

definition text_element :: "(string \<Rightarrow> bool) \<Rightarrow> string \<Rightarrow> string \<Rightarrow> xml result" where
  "text_element xml_text t s = (if xml_text s then Inr (Elem t s []) else Inl ValueError)"

definition parent :: "string \<Rightarrow> xml list \<Rightarrow> xml" where
  "parent t es = Elem t [] es"

section \<open>Values to elements\<close>

definition value_element :: "xml \<Rightarrow> xml" where
  "value_element e = parent ''value'' [e]"

fun py2xml :: "(string \<Rightarrow> bool) \<Rightarrow> pyval \<Rightarrow> xml result" where
  "py2xml xml_text (PBytes bs) = bind_result (decode bs) (text_element xml_text ''string'')"
| "py2xml xml_text (PStr s) = text_element xml_text ''string'' s"
| "py2xml xml_text (PFloat r) = Inr (Elem ''double'' r [])"
| "py2xml xml_text (PDateTime d) = Inr (Elem ''dateTime.iso8601'' (strftime d) [])"
| "py2xml xml_text (PInt i) =
     (if -2147483648 < i \<and> i < 2147483647 then Inr (Elem ''i4'' (show_int i) [])
      else Inr (Elem ''double'' (show_int i) []))"
| "py2xml xml_text (PBinary bs) = Inr (Elem ''base64'' (b64encode (map unat bs)) [])"
| "py2xml xml_text (PBool b) = Inr (Elem ''boolean'' (if b then ''1'' else ''0'') [])"
| "py2xml xml_text PNone = Inr (parent ''nil'' [])"
| "py2xml xml_text (PList vs) =
     bind_result (traverse (\<lambda>v. bind_result (py2xml xml_text v) (\<lambda>e. Inr (value_element e))) vs) (\<lambda>es.
       Inr (parent ''array'' [parent ''data'' es]))"
| "py2xml xml_text (PDict d) =
     bind_result (traverse (\<lambda>(key, v).
         bind_result (text_element xml_text ''name'' key) (\<lambda>name.
           bind_result (py2xml xml_text v) (\<lambda>e. Inr (parent ''member'' [name, value_element e])))) d) (\<lambda>es.
       Inr (parent ''struct'' es))"

section \<open>Elements to values\<close>

definition xml2string :: "xml \<Rightarrow> pyval" where
  "xml2string e = PStr (strip (text_of e))"

definition int_or_zero :: "string \<Rightarrow> int result" where
  "int_or_zero s = (if s = [] then Inr 0 else parse_int s)"

definition xml2int :: "xml \<Rightarrow> pyval result" where
  "xml2int e = bind_result (int_or_zero (text_of e)) (\<lambda>i. Inr (PInt i))"

definition xml2bool :: "xml \<Rightarrow> pyval result" where
  "xml2bool e = bind_result (int_or_zero (text_of e)) (\<lambda>i. Inr (PBool (i \<noteq> 0)))"

definition xml2float :: "(string \<Rightarrow> string result) \<Rightarrow> xml \<Rightarrow> pyval result" where
  "xml2float py_float e =
     (if text_of e = [] then Inr (PFloat ''0.0'')
      else bind_result (py_float (text_of e)) (\<lambda>r. Inr (PFloat r)))"

definition xml2binary :: "xml \<Rightarrow> pyval result" where
  "xml2binary e = bind_result (b64decode (text_of e)) (\<lambda>bs. Inr (PBinary (map of_nat bs)))"

definition elements :: "string \<Rightarrow> xml \<Rightarrow> xml list" where
  "elements t e = filter (\<lambda>c. tag c = t) (children e)"

text \<open>The XPath expressions \<open>./a/b\<close>, and \<open>text()\<close>, which an empty element has none of.\<close>

definition path2 :: "string \<Rightarrow> string \<Rightarrow> xml \<Rightarrow> xml list" where
  "path2 a b e = concat (map (elements b) (elements a e))"

definition texts :: "xml list \<Rightarrow> string list" where
  "texts es = filter (\<lambda>s. s \<noteq> []) (map text_of es)"

definition dict_of :: "(string \<times> pyval) list \<Rightarrow> pyval" where
  "dict_of kvs = PDict (fold (\<lambda>(k, v). AList.update k v) kvs [])"

lemma size_child: "c \<in> set (children e) \<Longrightarrow> size c < size e"
  by (cases e) (auto simp: less_Suc_eq_le intro: size_list_estimation' order_trans [OF _ le_add1])

lemma size_elements [termination_simp]: "c \<in> set (elements t e) \<Longrightarrow> size c < size e"
  by (simp add: elements_def size_child)

lemma size_path2 [termination_simp]: "c \<in> set (path2 a b e) \<Longrightarrow> size c < size e"
  unfolding path2_def by (auto dest!: size_elements)

lemma size_zip [termination_simp]: "(n, c) \<in> set (zip ns (path2 a b e)) \<Longrightarrow> size c < size e"
  by (drule set_zip_rightD) (rule size_path2)

function xml2py :: "(string \<Rightarrow> string result) \<Rightarrow> xml \<Rightarrow> pyval result" where
  "xml2py py_float e =
     (if tag e = ''string'' then Inr (xml2string e)
      else if tag e = ''struct'' then
        bind_result
          (traverse (\<lambda>(name, v). bind_result (xml2py py_float v) (\<lambda>x. Inr (name, x)))
            (zip (texts (path2 ''member'' ''name'' e)) (path2 ''member'' ''value'' e)))
          (\<lambda>kvs. Inr (dict_of kvs))
      else if tag e = ''array'' then
        bind_result (traverse (xml2py py_float) (path2 ''data'' ''value'' e)) (\<lambda>vs. Inr (PList vs))
      else if tag e = ''base64'' then xml2binary e
      else if tag e = ''boolean'' then xml2bool e
      else if tag e = ''dateTime.iso8601'' then xml2datetime (text_of e)
      else if tag e = ''double'' then xml2float py_float e
      else if tag e = ''integer'' \<or> tag e = ''int'' \<or> tag e = ''i4'' then xml2int e
      else if tag e = ''nil'' then Inr PNone
      else if tag e = ''value'' then
        (case children e of c # _ \<Rightarrow> xml2py py_float c | [] \<Rightarrow> Inr (PStr (strip (text_of e))))
      else Inl (KeyError (tag e)))"
  by pat_completeness auto

termination xml2py
  by (relation "measure (size o snd)") (auto simp: termination_simp size_child)

declare xml2py.simps [simp del]

section \<open>Round trip\<close>

text \<open>The values that survive: what an element's text keeps.\<close>

fun xmlrpc_ok :: "(string \<Rightarrow> bool) \<Rightarrow> (string \<Rightarrow> string result) \<Rightarrow> pyval \<Rightarrow> bool" where
  "xmlrpc_ok xml_text py_float PNone \<longleftrightarrow> True"
| "xmlrpc_ok xml_text py_float (PBool b) \<longleftrightarrow> True"
| "xmlrpc_ok xml_text py_float (PInt i) \<longleftrightarrow> -2147483648 < i \<and> i < 2147483647"
| "xmlrpc_ok xml_text py_float (PFloat r) \<longleftrightarrow> r \<noteq> [] \<and> py_float r = Inr r"
| "xmlrpc_ok xml_text py_float (PStr s) \<longleftrightarrow> xml_text s \<and> strip s = s"
| "xmlrpc_ok xml_text py_float (PBytes bs) \<longleftrightarrow> False"
| "xmlrpc_ok xml_text py_float (PBinary bs) \<longleftrightarrow> True"
| "xmlrpc_ok xml_text py_float (PDateTime d) \<longleftrightarrow> valid_datetime d \<and> 1000 \<le> hd d"
| "xmlrpc_ok xml_text py_float (PList vs) \<longleftrightarrow> list_all (xmlrpc_ok xml_text py_float) vs"
| "xmlrpc_ok xml_text py_float (PDict d) \<longleftrightarrow>
     distinct (map fst d) \<and> list_all (\<lambda>(k, v). k \<noteq> [] \<and> xml_text k \<and> xmlrpc_ok xml_text py_float v) d"

text \<open>A value that is written as an element, which reads as some value.\<close>

definition transported ::
    "(string \<Rightarrow> bool) \<Rightarrow> (string \<Rightarrow> string result) \<Rightarrow> pyval \<Rightarrow> pyval \<Rightarrow> bool" where
  "transported xml_text py_float v w \<longleftrightarrow> (\<exists>e. py2xml xml_text v = Inr e \<and> xml2py py_float e = Inr w)"

definition transmit :: "(string \<Rightarrow> bool) \<Rightarrow> (string \<Rightarrow> string result) \<Rightarrow> pyval \<Rightarrow> pyval result" where
  "transmit xml_text py_float v = bind_result (py2xml xml_text v) (xml2py py_float)"

lemma transmit_eq: "transmit xml_text py_float v = Inr w \<longleftrightarrow> transported xml_text py_float v w"
  by (auto simp: transmit_def transported_def bind_result_eq_Inr)

lemma xml2py_value [simp]: "xml2py py_float (value_element e) = xml2py py_float e"
  by (subst xml2py.simps) (simp add: value_element_def parent_def)

lemma path2_array: "path2 ''data'' ''value'' (parent ''array'' [parent ''data'' (map value_element es)]) = map value_element es"
  by (simp add: path2_def elements_def parent_def value_element_def filter_map comp_def)

definition member_element :: "string \<Rightarrow> xml \<Rightarrow> xml" where
  "member_element k e = parent ''member'' [Elem ''name'' k [], value_element e]"

lemma path2_struct:
  "path2 ''member'' ''value'' (parent ''struct'' (map (\<lambda>(k, e). member_element k e) kes)) = map (value_element o snd) kes"
  "path2 ''member'' ''name'' (parent ''struct'' (map (\<lambda>(k, e). member_element k e) kes)) =
     map (\<lambda>(k, e). Elem ''name'' k []) kes"
  by (induction kes) (auto simp: path2_def elements_def parent_def value_element_def member_element_def)

lemma texts_names: "texts (map (\<lambda>(k, e). Elem ''name'' k []) kes) = filter (\<lambda>s. s \<noteq> []) (map fst kes)"
  by (induction kes) (auto simp: texts_def)

lemma traverse_transported:
  "(\<And>v. v \<in> set vs \<Longrightarrow> transported xml_text py_float v (f v)) \<Longrightarrow>
     \<exists>es. traverse (\<lambda>v. bind_result (py2xml xml_text v) (\<lambda>e. Inr (value_element e))) vs = Inr (map value_element es) \<and>
       traverse (xml2py py_float) es = Inr (map f vs)"
proof (induction vs)
  case (Cons v vs)
  then obtain es where "traverse (\<lambda>v. bind_result (py2xml xml_text v) (\<lambda>e. Inr (value_element e))) vs = Inr (map value_element es)"
    "traverse (xml2py py_float) es = Inr (map f vs)" by auto
  moreover obtain e where "py2xml xml_text v = Inr e" "xml2py py_float e = Inr (f v)"
    using Cons.prems [of v] by (auto simp: transported_def)
  ultimately show ?case by (intro exI [of _ "e # es"]) simp
qed simp

lemma transported_list:
  assumes "\<And>v. v \<in> set vs \<Longrightarrow> transported xml_text py_float v (f v)"
  shows "transported xml_text py_float (PList vs) (PList (map f vs))"
proof -
  obtain es where "traverse (\<lambda>v. bind_result (py2xml xml_text v) (\<lambda>e. Inr (value_element e))) vs = Inr (map value_element es)"
    and "traverse (xml2py py_float) es = Inr (map f vs)"
    using traverse_transported [where f = f] assms by blast
  then show ?thesis
    by (simp add: transported_def xml2py.simps [of _ "parent _ _"] path2_array traverse_map)
      (simp add: parent_def)
qed

text \<open>
  A dict: the names without the empty ones meet the values from the first on.
\<close>

lemma traverse_members:
  "(\<And>k v. (k, v) \<in> set d \<Longrightarrow> xml_text k \<and> transported xml_text py_float v (f v)) \<Longrightarrow>
     \<exists>es. traverse (\<lambda>(key, v). bind_result (text_element xml_text ''name'' key) (\<lambda>name.
           bind_result (py2xml xml_text v) (\<lambda>e. Inr (parent ''member'' [name, value_element e])))) d =
         Inr (map (\<lambda>(k, e). member_element k e) (zip (map fst d) es)) \<and> length es = length d \<and>
       list_all2 (\<lambda>e v. xml2py py_float e = Inr (f v)) es (map snd d)"
proof (induction d)
  case (Cons kv d)
  obtain k v where kv: "kv = (k, v)" by fastforce
  from Cons obtain es where es: "traverse (\<lambda>(key, v). bind_result (text_element xml_text ''name'' key) (\<lambda>name.
           bind_result (py2xml xml_text v) (\<lambda>e. Inr (parent ''member'' [name, value_element e])))) d =
         Inr (map (\<lambda>(k, e). member_element k e) (zip (map fst d) es))" "length es = length d"
       "list_all2 (\<lambda>e v. xml2py py_float e = Inr (f v)) es (map snd d)" by auto
  obtain e where "py2xml xml_text v = Inr e" "xml2py py_float e = Inr (f v)"
    using Cons.prems [of k v] kv by (auto simp: transported_def)
  with es Cons.prems [of k v] kv show ?case
    by (intro exI [of _ "e # es"]) (simp add: text_element_def member_element_def)
qed simp

lemma traverse_zip:
  "list_all2 (\<lambda>e v. g e = Inr (f v)) es vs \<Longrightarrow>
     traverse (\<lambda>(n, e). bind_result (g e) (\<lambda>x. Inr (n, x))) (zip ns es) = Inr (zip ns (map f vs))"
proof (induction es vs arbitrary: ns rule: list_all2_induct)
  case (Cons e es v vs)
  then show ?case by (cases ns) simp_all
qed simp

lemma transported_dict:
  assumes "\<And>k v. (k, v) \<in> set d \<Longrightarrow> xml_text k \<and> transported xml_text py_float v (f v)"
  shows "transported xml_text py_float (PDict d)
    (dict_of (zip (filter (\<lambda>s. s \<noteq> []) (map fst d)) (map (f o snd) d)))"
proof -
  obtain es where es: "traverse (\<lambda>(key, v). bind_result (text_element xml_text ''name'' key) (\<lambda>name.
           bind_result (py2xml xml_text v) (\<lambda>e. Inr (parent ''member'' [name, value_element e])))) d =
         Inr (map (\<lambda>(k, e). member_element k e) (zip (map fst d) es))" "length es = length d"
       "list_all2 (\<lambda>e v. xml2py py_float e = Inr (f v)) es (map snd d)"
    using traverse_members [where f = f] assms by blast
  have tr: "traverse (\<lambda>(n, e). bind_result (xml2py py_float e) (\<lambda>x. Inr (n, x))) (zip ns (map value_element es)) =
      Inr (zip ns (map f (map snd d)))" for ns
    by (rule traverse_zip) (use es(3) in \<open>simp add: list_all2_map1\<close>)
  have "map (value_element o snd) (zip (map fst d) es) = map value_element es"
    using es(2) by (simp flip: map_map)
  moreover have "texts (path2 ''member'' ''name'' (parent ''struct'' (map (\<lambda>(k, e). member_element k e) (zip (map fst d) es)))) =
      filter (\<lambda>s. s \<noteq> []) (map fst d)"
    using es(2) by (simp add: path2_struct texts_names)
  ultimately have "xml2py py_float (parent ''struct'' (map (\<lambda>(k, e). member_element k e) (zip (map fst d) es))) =
      Inr (dict_of (zip (filter (\<lambda>s. s \<noteq> []) (map fst d)) (map f (map snd d))))"
    by (subst xml2py.simps) (simp add: path2_struct(1) tr, simp add: parent_def)
  with es(1) show ?thesis by (simp add: transported_def)
qed

lemma dict_of_distinct: "distinct (map fst kvs) \<Longrightarrow> dict_of kvs = PDict kvs"
  using fold_update_fresh [of "[]" kvs] by (simp add: dict_of_def)

lemma strip_bool: "parse_int ''1'' = Inr 1" "parse_int ''0'' = Inr 0"
proof -
  have "show_int 1 = ''1''" "show_int 0 = ''0''" by code_simp+
  then show "parse_int ''1'' = Inr 1" "parse_int ''0'' = Inr 0"
    using parse_show_int [of 1] parse_show_int [of 0] by simp_all
qed

lemmas read_element = xml2py.simps xml2string_def xml2int_def xml2bool_def xml2float_def xml2binary_def
  int_or_zero_def parent_def

lemma strftime_round:
  assumes "valid_datetime d" "1000 \<le> hd d"
  shows "xml2datetime (strftime d) = Inr (PDateTime d)"
proof -
  from assms(1) obtain y mo da h mi s where "d = [y, mo, da, h, mi, s]"
    by (cases d rule: valid_datetime.cases) auto
  with assms strptime_strftime show ?thesis by simp
qed

lemma transported_ok: "xmlrpc_ok xml_text py_float v \<Longrightarrow> transported xml_text py_float v v"
proof (induction v)
  case (PBinary bs)
  have "unat b < 2 ^ LENGTH(8)" for b :: "8 word" by (rule unsigned_less)
  then have "\<forall>b\<in>set (map unat bs). b < 256" by simp
  with b64decode_encode [OF this] show ?case
    by (simp add: transported_def read_element comp_def)
next
  case (PList vs)
  with transported_list [where f = "\<lambda>v. v"] show ?case by (simp add: list_all_iff)
next
  case (PDict d)
  from PDict.prems have ok: "\<And>k v. (k, v) \<in> set d \<Longrightarrow> k \<noteq> [] \<and> xml_text k \<and> xmlrpc_ok xml_text py_float v"
    by (auto simp: list_all_iff)
  then have tr: "\<And>k v. (k, v) \<in> set d \<Longrightarrow> xml_text k \<and> transported xml_text py_float v ((\<lambda>v. v) v)"
    using PDict.IH by fastforce
  have "filter (\<lambda>s. s \<noteq> []) (map fst d) = map fst d" using ok by (auto simp: filter_id_conv)
  then have "dict_of (zip (filter (\<lambda>s. s \<noteq> []) (map fst d)) (map ((\<lambda>v. v) o snd) d)) = PDict d"
    using PDict.prems by (simp add: comp_def zip_map_fst_snd dict_of_distinct)
  with transported_dict [where d = d, OF tr] show ?case by (metis (no_types, lifting))
qed (auto simp: transported_def text_element_def read_element strftime_round strip_bool)

section \<open>What arrives\<close>


definition demo_value :: pyval where
  "demo_value =
     PDict [(''a'', PList [PInt (-7), PStr ''x y'', PNone, PBinary [1, 255], PDateTime [2020, 2, 29, 23, 59, 0]]),
            (''b'', PDict [(''c'', PBool True), (''d'', PFloat ''1.5'')])]"


text \<open>Of the 32-bit integers, all arrive as integers but the smallest and the largest one, which
  are sent as floating-point numbers though \<open>i4\<close> could hold them.\<close>

theorem int_bounds:
  "transmit xml_text py_float (PInt (sint w)) = Inr (PInt (sint w)) \<longleftrightarrow>
     w \<noteq> (0x7FFFFFFF :: 32 word) \<and> w \<noteq> 0x80000000"
proof -
  have eq: "w = u \<longleftrightarrow> sint w = sint u" for u :: "32 word" by (rule word_eq_iff_signed)
  from eq [of "0x7FFFFFFF"] have "sint w = 2147483647 \<longleftrightarrow> w = 0x7FFFFFFF" by simp
  moreover from eq [of "0x80000000"] have "sint w = -2147483648 \<longleftrightarrow> w = 0x80000000" by simp
  moreover have "-2147483648 \<le> sint w" "sint w < 2147483648"
    using sint_range_size [of w] by (simp_all add: word_size)
  ultimately have "-2147483648 < sint w \<and> sint w < 2147483647 \<longleftrightarrow> w \<noteq> 0x7FFFFFFF \<and> w \<noteq> 0x80000000"
    by linarith
  then show ?thesis
    by (auto simp: transmit_def read_element bind_result_eq_Inr)
qed

text \<open>A dict with an empty key arrives with its values under the wrong keys: the name of the empty
  key has no text, so each later name meets the value before its own, and the last value is lost.\<close>

theorem empty_key:
  assumes "xmlrpc_ok xml_text py_float (PDict d)" and "xmlrpc_ok xml_text py_float v" and "xml_text []"
  shows "transmit xml_text py_float (PDict (([], v) # d)) = Inr (PDict (zip (map fst d) (v # map snd d)))"
proof -
  have ok: "\<And>k v. (k, v) \<in> set d \<Longrightarrow> k \<noteq> [] \<and> xml_text k \<and> xmlrpc_ok xml_text py_float v"
    using assms(1) by (auto simp: list_all_iff)
  have "xml_text k \<and> transported xml_text py_float u ((\<lambda>v. v) u)" if "(k, u) \<in> set (([], v) # d)" for k u
    using that assms(2,3) ok [of k u] by (auto intro: transported_ok)
  note tr = transported_dict [where d = "([], v) # d", OF this]
  have "filter (\<lambda>s. s \<noteq> []) (map fst d) = map fst d" using ok by (auto simp: filter_id_conv)
  moreover have "distinct (map fst (zip (map fst d) (v # map snd d)))"
    using assms(1) by (simp add: map_fst_zip_take distinct_take)
  ultimately show ?thesis using tr by (simp add: transmit_eq dict_of_distinct comp_def)
qed

theorem empty_key_witness:
  "transmit (\<lambda>s. True) Inr (PDict [([], PInt 1), (''x'', PInt 2), (''y'', PInt 3)]) =
     Inr (PDict [(''x'', PInt 1), (''y'', PInt 2)])"
  using empty_key [of "\<lambda>s. True" Inr "[(''x'', PInt 2), (''y'', PInt 3)]" "PInt 1"] by simp

end
