(* ===== verification/Xmlrpc_Schema.thy ===== *)
theory Xmlrpc_Schema
  imports Xmlrpc_Values
begin

text \<open>
  The messages of XML-RPC: the RELAX NG schema \<open>aioros/xmlrpc/_protocol/xmlrpc.rng\<close> that
  \<open>validate_schema\<close> of \<open>_common.py\<close> checks documents against, and the building of
  requests and responses by \<open>_client.py\<close> and \<open>_server.py\<close> beside it.

  The data types \<open>double\<close>, \<open>dateTime\<close> and \<open>base64Binary\<close> belong to W3C XML Schema;
  which texts they admit is a parameter.
\<close>

section \<open>Texts\<close>

text \<open>The white space of XML, which data types ignore around their texts.\<close>

definition xml_blanks :: "string list" where
  "xml_blanks = map (\<lambda>n. [char_of (n :: nat)]) [9, 10, 13, 32]"

definition xml_trim :: "string \<Rightarrow> string" where
  "xml_trim s = strip_by xml_blanks s"

definition blank :: "string \<Rightarrow> bool" where
  "blank s \<longleftrightarrow> xml_trim s = []"

record xsd =
  xs_double :: "string \<Rightarrow> bool"
  xs_dateTime :: "string \<Rightarrow> bool"
  xs_base64 :: "string \<Rightarrow> bool"

definition xs_int :: "string \<Rightarrow> bool" where
  "xs_int s \<longleftrightarrow>
     (let (sign, ds) = parse_sign (xml_trim s) in
      ds \<noteq> [] \<and> list_all digit ds \<and>
      (case parse_digits False 0 ds of
         None \<Rightarrow> False
       | Some n \<Rightarrow> - 2147483648 \<le> sign * int n \<and> sign * int n \<le> 2147483647))"

text \<open>\<open>([0-9]{4})([0-9]{2})([0-9]{2})T([0-9]{2}):?([0-9]{2}):?([0-9]{2})Z?\<close>\<close>

definition skip_char :: "char \<Rightarrow> string \<Rightarrow> string" where
  "skip_char c s = (case s of [] \<Rightarrow> [] | d # rest \<Rightarrow> if d = c then rest else s)"

definition digits_then :: "nat \<Rightarrow> (string \<Rightarrow> bool) \<Rightarrow> string \<Rightarrow> bool" where
  "digits_then n p s \<longleftrightarrow> n \<le> length s \<and> list_all digit (take n s) \<and> p (drop n s)"

definition date_pattern :: "string \<Rightarrow> bool" where
  "date_pattern =
     digits_then 8 (\<lambda>s. s \<noteq> [] \<and> hd s = CHR ''T'' \<and>
       digits_then 2 (\<lambda>s. digits_then 2 (\<lambda>s. digits_then 2 (\<lambda>s. s = [] \<or> s = ''Z'')
         (skip_char CHR '':'' s)) (skip_char CHR '':'' s)) (tl s))"

section \<open>Values\<close>

definition valid_leaf :: "xsd \<Rightarrow> xml \<Rightarrow> bool" where
  "valid_leaf xsd e \<longleftrightarrow> children e = [] \<and>
     (if tag e = ''string'' then True
      else if tag e = ''i4'' \<or> tag e = ''int'' then xs_int (text_of e)
      else if tag e = ''boolean'' then xml_trim (text_of e) = ''0'' \<or> xml_trim (text_of e) = ''1''
      else if tag e = ''double'' then xs_double xsd (text_of e)
      else if tag e = ''dateTime.iso8601'' then xs_dateTime xsd (text_of e) \<or> date_pattern (text_of e)
      else if tag e = ''base64'' then xs_base64 xsd (text_of e)
      else tag e = ''nil'' \<and> blank (text_of e))"

function valid_value :: "xsd \<Rightarrow> xml \<Rightarrow> bool" where
  "valid_value xsd e \<longleftrightarrow> tag e = ''value'' \<and>
     (case children e of
        [] \<Rightarrow> True
      | [c] \<Rightarrow>
          blank (text_of e) \<and>
          (if tag c = ''struct'' then
             blank (text_of c) \<and>
             list_all (\<lambda>m. tag m = ''member'' \<and> blank (text_of m) \<and>
               (case children m of
                  [n, v] \<Rightarrow> tag n = ''name'' \<and> children n = [] \<and> valid_value xsd v
                | _ \<Rightarrow> False)) (children c)
           else if tag c = ''array'' then
             blank (text_of c) \<and>
             (case children c of
                [d] \<Rightarrow> tag d = ''data'' \<and> blank (text_of d) \<and> list_all (valid_value xsd) (children d)
              | _ \<Rightarrow> False)
           else valid_leaf xsd c)
      | _ \<Rightarrow> False)"
  by pat_completeness auto

lemma size_grandchild:
  "children e = [c] \<Longrightarrow> m \<in> set (children c) \<Longrightarrow> v \<in> set (children m) \<Longrightarrow> size v < size e"
  using size_child [of c e] size_child [of m c] size_child [of v m] by simp

termination valid_value
  by (relation "measure (size o snd)") (auto intro: size_grandchild)

declare valid_value.simps [simp del]

section \<open>Messages\<close>

definition method_char :: "char \<Rightarrow> bool" where
  "method_char c \<longleftrightarrow> c \<in> set ''abcdefghijklmnopqrstuvwxyzABCDEFGHIJKLMNOPQRSTUVWXYZ0123456789_.:/''"

definition valid_param :: "xsd \<Rightarrow> xml \<Rightarrow> bool" where
  "valid_param xsd e \<longleftrightarrow> tag e = ''param'' \<and> blank (text_of e) \<and>
     (case children e of [v] \<Rightarrow> valid_value xsd v | _ \<Rightarrow> False)"

definition valid_method_name :: "xml \<Rightarrow> bool" where
  "valid_method_name e \<longleftrightarrow>
     tag e = ''methodName'' \<and> children e = [] \<and> text_of e \<noteq> [] \<and> list_all method_char (text_of e)"

definition valid_call :: "xsd \<Rightarrow> xml \<Rightarrow> bool" where
  "valid_call xsd e \<longleftrightarrow> tag e = ''methodCall'' \<and> blank (text_of e) \<and>
     (case children e of
        [name] \<Rightarrow> valid_method_name name
      | [name, ps] \<Rightarrow> valid_method_name name \<and> tag ps = ''params'' \<and> blank (text_of ps) \<and>
          list_all (valid_param xsd) (children ps)
      | _ \<Rightarrow> False)"

definition valid_fault_member :: "string \<Rightarrow> (xml \<Rightarrow> bool) \<Rightarrow> xml \<Rightarrow> bool" where
  "valid_fault_member name valid e \<longleftrightarrow> tag e = ''member'' \<and> blank (text_of e) \<and>
     (case children e of
        [n, v] \<Rightarrow> tag n = ''name'' \<and> children n = [] \<and> xml_trim (text_of n) = name \<and> tag v = ''value'' \<and> valid v
      | _ \<Rightarrow> False)"

definition valid_fault_code :: "xml \<Rightarrow> bool" where
  "valid_fault_code v \<longleftrightarrow> blank (text_of v) \<and>
     (case children v of
        [c] \<Rightarrow> (tag c = ''int'' \<or> tag c = ''i4'') \<and> children c = [] \<and> xs_int (text_of c)
      | _ \<Rightarrow> False)"

definition valid_fault_string :: "xml \<Rightarrow> bool" where
  "valid_fault_string v \<longleftrightarrow>
     (case children v of
        [] \<Rightarrow> True
      | [c] \<Rightarrow> blank (text_of v) \<and> tag c = ''string'' \<and> children c = []
      | _ \<Rightarrow> False)"

definition valid_fault :: "xml \<Rightarrow> bool" where
  "valid_fault e \<longleftrightarrow> tag e = ''fault'' \<and> blank (text_of e) \<and>
     (case children e of
        [v] \<Rightarrow> tag v = ''value'' \<and> blank (text_of v) \<and>
          (case children v of
             [st] \<Rightarrow> tag st = ''struct'' \<and> blank (text_of st) \<and>
               (case children st of
                  [code, reason] \<Rightarrow> valid_fault_member ''faultCode'' valid_fault_code code \<and>
                    valid_fault_member ''faultString'' valid_fault_string reason
                | _ \<Rightarrow> False)
           | _ \<Rightarrow> False)
      | _ \<Rightarrow> False)"

definition valid_response :: "xsd \<Rightarrow> xml \<Rightarrow> bool" where
  "valid_response xsd e \<longleftrightarrow> tag e = ''methodResponse'' \<and> blank (text_of e) \<and>
     (case children e of
        [c] \<Rightarrow> valid_fault c \<or> tag c = ''params'' \<and> blank (text_of c) \<and>
          (case children c of [p] \<Rightarrow> valid_param xsd p | _ \<Rightarrow> False)
      | _ \<Rightarrow> False)"

definition validate_schema :: "xsd \<Rightarrow> xml \<Rightarrow> bool" where
  "validate_schema xsd e \<longleftrightarrow> valid_call xsd e \<or> valid_response xsd e"

section \<open>What is sent is valid\<close>

lemma xml_trim_graphic: "graphic (hd s) \<Longrightarrow> graphic (last s) \<Longrightarrow> xml_trim s = s"
  unfolding xml_trim_def by (rule strip_by_graphic) (auto simp: xml_blanks_def graphic_def)

lemma blank_Nil [simp]: "blank []"
  by (simp add: blank_def xml_trim_def strip_by_def)

lemma digit_iff: "digit c \<longleftrightarrow> digit_value c \<noteq> None"
  by (auto simp: between_def digit_value_def Let_def)

lemma show_nat_digits: "list_all digit (show_nat n)"
  by (auto simp: list_all_iff dest!: show_nat_chars)

lemma parse_show_nat_simple: "parse_digits False 0 (show_nat n) = Some n"
  using parse_show_nat [of False 0 n "[]"] by simp

lemma parse_sign_show_int:
  "parse_sign (show_int i) = (if i < 0 then (- 1, show_nat (nat (- i))) else (1, show_nat (nat i)))"
proof -
  have "parse_sign (show_nat n) = (1, show_nat n)" for n
    using show_nat_chars [of "hd (show_nat n)" n]
    by (cases "show_nat n") (auto simp: parse_sign_def dest: digit_not_sign)
  then show ?thesis by (simp add: show_int_def parse_sign_def)
qed

lemma xs_int_show_int: "xs_int (show_int i) \<longleftrightarrow> - 2147483648 \<le> i \<and> i \<le> 2147483647"
proof -
  have "xml_trim (show_int i) = show_int i"
    by (rule xml_trim_graphic; rule graphic_show_int [of _ i]; simp)
  then show ?thesis
    by (simp add: xs_int_def parse_sign_show_int show_nat_digits parse_show_nat_simple)
qed

lemma digits_then_append:
  "length ds = n \<Longrightarrow> list_all digit ds \<Longrightarrow> digits_then n p (ds @ s) \<longleftrightarrow> p s"
  by (simp add: digits_then_def)

lemma pad2_digits: "n < 100 \<Longrightarrow> list_all digit (pad2 n)" "length (pad2 n) = 2"
  by (simp_all add: pad2_def tens)

lemma date_pattern_strftime:
  assumes v: "valid_datetime d" and y: "1000 \<le> hd d"
  shows "date_pattern (strftime d)"
proof -
  from v obtain y mo da h mi s where d: "d = [y, mo, da, h, mi, s]"
    by (cases d rule: valid_datetime.cases) auto
  have "da < 100" using v d days_in_month_le [of y mo] by simp
  moreover have "length (show_nat y) = 4" using v d y by (simp add: show_year)
  ultimately have "length (show_nat y @ pad2 mo @ pad2 da) = 8" "list_all digit (show_nat y @ pad2 mo @ pad2 da)"
    using v d by (simp_all add: pad2_digits show_nat_digits)
  note date = digits_then_append [OF this]
  have time: "digits_then 2 p (pad2 n @ t) \<longleftrightarrow> p t" if "n < 100" for n p t
    by (rule digits_then_append) (use that pad2_digits in simp_all)
  have last: "digits_then 2 p (pad2 n) \<longleftrightarrow> p []" if "n < 100" for n p
    using time [OF that, of p "[]"] by simp
  show ?thesis
    using v d date time last by (simp add: date_pattern_def skip_char_def)
qed

text \<open>
  What the W3C data types say of the texts \<open>py2xml\<close> writes: decimal numerals are of type
  \<open>double\<close>, padded base 64 is of type \<open>base64Binary\<close>.
\<close>

definition xsd_law :: "xsd \<Rightarrow> bool" where
  "xsd_law xsd \<longleftrightarrow> (\<forall>i. xs_double xsd (show_int i)) \<and>
     (\<forall>bs. (\<forall>b\<in>set bs. b < 256) \<longrightarrow> xs_base64 xsd (b64encode bs))"

fun sendable :: "xsd \<Rightarrow> pyval \<Rightarrow> bool" where
  "sendable xsd (PFloat r) \<longleftrightarrow> xs_double xsd r \<and> list_all graphic r"
| "sendable xsd (PDateTime d) \<longleftrightarrow> valid_datetime d \<and> 1000 \<le> hd d"
| "sendable xsd (PList vs) \<longleftrightarrow> list_all (sendable xsd) vs"
| "sendable xsd (PDict d) \<longleftrightarrow> list_all (\<lambda>(k, v). sendable xsd v) d"
| "sendable xsd v \<longleftrightarrow> True"

lemma valid_simple:
  assumes "tag e \<noteq> ''struct''" "tag e \<noteq> ''array''"
  shows "valid_value xsd (value_element e) \<longleftrightarrow> valid_leaf xsd e"
  using assms by (subst valid_value.simps) (simp add: value_element_def parent_def)

lemma valid_array:
  "valid_value xsd (value_element (parent ''array'' [parent ''data'' es])) \<longleftrightarrow> list_all (valid_value xsd) es"
  by (subst valid_value.simps) (simp add: value_element_def parent_def)

lemma valid_struct:
  "list_all (\<lambda>m. \<exists>k e. m = member_element k e \<and> valid_value xsd (value_element e)) ms \<Longrightarrow>
     valid_value xsd (value_element (parent ''struct'' ms))"
  by (subst valid_value.simps) (auto simp: value_element_def parent_def member_element_def list_all_iff)

lemma traverse_set:
  "traverse f xs = Inr ys \<Longrightarrow> y \<in> set ys \<Longrightarrow> \<exists>x\<in>set xs. f x = Inr y"
  by (induction xs arbitrary: ys) (auto simp: bind_result_eq_Inr)

lemma valid_bool: "xml_trim (if b then ''1'' else ''0'') = (if b then ''1'' else ''0'')"
  by (rule xml_trim_graphic) (simp_all add: graphic_def)

lemma text_element_Inr: "text_element xml_text t s = Inr e \<longleftrightarrow> xml_text s \<and> e = Elem t s []"
  by (auto simp: text_element_def)

lemma sent_value_valid:
  assumes "xsd_law xsd" and "sendable xsd v" and "py2xml xml_text v = Inr e"
  shows "valid_value xsd (value_element e)"
  using assms(2,3)
proof (induction v arbitrary: e)
  case (PList vs)
  then obtain es where e: "e = parent ''array'' [parent ''data'' es]"
    and es: "traverse (\<lambda>v. bind_result (py2xml xml_text v) (\<lambda>e. Inr (value_element e))) vs = Inr es"
    by (auto simp: bind_result_eq_Inr)
  have "valid_value xsd x" if "x \<in> set es" for x
    using traverse_set [OF es that] PList.IH PList.prems(1) by (auto simp: bind_result_eq_Inr list_all_iff)
  then show ?case by (simp add: e valid_array list_all_iff)
next
  case (PDict d)
  then obtain ms where e: "e = parent ''struct'' ms"
    and ms: "traverse (\<lambda>(key, v). bind_result (text_element xml_text ''name'' key) (\<lambda>name.
        bind_result (py2xml xml_text v) (\<lambda>e. Inr (parent ''member'' [name, value_element e])))) d = Inr ms"
    by (auto simp: bind_result_eq_Inr)
  have "\<exists>k e. m = member_element k e \<and> valid_value xsd (value_element e)" if m: "m \<in> set ms" for m
  proof -
    obtain k v f where "(k, v) \<in> set d" "py2xml xml_text v = Inr f" "m = member_element k f"
      using traverse_set [OF ms m] by (auto simp: bind_result_eq_Inr text_element_Inr member_element_def)
    moreover from this have "valid_value xsd (value_element f)"
      using PDict.IH [of "(k, v)" v f] PDict.prems(1) by (auto simp: list_all_iff)
    ultimately show ?thesis by blast
  qed
  then show ?case unfolding e by (intro valid_struct) (simp add: list_all_iff)
next
  case (PBinary bs)
  have "unat b < 2 ^ LENGTH(8)" for b :: "8 word" by (rule unsigned_less)
  with assms(1) have "xs_base64 xsd (b64encode (map unat bs))" by (simp add: xsd_law_def)
  with PBinary show ?case by (auto simp: valid_simple valid_leaf_def)
next
  case (PDateTime d)
  with date_pattern_strftime show ?case by (auto simp: valid_simple valid_leaf_def)
qed (use assms(1) valid_bool in \<open>auto simp: valid_simple valid_leaf_def xsd_law_def xs_int_show_int text_element_Inr
    bind_result_eq_Inr parent_def split: if_splits\<close>)


definition demo_xsd :: xsd where
  "demo_xsd = \<lparr>xs_double = (\<lambda>s. True), xs_dateTime = (\<lambda>s. False), xs_base64 = (\<lambda>s. True)\<rparr>"


end
