(* ===== verification/Xmlrpc_Faults.thy ===== *)
theory Xmlrpc_Faults
  imports Xmlrpc_Schema
begin

text \<open>
  The exceptions of XML-RPC and their fault codes, \<open>aioros/xmlrpc/_protocol/_exceptions.py\<close>.
\<close>

section \<open>Classes and codes\<close>

datatype fault_class =
    PlainException
  | XmlRpcError
  | ParseError
  | UnsupportedEncodingError
  | InvalidCharacterError
  | ServerError
  | InvalidData
  | MethodNotFound
  | InvalidArguments
  | ApplicationError
  | XmlRpcSystemError
  | TransportError

text \<open>The attribute \<open>code\<close>, and the classes an instance belongs to in the order of its
  \<open>__mro__\<close> (without \<open>BaseException\<close> and \<open>object\<close>, which have no code).\<close>

fun class_code :: "fault_class \<Rightarrow> int" where
  "class_code PlainException = -32000"
| "class_code XmlRpcError = -32500"
| "class_code ParseError = -32700"
| "class_code UnsupportedEncodingError = -32701"
| "class_code InvalidCharacterError = -32702"
| "class_code ServerError = -32603"
| "class_code InvalidData = -32600"
| "class_code MethodNotFound = -32601"
| "class_code InvalidArguments = -32602"
| "class_code ApplicationError = -32500"
| "class_code XmlRpcSystemError = -32400"
| "class_code TransportError = -32300"

fun base_class :: "fault_class \<Rightarrow> fault_class option" where
  "base_class PlainException = None"
| "base_class XmlRpcError = Some PlainException"
| "base_class UnsupportedEncodingError = Some ParseError"
| "base_class InvalidCharacterError = Some ParseError"
| "base_class InvalidData = Some ServerError"
| "base_class MethodNotFound = Some ServerError"
| "base_class InvalidArguments = Some ServerError"
| "base_class _ = Some XmlRpcError"

definition mro :: "fault_class \<Rightarrow> fault_class list" where
  "mro c = c # (case base_class c of None \<Rightarrow> [] | Some b \<Rightarrow>
     b # (case base_class b of None \<Rightarrow> [] | Some a \<Rightarrow>
       a # (case base_class a of None \<Rightarrow> [] | Some z \<Rightarrow> [z])))"

text \<open>The two tables: a dict literal, where a key that comes twice keeps its last value, and its inverse.\<close>

definition exception_codes :: "(int \<times> fault_class) list" where
  "exception_codes =
     fold (\<lambda>c. AList.update (class_code c) c)
       [PlainException, XmlRpcError, ParseError, UnsupportedEncodingError, InvalidCharacterError, ServerError,
        InvalidData, MethodNotFound, InvalidArguments, ApplicationError, XmlRpcSystemError, TransportError] []"

definition exception_types :: "(fault_class \<times> int) list" where
  "exception_types = fold (\<lambda>(code, c). AList.update c code) exception_codes []"

section \<open>Faults\<close>

text \<open>An exception that comes out of a fault: its class, its code attribute, its message.\<close>

record fault =
  fault_exc :: fault_class
  fault_code :: int
  fault_text :: pyval

definition xml2py_exception :: "int \<Rightarrow> pyval \<Rightarrow> fault_class \<Rightarrow> fault" where
  "xml2py_exception code msg fallback =
     (case map_of exception_codes code of
        None \<Rightarrow> \<lparr>fault_exc = fallback, fault_code = code, fault_text = msg\<rparr>
      | Some c \<Rightarrow> \<lparr>fault_exc = c, fault_code = class_code c, fault_text = msg\<rparr>)"

text \<open>\<open>for klass in value.__class__.__mro__\<close>: the first class that has a code.\<close>

definition mro_code :: "fault_class list \<Rightarrow> int" where
  "mro_code classes =
     (case find (\<lambda>c. map_of exception_types c \<noteq> None) classes of
        None \<Rightarrow> the (map_of exception_types PlainException)
      | Some c \<Rightarrow> the (map_of exception_types c))"

definition py2xml_exception :: "(string \<Rightarrow> bool) \<Rightarrow> fault_class list \<Rightarrow> string \<Rightarrow> xml result" where
  "py2xml_exception xml_text classes reason =
     bind_result (py2xml xml_text (PInt (mro_code classes))) (\<lambda>code.
       bind_result (py2xml xml_text (PStr reason)) (\<lambda>text.
         Inr (parent ''struct'' [member_element ''faultCode'' code, member_element ''faultString'' text])))"

lemma exception_codes_eq:
  "exception_codes =
     [(-32000, PlainException), (-32500, ApplicationError), (-32700, ParseError), (-32701, UnsupportedEncodingError),
      (-32702, InvalidCharacterError), (-32603, ServerError), (-32600, InvalidData), (-32601, MethodNotFound),
      (-32602, InvalidArguments), (-32400, XmlRpcSystemError), (-32300, TransportError)]"
  by (simp add: exception_codes_def)

lemma exception_types_eq: "exception_types = map (\<lambda>(code, c). (c, code)) exception_codes"
  by (simp add: exception_types_def exception_codes_eq)

text \<open>
  What the receiver of an exception makes of it: every class with a code of its own comes back, with
  the text of \<open>repr\<close>; \<open>XMLRPCError\<close> shares its code with \<open>ApplicationError\<close>, which
  replaces it in the table, and comes back as a plain \<open>Exception\<close>.
\<close>

lemma class_survives:
  "fault_exc (xml2py_exception (mro_code (mro c)) msg d) = (if c = XmlRpcError then PlainException else c)"
  by (cases c) (simp_all add: xml2py_exception_def mro_code_def mro_def exception_types_eq exception_codes_eq)

lemma code_bounds: "- 2147483648 < mro_code cs \<and> mro_code cs < 2147483647"
proof -
  have b: "- 40000 < the (map_of exception_types c)" "the (map_of exception_types c) < 0"
    if "map_of exception_types c \<noteq> None" for c
    using that by (cases c; simp add: exception_types_eq exception_codes_eq)+
  show ?thesis
  proof (cases "find (\<lambda>c. map_of exception_types c \<noteq> None) cs")
    case None
    then show ?thesis by (simp add: mro_code_def exception_types_eq exception_codes_eq)
  next
    case (Some c)
    then have "map_of exception_types c \<noteq> None" by (auto simp: find_Some_iff)
    with b [OF this] Some show ?thesis by (simp add: mro_code_def)
  qed
qed

lemma mro_code_table: "map_of exception_codes (mro_code cs) \<noteq> None"
proof -
  have "map_of exception_types c \<noteq> None \<Longrightarrow> map_of exception_codes (the (map_of exception_types c)) \<noteq> None" for c
    by (cases c) (simp_all add: exception_types_eq exception_codes_eq)
  then show ?thesis
    by (auto simp: mro_code_def find_Some_iff exception_types_eq exception_codes_eq split: option.split)
qed

end
