(* ===== verification/Xmlrpc_Calls.thy ===== *)
theory Xmlrpc_Calls
  imports Xmlrpc_Faults
begin

text \<open>
  Calls: the server's dispatch (\<open>ServerHandle.multicall\<close>, \<open>lookup_method\<close>,
  \<open>handle_request\<close> of \<open>aioros/xmlrpc/_server.py\<close>), the messages
  (\<open>_protocol/_server.py\<close>, \<open>_protocol/_client.py\<close>) and the client's
  \<open>ServerProxy\<close> (\<open>_client.py\<close>).

  Printing and parsing of documents (lxml), the texts XML admits, \<open>float()\<close>, the data types of
  the schema and \<open>repr\<close> of exceptions are the record \<open>library\<close>. HTTP (h11, httpx)
  carries one body to the server and its status and body back. A method of the server is a function
  on the values of its arguments and the server's state.
\<close>

record 'b library =
  lib_print :: "xml \<Rightarrow> 'b"
  lib_parse :: "'b \<Rightarrow> xml result"
  lib_text :: "string \<Rightarrow> bool"
  lib_float :: "string \<Rightarrow> string result"
  lib_xsd :: xsd
  lib_repr :: "py_error \<Rightarrow> string"

type_synonym 's rpc_method = "pyval list \<Rightarrow> 's \<Rightarrow> (pyval, 's) outcome"
type_synonym 's rpc_handle = "string \<Rightarrow> 's rpc_method option"

section \<open>Dispatch\<close>

text \<open>What iterating over a value gives.\<close>

fun iterate :: "pyval \<Rightarrow> pyval list result" where
  "iterate (PList vs) = Inr vs"
| "iterate (PDict d) = Inr (map (PStr o fst) d)"
| "iterate (PStr s) = Inr (map PStr (utf8_chars s))"
| "iterate (PBytes bs) = Inr (map (PInt o uint) bs)"
| "iterate (PBinary bs) = Inr (map (PInt o uint) bs)"
| "iterate _ = Inl TypeError"

text \<open>\<open>call["methodName"]\<close>, which has to be a string for \<open>startswith\<close>, and \<open>*call["params"]\<close>.\<close>

fun subscript :: "pyval \<Rightarrow> string \<Rightarrow> pyval result" where
  "subscript (PDict d) key = (case map_of d key of None \<Rightarrow> Inl (KeyError key) | Some v \<Rightarrow> Inr v)"
| "subscript _ key = Inl TypeError"

fun method_name :: "pyval \<Rightarrow> string result" where
  "method_name (PStr s) = Inr s"
| "method_name (PBytes bs) = Inl TypeError"
| "method_name (PBinary bs) = Inl TypeError"
| "method_name _ = Inl AttributeError"

definition lookup_method :: "'s rpc_handle \<Rightarrow> string \<Rightarrow> 's rpc_method option result" where
  "lookup_method methods name =
     (if prefix ''_'' name then Inl ValueError
      else if name = ''multicall'' then Inr None
      else case methods name of None \<Rightarrow> Inl AttributeError | Some f \<Rightarrow> Inr (Some f))"

text \<open>How deep a value nests: a list or dict outweighs its elements.\<close>

fun weight :: "pyval \<Rightarrow> nat" where
  "weight (PList vs) = Suc (sum_list (map weight vs))"
| "weight (PDict d) = Suc (sum_list (map (\<lambda>(k, v). weight v) d))"
| "weight _ = 0"

lemma weight_iterate: "iterate v = Inr vs \<Longrightarrow> sum_list (map weight vs) \<le> weight v"
  by (cases v) (auto simp: comp_def)

lemma weight_subscript: "subscript c key = Inr v \<Longrightarrow> weight v < weight c"
proof (cases c)
  case (PDict d)
  assume "subscript c key = Inr v"
  with PDict have "(key, v) \<in> set d" by (auto split: option.splits dest: map_of_SomeD)
  then have "weight v \<in> set (map (\<lambda>(k, v). weight v) d)" by force
  then have "weight v \<le> sum_list (map (\<lambda>(k, v). weight v) d)" by (rule member_le_sum_list) simp
  with PDict show ?thesis by simp
qed simp_all

function dispatch :: "'s rpc_handle \<Rightarrow> string \<Rightarrow> 's rpc_method"
  and multicall :: "'s rpc_handle \<Rightarrow> pyval list \<Rightarrow> 's \<Rightarrow> (pyval list, 's) outcome" where
  "dispatch methods name args s =
     (case lookup_method methods name of
        Inl e \<Rightarrow> (Inl e, s)
      | Inr (Some f) \<Rightarrow> f args s
      | Inr None \<Rightarrow>
          (case args of
             [call_list] \<Rightarrow>
               (case iterate call_list of
                  Inl e \<Rightarrow> (Inl e, s)
                | Inr calls \<Rightarrow> bind_outcome (multicall methods calls s) (\<lambda>results s'. (Inr (PList results), s')))
           | _ \<Rightarrow> (Inl TypeError, s)))"
| "multicall methods [] s = (Inr [], s)"
| "multicall methods (c # calls) s =
     (case bind_result (subscript c ''methodName'') method_name of
        Inl e \<Rightarrow> (Inl e, s)
      | Inr name \<Rightarrow>
          (case bind_result (lookup_method methods name) (\<lambda>_. subscript c ''params'') of
             Inl e \<Rightarrow> (Inl e, s)
           | Inr params \<Rightarrow>
               (case iterate params of
                  Inl e \<Rightarrow> (Inl e, s)
                | Inr args \<Rightarrow>
                    bind_outcome (dispatch methods name args s) (\<lambda>result s'.
                      bind_outcome (multicall methods calls s') (\<lambda>results s''.
                        (Inr (result # results), s''))))))"
  by pat_completeness auto

lemma weight_args: "bind_result (lookup_method methods name) (\<lambda>_. subscript c key) = Inr v \<Longrightarrow>
    iterate v = Inr args \<Longrightarrow> sum_list (map weight args) < weight c"
  by (auto simp: bind_result_eq_Inr intro: le_less_trans [OF weight_iterate weight_subscript])

termination dispatch
  by (relation "measures
      [\<lambda>x. case x of Inl (_, _, args, _) \<Rightarrow> sum_list (map weight args) | Inr (_, calls, _) \<Rightarrow> sum_list (map weight calls),
       \<lambda>x. case x of Inl _ \<Rightarrow> 1 | Inr _ \<Rightarrow> 0,
       \<lambda>x. case x of Inl _ \<Rightarrow> 0 | Inr (_, calls, _) \<Rightarrow> length calls]")
    (auto dest: weight_iterate weight_args)

declare dispatch.simps [simp del]

section \<open>Messages\<close>

definition format_success :: "'b library \<Rightarrow> pyval \<Rightarrow> xml result" where
  "format_success lib v =
     bind_result (py2xml (lib_text lib) v) (\<lambda>e.
       Inr (parent ''methodResponse'' [parent ''params'' [parent ''param'' [value_element e]]]))"

text \<open>None of the exceptions a method raises here is of a class with a code of its own.\<close>

definition format_error :: "'b library \<Rightarrow> py_error \<Rightarrow> xml result" where
  "format_error lib exc =
     bind_result (py2xml_exception (lib_text lib) [PlainException] (lib_repr lib exc)) (\<lambda>e.
       Inr (parent ''methodResponse'' [parent ''fault'' [value_element e]]))"

definition build_call :: "'b library \<Rightarrow> string \<Rightarrow> pyval list \<Rightarrow> 'b result" where
  "build_call lib name args =
     bind_result (text_element (lib_text lib) ''methodName'' name) (\<lambda>m.
       bind_result (traverse (\<lambda>a. bind_result (py2xml (lib_text lib) a) (\<lambda>e. Inr (parent ''param'' [value_element e]))) args) (\<lambda>ps.
         Inr (lib_print lib (parent ''methodCall'' [m, parent ''params'' ps]))))"

definition parse_body :: "'b library \<Rightarrow> 'b \<Rightarrow> xml result" where
  "parse_body lib body =
     bind_result (lib_parse lib body) (\<lambda>root.
       if validate_schema (lib_xsd lib) root then Inr root else Inl ValueError)"

text \<open>\<open>//params/param/value\<close>: in a valid document \<open>params\<close> only occurs below the root.\<close>

definition message_params :: "xml \<Rightarrow> xml list" where
  "message_params root = concat (map (path2 ''param'' ''value'') (elements ''params'' root))"

definition parse_request :: "'b library \<Rightarrow> string \<Rightarrow> 'b \<Rightarrow> (string \<times> pyval list) result" where
  "parse_request lib content_type body =
     (if \<not> list_ex (prefix ''xml'') (suffixes content_type) then Inl ValueError
      else bind_result (parse_body lib body) (\<lambda>root.
        case texts (elements ''methodName'' root) of
          [] \<Rightarrow> Inl IndexError
        | name # _ \<Rightarrow> bind_result (traverse (xml2py (lib_float lib)) (message_params root)) (\<lambda>args. Inr (name, args))))"

text \<open>The status and body of the answer; an exception outside the \<open>try\<close> ends the connection.\<close>

definition handle_request ::
    "'b library \<Rightarrow> 's rpc_handle \<Rightarrow> string \<Rightarrow> 'b \<Rightarrow> 's \<Rightarrow> (nat \<times> 'b, 's) outcome" where
  "handle_request lib methods content_type body s =
     (case parse_request lib content_type body of
        Inl e \<Rightarrow> (Inl e, s)
      | Inr (name, args) \<Rightarrow>
          (let (res, s') = dispatch methods name args s;
               answered = bind_result (bind_result res (format_success lib)) (\<lambda>root. Inr (200, root));
               reply = (case answered of
                          Inr r \<Rightarrow> Inr r
                        | Inl e \<Rightarrow> bind_result (format_error lib e) (\<lambda>root. Inr (500, root)))
           in (bind_result reply (\<lambda>(status, root). Inr (status, lib_print lib root)), s')))"

section \<open>The client\<close>

text \<open>What a remote call raises: an exception of the client's own code, the \<open>AssertionError\<close> of
  an answer whose status is not 200, the loss of the connection, or the exception of a fault.\<close>

datatype rpc_error = Raised py_error | NotOk | Disconnected | Fault fault

definition raised :: "'a result \<Rightarrow> rpc_error + 'a" where
  "raised r = (case r of Inl e \<Rightarrow> Inl (Raised e) | Inr x \<Rightarrow> Inr x)"

text \<open>The schema admits integers only as \<open>faultCode\<close>.\<close>

definition fault_number :: "params \<Rightarrow> int" where
  "fault_number d =
     (case map_of d ''faultCode'' of Some (PInt code) \<Rightarrow> code | _ \<Rightarrow> class_code XmlRpcSystemError)"

definition fault_of :: "pyval \<Rightarrow> rpc_error" where
  "fault_of err =
     (case err of
        PDict d \<Rightarrow>
          Fault (xml2py_exception (fault_number d)
            (case map_of d ''faultString'' of None \<Rightarrow> PStr ''Unknown error'' | Some msg \<Rightarrow> msg) ServerError)
      | _ \<Rightarrow> Raised AttributeError)"

definition no_response :: "string \<Rightarrow> fault" where
  "no_response name =
     \<lparr>fault_exc = ParseError, fault_code = class_code ParseError,
      fault_text = PStr (''Respond body for method '' @ [CHR 0x22] @ name @ [CHR 0x22] @ '' not contains any response.'')\<rparr>"

definition parse_response :: "'b library \<Rightarrow> string \<Rightarrow> 'b \<Rightarrow> rpc_error + pyval" where
  "parse_response lib name body =
     (case parse_body lib body of
        Inl e \<Rightarrow> Inl (Raised e)
      | Inr root \<Rightarrow>
          (case message_params root of
             [v] \<Rightarrow> raised (xml2py (lib_float lib) v)
           | v # w # vs \<Rightarrow>
               raised (bind_result (traverse (xml2py (lib_float lib)) (v # w # vs)) (\<lambda>xs. Inr (PList xs)))
           | [] \<Rightarrow>
               (case path2 ''fault'' ''value'' root of
                  f # _ \<Rightarrow> (case xml2py (lib_float lib) f of Inl e \<Rightarrow> Inl (Raised e) | Inr err \<Rightarrow> Inl (fault_of err))
                | [] \<Rightarrow> Inl (Fault (no_response name)))))"

definition remote_call ::
    "'b library \<Rightarrow> 's rpc_handle \<Rightarrow> string \<Rightarrow> pyval list \<Rightarrow> 's \<Rightarrow> (rpc_error + pyval) \<times> 's" where
  "remote_call lib methods name args s =
     (case build_call lib name args of
        Inl e \<Rightarrow> (Inl (Raised e), s)
      | Inr body \<Rightarrow>
          (case handle_request lib methods ''text/xml'' body s of
             (Inl e, s') \<Rightarrow> (Inl Disconnected, s')
           | (Inr (status, reply), s') \<Rightarrow>
               (if status \<noteq> 200 then Inl NotOk else parse_response lib name reply, s')))"

section \<open>A call arrives\<close>

text \<open>The documented behaviour of the libraries: printable ASCII is text, a document of admitted texts
  is parsed as it was printed, and the data types admit what \<open>py2xml\<close> writes.\<close>

primrec texts_ok :: "(string \<Rightarrow> bool) \<Rightarrow> xml \<Rightarrow> bool" where
  "texts_ok p (Elem t s es) \<longleftrightarrow> (s = [] \<or> p s) \<and> list_all (texts_ok p) es"

definition library_law :: "'b library \<Rightarrow> bool" where
  "library_law lib \<longleftrightarrow>
     (\<forall>s. list_all graphic s \<longrightarrow> lib_text lib s) \<and>
     (\<forall>e. texts_ok (lib_text lib) e \<longrightarrow> lib_parse lib (lib_print lib e) = Inr e) \<and>
     xsd_law (lib_xsd lib)"

definition travels :: "'b library \<Rightarrow> pyval \<Rightarrow> bool" where
  "travels lib v \<longleftrightarrow> xmlrpc_ok (lib_text lib) (lib_float lib) v \<and> sendable (lib_xsd lib) v"

lemma texts_ok_parent [simp]: "texts_ok p (parent t es) \<longleftrightarrow> list_all (texts_ok p) es"
  "texts_ok p (value_element e) \<longleftrightarrow> texts_ok p e"
  "texts_ok p (member_element k e) \<longleftrightarrow> (k = [] \<or> p k) \<and> texts_ok p e"
  by (simp_all add: value_element_def parent_def member_element_def)

lemma graphic_b64encode: "\<forall>b\<in>set bs. b < 256 \<Longrightarrow> list_all graphic (b64encode bs)"
  by (induction bs rule: b64encode.induct) (use b64_char_facts in \<open>auto simp: graphic_def\<close>)

lemma graphic_strftime: "valid_datetime d \<Longrightarrow> list_all graphic (strftime d)"
proof -
  assume "valid_datetime d"
  then obtain y mo da h mi s where d: "d = [y, mo, da, h, mi, s]" "valid_datetime [y, mo, da, h, mi, s]"
    by (cases d rule: valid_datetime.cases) auto
  have pad: "n < 100 \<Longrightarrow> list_all graphic (pad2 n)" for n by (simp add: pad2_def graphic_digit tens)
  have "list_all graphic (show_nat n)" for n by (auto simp: list_all_iff graphic_digit dest!: show_nat_chars)
  with d pad days_in_month_le [of y mo] show ?thesis by (simp add: graphic_def)
qed

lemma py2xml_texts:
  assumes law: "\<And>s. list_all graphic s \<Longrightarrow> p s" and "sendable xsd v" "py2xml p v = Inr e"
  shows "texts_ok p e"
  using assms(2,3)
proof (induction v arbitrary: e)
  case (PList vs)
  then obtain es where e: "e = parent ''array'' [parent ''data'' es]"
    and es: "traverse (\<lambda>v. bind_result (py2xml p v) (\<lambda>e. Inr (value_element e))) vs = Inr es"
    by (auto simp: bind_result_eq_Inr)
  have "texts_ok p x" if "x \<in> set es" for x
    using traverse_set [OF es that] PList.IH PList.prems(1) by (auto simp: bind_result_eq_Inr list_all_iff)
  then show ?case by (simp add: e list_all_iff)
next
  case (PDict d)
  then obtain ms where e: "e = parent ''struct'' ms"
    and ms: "traverse (\<lambda>(key, v). bind_result (text_element p ''name'' key) (\<lambda>name.
        bind_result (py2xml p v) (\<lambda>e. Inr (parent ''member'' [name, value_element e])))) d = Inr ms"
    by (auto simp: bind_result_eq_Inr)
  have "texts_ok p m" if m: "m \<in> set ms" for m
  proof -
    obtain k v f where kv: "(k, v) \<in> set d" "p k" "py2xml p v = Inr f" "m = member_element k f"
      using traverse_set [OF ms m] by (auto simp: bind_result_eq_Inr text_element_Inr member_element_def)
    then have "texts_ok p f" using PDict.IH [of "(k, v)" v f] PDict.prems(1) by (auto simp: list_all_iff)
    with kv show ?thesis by simp
  qed
  then show ?case by (simp add: e list_all_iff)
next
  case (PBinary bs)
  have "unat b < 2 ^ LENGTH(8)" for b :: "8 word" by (rule unsigned_less)
  then have "list_all graphic (b64encode (map unat bs))" by (intro graphic_b64encode) simp
  with PBinary law show ?case by auto
next
  case (PInt i)
  have "list_all graphic (show_int i)" by (auto simp: list_all_iff intro: graphic_show_int)
  with PInt law show ?case by (auto split: if_splits)
next
  case (PDateTime d)
  with law graphic_strftime show ?case by auto
qed (use law [of "''1''"] law [of "''0''"] law in \<open>auto simp: text_element_Inr bind_result_eq_Inr graphic_def\<close>)

text \<open>The element a value that travels is written as.\<close>

definition element_of :: "'b library \<Rightarrow> pyval \<Rightarrow> xml" where
  "element_of lib v = (case py2xml (lib_text lib) v of Inl e \<Rightarrow> parent [] [] | Inr x \<Rightarrow> x)"

lemma travels_element:
  assumes law: "library_law lib" and v: "travels lib v"
  shows "py2xml (lib_text lib) v = Inr (element_of lib v)"
    and "xml2py (lib_float lib) (element_of lib v) = Inr v"
    and "valid_value (lib_xsd lib) (value_element (element_of lib v))"
    and "texts_ok (lib_text lib) (element_of lib v)"
proof -
  obtain e where e: "py2xml (lib_text lib) v = Inr e" "xml2py (lib_float lib) e = Inr v"
    using transported_ok [of "lib_text lib" "lib_float lib" v] v by (auto simp: travels_def transported_def)
  then have eq: "element_of lib v = e" by (simp add: element_of_def)
  show "py2xml (lib_text lib) v = Inr (element_of lib v)"
    "xml2py (lib_float lib) (element_of lib v) = Inr v" using e eq by simp_all
  show "valid_value (lib_xsd lib) (value_element (element_of lib v))"
    using sent_value_valid e(1) law v unfolding eq by (auto simp: library_law_def travels_def)
  show "texts_ok (lib_text lib) (element_of lib v)"
    using py2xml_texts [OF _ _ e(1)] law v unfolding eq by (auto simp: library_law_def travels_def)
qed

lemma parse_printed:
  assumes "library_law lib" "texts_ok (lib_text lib) root" "validate_schema (lib_xsd lib) root"
  shows "parse_body lib (lib_print lib root) = Inr root"
  using assms by (simp add: parse_body_def library_law_def)

section \<open>The request\<close>

definition callable :: "string \<Rightarrow> bool" where
  "callable name \<longleftrightarrow>
     name \<noteq> [] \<and> list_all method_char name \<and> \<not> prefix ''_'' name \<and> name \<noteq> ''multicall''"

definition call_element :: "'b library \<Rightarrow> string \<Rightarrow> pyval list \<Rightarrow> xml" where
  "call_element lib name args =
     parent ''methodCall'' [Elem ''methodName'' name [],
       parent ''params'' (map (\<lambda>a. parent ''param'' [value_element (element_of lib a)]) args)]"

lemma graphic_method_char: "method_char c \<Longrightarrow> graphic c"
  by (auto simp: method_char_def graphic_def)

lemma method_name_text:
  "library_law lib \<Longrightarrow> list_all method_char name \<Longrightarrow> lib_text lib name"
  by (auto simp: library_law_def list_all_iff graphic_method_char)

lemma build_call_element:
  assumes law: "library_law lib" and "list_all method_char name" and args: "list_all (travels lib) args"
  shows "build_call lib name args = Inr (lib_print lib (call_element lib name args))"
proof -
  have "traverse (\<lambda>a. bind_result (py2xml (lib_text lib) a) (\<lambda>e. Inr (parent ''param'' [value_element e]))) args =
      Inr (map (\<lambda>a. parent ''param'' [value_element (element_of lib a)]) args)"
    by (rule traverse_all) (use args travels_element(1) [OF law] in \<open>simp add: list_all_iff\<close>)
  with method_name_text [OF law assms(2)] show ?thesis
    by (simp add: build_call_def call_element_def text_element_def)
qed

lemma call_element_valid:
  assumes law: "library_law lib" and "callable name" and args: "list_all (travels lib) args"
  shows "validate_schema (lib_xsd lib) (call_element lib name args)"
    and "texts_ok (lib_text lib) (call_element lib name args)"
proof -
  have "list_all (valid_param (lib_xsd lib)) (map (\<lambda>a. parent ''param'' [value_element (element_of lib a)]) args)"
    using travels_element(3) [OF law] args by (auto simp: list_all_iff valid_param_def parent_def)
  with assms(2) show "validate_schema (lib_xsd lib) (call_element lib name args)"
    by (simp add: validate_schema_def valid_call_def call_element_def callable_def valid_method_name_def parent_def)
  have "lib_text lib name" using assms(2) method_name_text [OF law] by (simp add: callable_def)
  with travels_element(4) [OF law] args show "texts_ok (lib_text lib) (call_element lib name args)"
    by (auto simp: call_element_def list_all_iff)
qed

lemma path2_param:
  "path2 ''param'' ''value'' (parent ''params'' (map (\<lambda>a. parent ''param'' [value_element (f a)]) xs)) =
     map (\<lambda>a. value_element (f a)) xs"
  by (induction xs) (simp_all add: path2_def elements_def parent_def value_element_def)

lemma call_element_params:
  "message_params (call_element lib name args) = map (\<lambda>a. value_element (element_of lib a)) args"
proof -
  have "elements ''params'' (call_element lib name args) =
      [parent ''params'' (map (\<lambda>a. parent ''param'' [value_element (element_of lib a)]) args)]"
    by (simp add: call_element_def elements_def parent_def)
  then show ?thesis by (simp add: message_params_def path2_param)
qed

lemma parse_built_request:
  assumes law: "library_law lib" and name: "callable name" and args: "list_all (travels lib) args"
  shows "parse_request lib ''text/xml'' (lib_print lib (call_element lib name args)) = Inr (name, args)"
proof -
  have "traverse (xml2py (lib_float lib)) (message_params (call_element lib name args)) = Inr args"
  proof -
    have "traverse (\<lambda>a. xml2py (lib_float lib) (value_element (element_of lib a))) args = Inr (map (\<lambda>a. a) args)"
      by (rule traverse_all) (use travels_element(2) [OF law] args in \<open>simp add: list_all_iff\<close>)
    then show ?thesis by (simp add: call_element_params traverse_map)
  qed
  moreover have "texts (elements ''methodName'' (call_element lib name args)) = [name]"
    using name by (simp add: call_element_def elements_def texts_def parent_def callable_def)
  moreover have "list_ex (prefix ''xml'') (suffixes ''text/xml'')" by simp
  ultimately show ?thesis
    using parse_printed [OF law] call_element_valid [OF law name args] by (simp add: parse_request_def)
qed

section \<open>The answer\<close>

lemma success_parsed:
  assumes law: "library_law lib" and v: "travels lib v"
  shows "\<exists>root. format_success lib v = Inr root \<and> parse_response lib name (lib_print lib root) = Inr v"
proof -
  define root where "root = parent ''methodResponse'' [parent ''params'' [parent ''param'' [value_element (element_of lib v)]]]"
  note e = travels_element [OF law v]
  have "format_success lib v = Inr root" by (simp add: format_success_def e(1) root_def)
  moreover have "valid_response (lib_xsd lib) root"
    using e(3) by (simp add: valid_response_def root_def valid_param_def parent_def)
  then have "parse_body lib (lib_print lib root) = Inr root"
    by (intro parse_printed [OF law]) (use e(4) in \<open>simp_all add: root_def validate_schema_def\<close>)
  moreover have "message_params root = [value_element (element_of lib v)]"
    using path2_param [of "element_of lib" "[v]"]
    by (simp add: message_params_def root_def elements_def) (simp add: parent_def)
  ultimately show ?thesis using e(2) by (simp add: parse_response_def raised_def)
qed

lemma error_formatted: "lib_text lib (lib_repr lib e) \<Longrightarrow> \<exists>root. format_error lib e = Inr root"
  using code_bounds [of "[PlainException]"]
  by (simp add: format_error_def py2xml_exception_def text_element_def)

lemma dispatch_method:
  "callable name \<Longrightarrow> methods name = Some f \<Longrightarrow> dispatch methods name args s = f args s"
  by (simp add: dispatch.simps(1) lookup_method_def callable_def)


text \<open>A server that keeps a counter, and refuses to count down below zero.\<close>

definition demo_library :: "xml library" where
  "demo_library =
     \<lparr>lib_print = (\<lambda>e. e), lib_parse = Inr, lib_text = (\<lambda>s. True), lib_float = Inr, lib_xsd = demo_xsd,
      lib_repr = (\<lambda>e. ''error'')\<rparr>"

definition demo_methods :: "int rpc_handle" where
  "demo_methods name =
     (if name = ''add'' then
        Some (\<lambda>args s. case args of
          [PInt i] \<Rightarrow> if s + i < 0 then (Inl ValueError, s) else (Inr (PInt (s + i)), s + i)
        | _ \<Rightarrow> (Inl TypeError, s))
      else None)"

lemma demo_library_law: "library_law demo_library"
  by (simp add: library_law_def demo_library_def xsd_law_def demo_xsd_def)


section \<open>Several calls at once\<close>

definition call_value :: "string \<times> pyval list \<Rightarrow> pyval" where
  "call_value call = PDict [(''methodName'', PStr (fst call)), (''params'', PList (snd call))]"

lemma multicall_call:
  assumes "callable name" "methods name = Some f"
  shows "multicall methods (call_value (name, args) # calls) s =
    bind_outcome (f args s) (\<lambda>r s'. bind_outcome (multicall methods calls s') (\<lambda>rs s''. (Inr (r # rs), s'')))"
  using assms dispatch_method [where methods = methods, OF assms]
  by (simp add: call_value_def lookup_method_def callable_def)

text \<open>The calls one after another, as single calls would do them.\<close>

fun one_by_one :: "'s rpc_handle \<Rightarrow> (string \<times> pyval list) list \<Rightarrow> 's \<Rightarrow> (pyval list, 's) outcome" where
  "one_by_one methods [] s = (Inr [], s)"
| "one_by_one methods ((name, args) # calls) s =
     (case the (methods name) args s of
        (Inl e, s') \<Rightarrow> (Inl e, s')
      | (Inr r, s') \<Rightarrow>
          (case one_by_one methods calls s' of (Inl e, s'') \<Rightarrow> (Inl e, s'') | (Inr rs, s'') \<Rightarrow> (Inr (r # rs), s'')))"

text \<open>\<open>multicall\<close> does its calls one after another as single calls would, in order, with the
  results in a list; the first that raises ends it, and what the calls before it did to the server's
  state remains.\<close>

theorem multicall_sequence:
  assumes "list_all (\<lambda>(name, args). callable name \<and> methods name \<noteq> None) calls"
  shows "dispatch methods ''multicall'' [PList (map call_value calls)] s =
    (let (res, s') = one_by_one methods calls s in
     ((case res of Inl e \<Rightarrow> Inl e | Inr rs \<Rightarrow> Inr (PList rs)), s'))"
proof -
  have "multicall methods (map call_value calls) s = one_by_one methods calls s"
    using assms
  proof (induction calls arbitrary: s)
    case (Cons call calls)
    obtain name args f where call: "call = (name, args)" "callable name" "methods name = Some f"
      using Cons.prems by (cases call) auto
    obtain res s' where r: "f args s = (res, s')" by fastforce
    obtain rest s'' where rs: "one_by_one methods calls s' = (rest, s'')" by fastforce
    have "multicall methods (map call_value calls) s' = (rest, s'')"
      using Cons.IH [of s'] Cons.prems rs by simp
    with call r rs show ?case
      by (simp only: list.map call multicall_call [where methods = methods, OF call(2,3)]) (cases res; cases rest; simp add: call(3))
  qed simp
  moreover obtain res s' where "one_by_one methods calls s = (res, s')" by fastforce
  ultimately show ?thesis
    by (cases res) (simp_all add: dispatch.simps(1) lookup_method_def)
qed

theorem multicall_sequence_witness:
  "dispatch demo_methods ''multicall'' [PList (map call_value [(''add'', [PInt 3]), (''add'', [PInt (-9)]), (''add'', [PInt 1])])] 2 =
     (Inl ValueError, 5)"
  using multicall_sequence [of demo_methods "[(''add'', [PInt 3]), (''add'', [PInt (-9)]), (''add'', [PInt 1])]" 2]
  by (simp add: callable_def method_char_def demo_methods_def)

end
