(* ===== verification/Http_Server.thy ===== *)
theory Http_Server
  imports Xmlrpc_Calls
begin

text \<open>
  A connection to the XML-RPC server: \<open>ClientWrapper\<close>, \<open>handle\<close> and the rest of
  \<open>handle_request\<close> of \<open>aioros/xmlrpc/_server.py\<close>, between the stream of a peer and the
  requests of \<open>Xmlrpc_Calls\<close>.

  The HTTP protocol itself is h11, a parameter (record \<open>h11\<close>): what it makes of the bytes that
  arrive, and whether it allows an event to be sent. On the wire the model keeps the events, not their
  bytes. \<^const>\<open>None\<close> is that the task waits for the peer.
\<close>

section \<open>Streams and events\<close>

datatype http_event =
    Request "(string \<times> string) list"
  | Data bytes
  | EndOfMessage
  | ConnectionClosed
  | NeedData
  | Paused
  | Response nat nat
  | InformationalResponse nat

record 'c h11 =
  h11_next :: "'c \<Rightarrow> http_event result \<times> 'c"
  h11_receive :: "bytes \<Rightarrow> 'c \<Rightarrow> (unit, 'c) outcome"
  h11_send :: "http_event \<Rightarrow> 'c \<Rightarrow> (unit, 'c) outcome"
  h11_waiting_for_100 :: "'c \<Rightarrow> bool"
  h11_must_close :: "'c \<Rightarrow> bool"
  h11_next_cycle :: "'c \<Rightarrow> 'c option"

text \<open>
  What receiving from the stream comes to, arrival by arrival. Whether the stream accepts what is sent
  is told by the number of events sent before.
\<close>

datatype arrival = Arrived bytes | EndOfStream | ConnectionLost | Broken

record 'c wrapper =
  http :: 'c
  arriving :: "arrival list"
  wire :: "http_event list"
  accepts :: "nat \<Rightarrow> bool"
  eof_sent :: bool
  stream_closed :: bool

type_synonym 'c wrapper_call = "'c wrapper \<Rightarrow> (unit, 'c wrapper) outcome"

definition http_send :: "'c h11 \<Rightarrow> http_event \<Rightarrow> 'c wrapper_call" where
  "http_send h event w =
     (case h11_send h event (http w) of
        (Inl e, c) \<Rightarrow> (Inl e, w\<lparr>http := c\<rparr>)
      | (Inr _, c) \<Rightarrow>
          if accepts w (length (wire w)) then (Inr (), w\<lparr>http := c, wire := wire w @ [event]\<rparr>)
          else (Inl BrokenResourceError, w\<lparr>http := c\<rparr>))"

definition go_ahead :: "'c h11 \<Rightarrow> 'c wrapper_call" where
  "go_ahead h w = (if h11_waiting_for_100 h (http w) then http_send h (InformationalResponse 100) w else (Inr (), w))"

text \<open>\<open>stream.receive\<close>, with the end of the stream and a lost connection as no data.\<close>

definition take_arrival :: "'c wrapper \<Rightarrow> (bytes result \<times> 'c wrapper) option" where
  "take_arrival w =
     (case arriving w of
        [] \<Rightarrow> None
      | a # rest \<Rightarrow>
          let w' = w\<lparr>arriving := rest\<rparr> in
          Some (case a of
                  Arrived data \<Rightarrow> (Inr data, w')
                | EndOfStream \<Rightarrow> (Inr [], w)
                | ConnectionLost \<Rightarrow> (Inr [], w)
                | Broken \<Rightarrow> (Inl BrokenResourceError, w)))"

definition read_from_peer :: "'c h11 \<Rightarrow> 'c wrapper \<Rightarrow> (unit result \<times> 'c wrapper) option" where
  "read_from_peer h w =
     (case go_ahead h w of
        (Inl e, w') \<Rightarrow> Some (Inl e, w')
      | (Inr _, w') \<Rightarrow>
          Option.bind (take_arrival w') (\<lambda>(got, w''). Some
            (case got of
               Inl e \<Rightarrow> (Inl e, w'')
             | Inr data \<Rightarrow> let (res, c) = h11_receive h data (http w'') in (res, w''\<lparr>http := c\<rparr>))))"

partial_function (option) next_event :: "'c h11 \<Rightarrow> 'c wrapper \<Rightarrow> (http_event result \<times> 'c wrapper) option" where
  "next_event h w =
     (let (event, c) = h11_next h (http w); w' = w\<lparr>http := c\<rparr> in
      if event = Inr NeedData then
        Option.bind (read_from_peer h w') (\<lambda>(res, w'').
          case res of Inl e \<Rightarrow> Some (Inl e, w'') | Inr _ \<Rightarrow> next_event h w'')
      else Some (event, w'))"

text \<open>The body of a request: of the events, data has \<open>data\<close>, and the others have not.\<close>

partial_function (option) collect_body :: "'c h11 \<Rightarrow> bytes \<Rightarrow> 'c wrapper \<Rightarrow> (bytes result \<times> 'c wrapper) option" where
  "collect_body h body w =
     Option.bind (next_event h w) (\<lambda>(event, w').
       case event of
         Inl e \<Rightarrow> Some (Inl e, w')
       | Inr EndOfMessage \<Rightarrow> Some (Inr body, w')
       | Inr (Data data) \<Rightarrow> collect_body h (body @ data) w'
       | Inr _ \<Rightarrow> Some (Inl AttributeError, w'))"

section \<open>Requests\<close>

definition content_type :: "(string \<times> string) list \<Rightarrow> string" where
  "content_type headers = (case map_of (rev headers) ''content-type'' of None \<Rightarrow> [] | Some v \<Rightarrow> v)"

definition reply_events :: "nat \<times> bytes \<Rightarrow> http_event list" where
  "reply_events reply = (let (status, data) = reply in [Response status (length data), Data data, EndOfMessage])"

definition answer_request ::
    "'c h11 \<Rightarrow> bytes library \<Rightarrow> 's rpc_handle \<Rightarrow> (string \<times> string) list \<Rightarrow> 'c wrapper \<times> 's \<Rightarrow>
     (unit result \<times> 'c wrapper \<times> 's) option" where
  "answer_request h lib methods headers ws =
     (let (w, s) = ws in
      Option.bind (collect_body h [] w) (\<lambda>(got, w').
        case got of
          Inl e \<Rightarrow> Some (Inl e, w', s)
        | Inr body \<Rightarrow>
            (case handle_request lib methods (content_type headers) body s of
               (Inl e, s') \<Rightarrow> Some (Inl e, w', s')
             | (Inr reply, s') \<Rightarrow>
                 let (res, w'') = for_each (http_send h) (reply_events reply) w' in Some (res, w'', s'))))"

text \<open>
  \<open>shutdown\<close>: what still arrives is dropped, until the end or (when nothing more arrives) the time
  limit, and the stream is closed in any case but one: when its end cannot be sent.
\<close>

fun drain :: "arrival list \<Rightarrow> unit result" where
  "drain [] = Inr ()"
| "drain (Arrived data # rest) = (if data = [] then Inr () else drain rest)"
| "drain (EndOfStream # rest) = Inr ()"
| "drain (ConnectionLost # rest) = Inl ConnectionError"
| "drain (Broken # rest) = Inr ()"

definition shutdown_stream :: "'c wrapper_call" where
  "shutdown_stream w =
     (if accepts w (length (wire w)) then (drain (arriving w), w\<lparr>eof_sent := True, stream_closed := True\<rparr>)
      else (Inr (), w))"

text \<open>One turn of the loop of \<open>handle\<close>: it goes on (\<^const>\<open>None\<close>) or is over, with its outcome.\<close>

definition shut_down :: "'c wrapper \<times> 's \<Rightarrow> unit result option \<times> 'c wrapper \<times> 's" where
  "shut_down ws = (let (w, s) = ws; (res, w') = shutdown_stream w in (Some res, w', s))"

definition end_of_turn :: "'c h11 \<Rightarrow> 'c wrapper \<times> 's \<Rightarrow> unit result option \<times> 'c wrapper \<times> 's" where
  "end_of_turn h ws =
     (let (w, s) = ws in
      if h11_must_close h (http w) then shut_down (w, s)
      else (case h11_next_cycle h (http w) of
              None \<Rightarrow> shut_down (w, s)
            | Some c \<Rightarrow> (None, w\<lparr>http := c\<rparr>, s)))"

definition handle_turn ::
    "'c h11 \<Rightarrow> bytes library \<Rightarrow> 's rpc_handle \<Rightarrow> 'c wrapper \<times> 's \<Rightarrow>
     (unit result option \<times> 'c wrapper \<times> 's) option" where
  "handle_turn h lib methods ws =
     (let (w, s) = ws in
      Option.bind (next_event h w) (\<lambda>(event, w').
        case event of
          Inl BrokenResourceError \<Rightarrow> Some (shut_down (w', s))
        | Inl e \<Rightarrow> Some (Some (Inl e), w', s)
        | Inr (Request headers) \<Rightarrow>
            Option.bind (answer_request h lib methods headers (w', s)) (\<lambda>(res, ws').
              case res of Inl e \<Rightarrow> Some (Some (Inl e), ws') | Inr _ \<Rightarrow> Some (end_of_turn h ws'))
        | Inr _ \<Rightarrow> Some (end_of_turn h (w', s))))"

partial_function (option) handle_connection ::
    "'c h11 \<Rightarrow> bytes library \<Rightarrow> 's rpc_handle \<Rightarrow> 'c wrapper \<times> 's \<Rightarrow> (unit result \<times> 'c wrapper \<times> 's) option" where
  "handle_connection h lib methods ws =
     Option.bind (handle_turn h lib methods ws) (\<lambda>(over, ws').
       case over of Some res \<Rightarrow> Some (res, ws') | None \<Rightarrow> handle_connection h lib methods ws')"

section \<open>Requests are answered in turn\<close>

definition visible :: "http_event list \<Rightarrow> http_event list" where
  "visible = filter (\<lambda>event. case event of InformationalResponse _ \<Rightarrow> False | _ \<Rightarrow> True)"

lemma visible_append [simp]: "visible (evs @ evs') = visible evs @ visible evs'"
  by (simp add: visible_def)

lemma visible_reply [simp]: "visible (reply_events reply) = reply_events reply"
  by (simp add: visible_def reply_events_def case_prod_beta Let_def)

text \<open>Going on with the peer does not show on the wire, apart from the go-ahead.\<close>

definition unseen :: "'c wrapper \<Rightarrow> 'c wrapper \<Rightarrow> bool" where
  "unseen w w' \<longleftrightarrow> visible (wire w') = visible (wire w) \<and> accepts w' = accepts w"

lemma unseen_http [simp]: "unseen w (w\<lparr>http := c\<rparr>)"
  by (simp add: unseen_def)

lemma unseen_trans: "unseen u v \<Longrightarrow> unseen v w \<Longrightarrow> unseen u w"
  by (simp add: unseen_def)

lemma go_ahead_unseen: "go_ahead h w = (res, w') \<Longrightarrow> unseen w w'"
  by (auto simp: go_ahead_def http_send_def unseen_def visible_def split: if_splits sum.splits prod.splits)

lemma take_arrival_unseen: "take_arrival w = Some (res, w') \<Longrightarrow> unseen w w'"
  by (auto simp: take_arrival_def unseen_def Let_def split: list.splits arrival.splits)

lemma read_from_peer_unseen:
  assumes "read_from_peer h w = Some (res, w')"
  shows "unseen w w'"
proof -
  obtain res1 w1 where g: "go_ahead h w = (res1, w1)" by fastforce
  note first = go_ahead_unseen [OF g]
  show ?thesis
  proof (cases res1)
    case (Inl e)
    with assms g first show ?thesis by (simp add: read_from_peer_def)
  next
    case (Inr u)
    with assms g obtain got w2 where t: "take_arrival w1 = Some (got, w2)"
      by (auto simp: read_from_peer_def bind_eq_Some_conv)
    with assms g Inr have "unseen w2 w'"
      by (auto simp: read_from_peer_def unseen_def split: sum.splits prod.splits)
    with first take_arrival_unseen [OF t] show ?thesis by (blast intro: unseen_trans)
  qed
qed

lemma next_event_unseen:
  assumes "next_event h w = Some (res, w')"
  shows "unseen w w'"
proof -
  have "unseen w (snd (res, w'))"
  proof (rule next_event.raw_induct [where P = "\<lambda>h w r. unseen w (snd r)", OF _ assms])
    fix next_event :: "'a h11 \<Rightarrow> 'a wrapper \<Rightarrow> (http_event result \<times> 'a wrapper) option" and h w r
    assume IH: "\<And>h w r. next_event h w = Some r \<Longrightarrow> unseen w (snd r)"
      and eq: "(let (event, c) = h11_next h (http w); w' = w\<lparr>http := c\<rparr> in
        if event = Inr NeedData then
          Option.bind (read_from_peer h w') (\<lambda>(res, w'').
            case res of Inl e \<Rightarrow> Some (Inl e, w'') | Inr _ \<Rightarrow> next_event h w'')
        else Some (event, w')) = Some r"
    obtain event c where n: "h11_next h (http w) = (event, c)" by fastforce
    show "unseen w (snd r)"
    proof (cases "event = Inr NeedData")
      case True
      with eq n obtain got w'' where p: "read_from_peer h (w\<lparr>http := c\<rparr>) = Some (got, w'')"
        and rest: "(case got of Inl e \<Rightarrow> Some (Inl e, w'') | Inr _ \<Rightarrow> next_event h w'') = Some r"
        by (auto simp: bind_eq_Some_conv)
      have "unseen w w''" using unseen_http read_from_peer_unseen [OF p] by (rule unseen_trans)
      moreover have "unseen w'' (snd r)" using rest IH by (auto simp: unseen_def split: sum.splits)
      ultimately show ?thesis by (rule unseen_trans)
    next
      case False
      with eq n show ?thesis by auto
    qed
  qed
  then show ?thesis by simp
qed

lemma collect_body_unseen:
  assumes "collect_body h body w = Some (res, w')"
  shows "unseen w w'"
proof -
  have "unseen w (snd (res, w'))"
  proof (rule collect_body.raw_induct [where P = "\<lambda>h body w r. unseen w (snd r)", OF _ assms])
    fix collect_body :: "'a h11 \<Rightarrow> bytes \<Rightarrow> 'a wrapper \<Rightarrow> (bytes result \<times> 'a wrapper) option" and h body w r
    assume IH: "\<And>h body w r. collect_body h body w = Some r \<Longrightarrow> unseen w (snd r)"
      and eq: "Option.bind (next_event h w) (\<lambda>(event, w').
        case event of
          Inl e \<Rightarrow> Some (Inl e, w')
        | Inr EndOfMessage \<Rightarrow> Some (Inr body, w')
        | Inr (Data data) \<Rightarrow> collect_body h (body @ data) w'
        | Inr _ \<Rightarrow> Some (Inl AttributeError, w')) = Some r"
    from eq obtain event w1 where n: "next_event h w = Some (event, w1)"
      by (auto simp: bind_eq_Some_conv)
    have "unseen w1 (snd r)"
      using eq n IH by (auto simp: unseen_def split: sum.splits http_event.splits)
    with next_event_unseen [OF n] show "unseen w (snd r)" by (rule unseen_trans)
  qed
  then show ?thesis by simp
qed

lemma http_send_ok: "http_send h event w = (Inr (), w') \<Longrightarrow> wire w' = wire w @ [event] \<and> accepts w' = accepts w"
  by (auto simp: http_send_def split: sum.splits prod.splits if_splits)

lemma send_all:
  "for_each (http_send h) evs w = (Inr (), w') \<Longrightarrow> wire w' = wire w @ evs \<and> accepts w' = accepts w"
proof (induction evs arbitrary: w)
  case (Cons event evs)
  from Cons.prems obtain w1 where "http_send h event w = (Inr (), w1)" "for_each (http_send h) evs w1 = (Inr (), w')"
    by (cases "http_send h event w") (auto simp: bind_outcome_def split: sum.splits)
  with Cons.IH [of w1] http_send_ok [of h event w w1] show ?case by simp
qed simp

text \<open>What requests come to, one after another: the events of the replies and the state of the server;
  nothing when one of them raises.\<close>

fun served ::
    "bytes library \<Rightarrow> 's rpc_handle \<Rightarrow> (string \<times> bytes) list \<Rightarrow> 's \<Rightarrow> (http_event list \<times> 's) option" where
  "served lib methods [] s = Some ([], s)"
| "served lib methods ((ct, body) # requests) s =
     (case handle_request lib methods ct body s of
        (Inl e, _) \<Rightarrow> None
      | (Inr reply, s') \<Rightarrow>
          map_option (\<lambda>(evs, s''). (reply_events reply @ evs, s'')) (served lib methods requests s'))"

lemma served_append:
  "served lib methods rs s = Some (evs, s') \<Longrightarrow> served lib methods rs' s' = Some (evs', s'') \<Longrightarrow>
     served lib methods (rs @ rs') s = Some (evs @ evs', s'')"
proof (induction rs arbitrary: s evs)
  case (Cons r rs)
  obtain ct body where r: "r = (ct, body)" by fastforce
  with Cons.prems(1) obtain reply s1 evs1 where "handle_request lib methods ct body s = (Inr reply, s1)"
    "served lib methods rs s1 = Some (evs1, s')" "evs = reply_events reply @ evs1"
    by (auto split: sum.splits prod.splits)
  with Cons.IH [of s1 evs1] Cons.prems(2) r show ?case by simp
qed simp

text \<open>The turns of a connection so far, none of which was the last.\<close>

inductive connection_run ::
    "'c h11 \<Rightarrow> bytes library \<Rightarrow> 's rpc_handle \<Rightarrow> 'c wrapper \<times> 's \<Rightarrow> 'c wrapper \<times> 's \<Rightarrow> bool"
  for h lib methods where
  connected: "connection_run h lib methods ws ws"
| turned: "connection_run h lib methods ws ws' \<Longrightarrow> handle_turn h lib methods ws' = Some (None, ws'') \<Longrightarrow>
    connection_run h lib methods ws ws''"

text \<open>Between two pairs of connection and server: exactly these requests.\<close>

definition answers ::
    "bytes library \<Rightarrow> 's rpc_handle \<Rightarrow> (string \<times> bytes) list \<Rightarrow> 'c wrapper \<times> 's \<Rightarrow> 'c wrapper \<times> 's \<Rightarrow> bool" where
  "answers lib methods requests ws ws' \<longleftrightarrow>
     (\<exists>evs. served lib methods requests (snd ws) = Some (evs, snd ws') \<and>
        visible (wire (fst ws')) = visible (wire (fst ws)) @ evs)"

lemma answers_unseen: "unseen w w' \<Longrightarrow> answers lib methods [] (w, s) (w', s)"
  by (simp add: answers_def unseen_def)

lemma answers_trans:
  "answers lib methods rs ws ws' \<Longrightarrow> answers lib methods rs' ws' ws'' \<Longrightarrow> answers lib methods (rs @ rs') ws ws''"
  by (auto simp: answers_def served_append)

lemma answer_request_answers:
  assumes "answer_request h lib methods headers (w, s) = Some (Inr (), w', s')"
  shows "\<exists>body. answers lib methods [(content_type headers, body)] (w, s) (w', s')"
proof -
  from assms obtain got w1 where c0: "collect_body h [] w = Some (got, w1)"
    by (auto simp: answer_request_def bind_eq_Some_conv)
  with assms obtain body where "got = Inr body" by (cases got) (auto simp: answer_request_def)
  with c0 have c: "collect_body h [] w = Some (Inr body, w1)" by simp
  with assms obtain reply where r: "handle_request lib methods (content_type headers) body s = (Inr reply, s')"
    and sent: "for_each (http_send h) (reply_events reply) w1 = (Inr (), w')"
    by (auto simp: answer_request_def split: sum.splits prod.splits)
  have "answers lib methods [(content_type headers, body)] (w, s) (w', s')"
    using collect_body_unseen [OF c] send_all [OF sent] r by (simp add: answers_def unseen_def)
  then show ?thesis ..
qed

lemma end_of_turn_answers: "end_of_turn h ws = (over, ws') \<Longrightarrow> answers lib methods [] ws ws'"
  by (cases ws) (auto simp: end_of_turn_def shut_down_def shutdown_stream_def answers_def
      split: if_splits option.splits prod.splits)

text \<open>How a turn goes that does not raise.\<close>

lemma handle_turn_cases:
  assumes "handle_turn h lib methods (w, s) = Some (over, ws')" and "over = None \<or> over = Some (Inr ())"
  obtains (lost) w1 where "unseen w w1" "shut_down (w1, s) = (over, ws')"
    | (other) w1 where "unseen w w1" "end_of_turn h (w1, s) = (over, ws')"
    | (request) w1 headers w2 s2 where "unseen w w1"
        "answer_request h lib methods headers (w1, s) = Some (Inr (), w2, s2)" "end_of_turn h (w2, s2) = (over, ws')"
proof -
  from assms(1) obtain event w1 where n: "next_event h w = Some (event, w1)"
    by (auto simp: handle_turn_def bind_eq_Some_conv)
  note u = next_event_unseen [OF n]
  show thesis
  proof (cases event)
    case (Inl e)
    show thesis
    proof (cases "e = BrokenResourceError")
      case True
      with assms(1) n Inl show thesis by (intro lost [OF u]) (simp add: handle_turn_def)
    next
      case False
      with assms n Inl show thesis by (cases e) (auto simp: handle_turn_def)
    qed
  next
    case (Inr ev)
    show thesis
    proof (cases "\<exists>headers. ev = Request headers")
      case True
      then obtain headers where ev: "ev = Request headers" ..
      from assms(1) n Inr ev obtain res w2 s2
        where req: "answer_request h lib methods headers (w1, s) = Some (res, w2, s2)"
          and rest: "(case res of Inl e \<Rightarrow> Some (Some (Inl e), w2, s2) | Inr _ \<Rightarrow> Some (end_of_turn h (w2, s2))) = Some (over, ws')"
        by (auto simp: handle_turn_def bind_eq_Some_conv)
      show thesis
      proof (cases res)
        case (Inr v)
        with req rest show thesis by (intro request [OF u]) auto
      qed (use rest assms(2) in auto)
    next
      case False
      with assms(1) n Inr have "end_of_turn h (w1, s) = (over, ws')" by (cases ev) (auto simp: handle_turn_def)
      then show thesis by (rule other [OF u])
    qed
  qed
qed

lemma shut_down_answers: "shut_down ws = (over, ws') \<Longrightarrow> answers lib methods [] ws ws'"
  by (cases ws) (auto simp: shut_down_def shutdown_stream_def answers_def split: if_splits prod.splits)

lemma handle_turn_answers:
  assumes "handle_turn h lib methods (w, s) = Some (over, ws')" and "over = None \<or> over = Some (Inr ())"
  shows "\<exists>rs. answers lib methods rs (w, s) ws'"
  using assms
proof (cases rule: handle_turn_cases)
  case (lost w1)
  from answers_trans [OF answers_unseen [OF lost(1)] shut_down_answers [OF lost(2)]] show ?thesis by blast
next
  case (other w1)
  from answers_trans [OF answers_unseen [OF other(1)] end_of_turn_answers [OF other(2)]] show ?thesis by blast
next
  case (request w1 headers w2 s2)
  obtain body where "answers lib methods [(content_type headers, body)] (w1, s) (w2, s2)"
    using answer_request_answers [OF request(2)] ..
  from answers_trans [OF answers_unseen [OF request(1)] answers_trans [OF this end_of_turn_answers [OF request(3)]]]
  show ?thesis by blast
qed

lemma connection_run_answers: "connection_run h lib methods ws ws' \<Longrightarrow> \<exists>rs. answers lib methods rs ws ws'"
proof (induction rule: connection_run.induct)
  case (connected ws)
  have "answers lib methods [] ws ws" by (simp add: answers_def)
  then show ?case by blast
next
  case (turned ws ws' ws'')
  then obtain rs where "answers lib methods rs ws ws'" by blast
  moreover obtain rs' where "answers lib methods rs' ws' ws''"
    using handle_turn_answers [of h lib methods "fst ws'" "snd ws'" None ws''] turned.hyps(2) by auto
  ultimately show ?case by (blast intro: answers_trans)
qed

lemma shut_down_closed:
  "shut_down ws = (over, w', s') \<Longrightarrow> stream_closed w' \<or> \<not> accepts w' (length (wire w'))"
  by (auto simp: shut_down_def shutdown_stream_def split: if_splits prod.splits)

lemma end_of_turn_over:
  "end_of_turn h ws = (Some res, w', s') \<Longrightarrow> stream_closed w' \<or> \<not> accepts w' (length (wire w'))"
  by (auto simp: end_of_turn_def split: if_splits option.splits prod.splits dest!: shut_down_closed)

lemma handle_turn_over:
  assumes "handle_turn h lib methods (w, s) = Some (Some (Inr ()), w', s')"
  shows "stream_closed w' \<or> \<not> accepts w' (length (wire w'))"
  using assms by (cases rule: handle_turn_cases) (auto dest: shut_down_closed end_of_turn_over)


text \<open>A request that cannot be parsed is not answered: its exception leaves the task of the connection,
  and with it the task group of the listener.\<close>

lemma unparsable_request_raises:
  assumes "next_event h w = Some (Inr (Request headers), w1)" and "collect_body h [] w1 = Some (Inr body, w2)"
    and "parse_request lib (content_type headers) body = Inl e"
  shows "handle_connection h lib methods (w, s) = Some (Inl e, w2, s) \<and> visible (wire w2) = visible (wire w)"
  using assms next_event_unseen [OF assms(1)] collect_body_unseen [OF assms(2)]
  by (simp add: handle_connection.simps handle_turn_def answer_request_def handle_request_def unseen_def)

text \<open>An h11 that has the events of a connection at hand, and closes it after the last.\<close>

definition demo_h11 :: "http_event list h11" where
  "demo_h11 =
     \<lparr>h11_next = (\<lambda>c. case c of [] \<Rightarrow> (Inr ConnectionClosed, []) | event # c' \<Rightarrow> (Inr event, c')),
      h11_receive = (\<lambda>data c. (Inr (), c)), h11_send = (\<lambda>event c. (Inr (), c)), h11_waiting_for_100 = (\<lambda>c. False),
      h11_must_close = (\<lambda>c. c = []), h11_next_cycle = Some\<rparr>"

definition demo_http_library :: "bytes library" where
  "demo_http_library =
     \<lparr>lib_print = (\<lambda>e. [1]), lib_parse = (\<lambda>bs. Inr (call_element demo_library ''add'' [PInt (int (length bs))])),
      lib_text = (\<lambda>s. True), lib_float = Inr, lib_xsd = demo_xsd, lib_repr = (\<lambda>e. ''error'')\<rparr>"

definition demo_wrapper :: "http_event list wrapper" where
  "demo_wrapper =
     \<lparr>http = [Request [(''content-type'', ''text/xml'')], Data [1, 2], EndOfMessage,
              Request [(''content-type'', ''text/xml'')], Data [1], Data [2, 3], EndOfMessage],
      arriving = [], wire = [], accepts = (\<lambda>n. True), eof_sent = False, stream_closed = False\<rparr>"

lemma demo_handle:
  "handle_request demo_http_library demo_methods ''text/xml'' [1, 2] 0 = (Inr (200, [1]), 2)"
  "handle_request demo_http_library demo_methods ''text/xml'' [1, 2, 3] 2 = (Inr (200, [1]), 5)"
  by code_simp+

definition demo_between :: "http_event list wrapper" where
  "demo_between = demo_wrapper\<lparr>http := drop 3 (http demo_wrapper), wire := reply_events (200, [1])\<rparr>"

lemmas demo_turn_simps = handle_turn_def answer_request_def next_event.simps collect_body.simps demo_h11_def
  http_send_def end_of_turn_def shut_down_def shutdown_stream_def content_type_def reply_events_def

lemma demo_turns:
  "handle_turn demo_h11 demo_http_library demo_methods (demo_wrapper, 0) = Some (None, demo_between, 2)"
  "handle_turn demo_h11 demo_http_library demo_methods (demo_between, 2) =
     Some (Some (Inr ()), demo_between\<lparr>http := [], wire := wire demo_between @ reply_events (200, [1]),
       eof_sent := True, stream_closed := True\<rparr>, 5)"
  by (simp_all add: demo_turn_simps demo_handle demo_wrapper_def demo_between_def)


end
