(* ===== verification/Spec2Isabelle.thy ===== *)
theory Spec2Isabelle
  imports Master_Properties Action_Client End_To_End Master_Server Tf2 Http_Server
begin

text \<open>
  A verification library for \<open>aioros\<close>, an implementation of the ROS 1 middleware on
  asynchronous Python: a master that keeps track of nodes, and nodes that exchange messages, call each
  other's services and share parameters.

  \<^bold>\<open>The program and its parts.\<close> The master (\<open>aioros/master\<close>) holds the parameters and the
  registrations of publishers, subscribers and services, and tells nodes of changes. A node
  (\<open>aioros/_node\<close>) talks to the master over XML-RPC (\<open>aioros/xmlrpc\<close>), gets calls from it by
  the same means, and exchanges headers and messages with other nodes over TCPROS
  (\<open>aioros/_node/_tcpros\<close>). Actions (\<open>aioros/_node/_action\<close>) are built on topics.

  \<^bold>\<open>Conventions.\<close> An exception is \<open>Inl\<close>, a returned value \<open>Inr\<close>. An operation on
  state returns its outcome and the state it leaves, also when it raises. Strings are in UTF-8, dicts
  are association lists in insertion order, sets are lists without duplicates. Tasks of one process
  interleave at \<open>await\<close> only: what runs between two of them is one step, and concurrent behaviour
  is a sequence of steps, as an inductive relation or a list of events.

  \<^bold>\<open>Foundations.\<close>
  \<^item> \<open>Prelude\<close>: exceptions, outcomes, loops, dicts and sets.
  \<^item> \<open>Py_Text\<close>: UTF-8, white space, decimal numerals; \<open>Values\<close>: the values of
    parameters and of XML-RPC.
  \<^item> \<open>Names\<close>: resolution of names, \<open>_utils/_resolve.py\<close>.

  \<^bold>\<open>The master.\<close>
  \<^item> \<open>Master_Params\<close>: \<open>ParamCache\<close> of \<open>master/_param_cache.py\<close>, a tree of dicts; reading,
    writing, deleting, all keys, upward search, each related to the values at paths.
  \<^item> \<open>Master_Registry\<close>: \<open>master/_registry.py\<close>, with the queues of calls of the nodes.
    \<open>Registry_Invariants\<close>: the dictionaries and the nodes' own lists agree in every reachable state.
    \<open>Registry_Updates\<close>: the last publisher update queued for a subscriber is the present list.
    \<open>Registry_Notify\<close>: which parameter updates \<open>on_param_update\<close> queues.
  \<^item> \<open>Master_Api\<close>: the handlers of \<open>master/_api.py\<close> on \<open>master/_master.py\<close>;
    \<open>Master_Theorems\<close>, \<open>Master_Properties\<close>: what clients can rely on.
  \<^item> \<open>Master_Server\<close>: the process of the master, \<open>master/_server.py\<close>, from its listener to its end.

  \<^bold>\<open>The node.\<close>
  \<^item> \<open>Node_Params\<close>: \<open>ParamCache\<close> of \<open>_node/_param_cache.py\<close>; \<open>Node_Coherence\<close>:
    it follows the master's parameters; \<open>Node_Parameters\<close>: the parameter methods of \<open>Node\<close> with
    \<open>MasterApiClient\<close>; \<open>Master_Client\<close>: the rest of that client.
  \<^item> \<open>Tcpros_Protocol\<close>: reading and writing of frames and headers
    (\<open>_tcpros/_protocol.py\<close>), with the contract of a framing as a locale;
    \<open>Tcpros_Messages\<close>: serialisers, messages, addresses, the contract of a message class.
  \<^item> \<open>Topic_Publisher\<close>, \<open>Topic_Subscriber\<close>, \<open>Subscriber_Properties\<close>:
    \<open>_topic_publisher.py\<close> and \<open>_topic_subscriber.py\<close>, each with its tasks as steps.
  \<^item> \<open>Services\<close>: \<open>_service_server.py\<close> and \<open>_service_client.py\<close>.
  \<^item> \<open>Node_Process\<close>: the registry of a node, its factories and its listeners
    (\<open>_node.py\<close>), \<open>NodeApiHandle\<close> of \<open>_api.py\<close>; \<open>Node_Properties\<close>: master, publisher
    and subscriber together.
  \<^item> \<open>Action_Machine\<close>, \<open>Action_Call\<close>: the states of a goal and the trackers of a call;
    \<open>Action_Client\<close>: the client that sends goals, on the topics of its node.
  \<^item> \<open>Node_Startup\<close>: from a command line and an environment to a new node;
    \<open>Node_Lifecycle\<close>: the whole of \<open>init_node\<close>, with the listeners of \<open>_utils/_sockets.py\<close>, the tasks of a
    node, signals, its end and what it leaves behind.
  \<^item> \<open>Node_Time\<close>: the simulated clock (\<open>_time.py\<close>) with any number of sleepers as steps, and \<open>every\<close>.
  \<^item> \<open>Node_Context\<close>: functions on the node of the context (\<open>_context.py\<close>);
    \<open>Node_Logging\<close>: the queue of \<open>/rosout\<close> (\<open>_logging.py\<close>).
  \<^item> \<open>Tf2\<close>: a buffer and its waits, transforming messages, the client of a buffer server.

  \<^bold>\<open>Together.\<close>
  \<^item> \<open>End_To_End\<close>: two nodes and the master: a message from \<open>publish\<close> to the streams of a
    subscription at another node, and a call of a service, each through the registration at the master, the
    negotiation or lookup, the handshake and the bytes of one connection.

  \<^bold>\<open>XML-RPC.\<close>
  \<^item> \<open>Xmlrpc_Text\<close>: base 64 and dates; \<open>Xmlrpc_Values\<close>: values as elements and back
    (\<open>_protocol/_common.py\<close>); \<open>Xmlrpc_Schema\<close>: the schema \<open>xmlrpc.rng\<close>;
    \<open>Xmlrpc_Faults\<close>: exceptions and their codes (\<open>_protocol/_exceptions.py\<close>);
    \<open>Xmlrpc_Calls\<close>: requests, dispatch, answers, and the theorem that a remote call is a call,
    which is what the other theories take for granted when a client calls a handler directly;
    \<open>Http_Server\<close>: the turns of a connection to the server (\<open>_server.py\<close>), over any h11.

  \<^bold>\<open>Termination.\<close> No definition runs on fuel: loops over input recurse on what is left of it, the
  worklist of \<open>keys\<close> on the size of the parameters it holds, \<open>multicall\<close> on the nesting of its
  arguments. Reading from a connection, which may wait for ever, is a partial function, and its theorem is
  about every turn. Other waiting that depends on others is a run of steps, or, for the transforms, a list of rounds
  with the answers and clock readings met; a theorem says how many rounds are enough.

  \<^bold>\<open>Parameters of the model.\<close> Third-party code enters as an argument of the definitions that use it,
  with the behaviour it documents as a named hypothesis where a theorem needs it: the serialisers and
  deserialisers of generated message classes, service handlers of the user, lxml with the data types of
  XML Schema (record \<open>library\<close>), \<open>float()\<close>, h11 (record \<open>h11\<close>), the linear algebra of tf2 (record \<open>linear_math\<close>,
  with \<open>linear_math_law\<close>) and its buffer (record \<open>buffer_core\<close>, with \<open>core_law\<close>), the ports and
  the temporary folder the system gives (record \<open>system\<close>), and which characters outside ASCII are word characters.

  \<^bold>\<open>Not modelled.\<close> Sockets and the HTTP protocol (anyio, h11, httpx: bytes arrive in order, possibly not all);
  time limits and cancellation inside an operation (a cancelled block is one whose exception comes up); the
  permissions of files; the options of the master's script; which handlers the loggers of Python's
  \<open>logging\<close> have; the buffer and the linear algebra of tf2, which are C++; lists of exports and
  abstract methods (\<open>aioros/abc\<close>); properties that only return a field; \<open>WallTimeManager\<close>, which only
  asks the system.
\<close>

end
